(* ===== verification/Prelude.thy ===== *)
theory Prelude
  imports Main "HOL-Library.Word" "HOL-Library.Sublist" "HOL-Library.AList" "HOL-Library.Multiset"
begin

section \<open>Prelude: machine integers, Rust strings and shared lemmas\<close>

text \<open>
  Shared by every theory: the names of the machine integers, the collections of rewrite
  rules the component theories add to, and the part of Rust's \<^verbatim>\<open>str\<close> the agent
  uses. A Rust string is its sequence of UTF-8 bytes, written as a HOL \<^typ>\<open>string\<close>
  (a list of 8-bit characters); substring tests on UTF-8 text agree with tests on its bytes.
  \<^verbatim>\<open>str::to_lowercase\<close> is modelled on ASCII letters and leaves every other byte as it is.
\<close>

unbundle bit_operations_syntax

type_synonym u8 = "8 word"
type_synonym u16 = "16 word"
type_synonym u32 = "32 word"
type_synonym u64 = "64 word"
type_synonym bytes = "8 word list"

named_theorems engine_simps \<open>how the engine's small steps change each field\<close>
named_theorems layout_simps \<open>sizes and field offsets of the packed wire structures\<close>

subsection \<open>Substrings\<close>

abbreviation contains :: "string \<Rightarrow> string \<Rightarrow> bool" where
  "contains s p \<equiv> sublist p s"

abbreviation starts_with :: "string \<Rightarrow> string \<Rightarrow> bool" where
  "starts_with s p \<equiv> prefix p s"

abbreviation ends_with :: "string \<Rightarrow> string \<Rightarrow> bool" where
  "ends_with s p \<equiv> suffix p s"

lemma contains_trans: "contains s t \<Longrightarrow> contains t u \<Longrightarrow> contains s u"
  using sublist_order.order_trans by blast

subsection \<open>Case folding\<close>

definition ascii_lower_char :: "char \<Rightarrow> char" where
  "ascii_lower_char c =
     (let n = (of_char c :: nat) in if 65 \<le> n \<and> n \<le> 90 then char_of (n + 32) else c)"

definition to_lowercase :: "string \<Rightarrow> string" where
  "to_lowercase s = map ascii_lower_char s"

definition eq_ignore_ascii_case :: "string \<Rightarrow> string \<Rightarrow> bool" where
  "eq_ignore_ascii_case a b \<longleftrightarrow> map ascii_lower_char a = map ascii_lower_char b"

lemma ascii_lower_char_idem [simp]: "ascii_lower_char (ascii_lower_char c) = ascii_lower_char c"
  by (auto simp: ascii_lower_char_def Let_def)

lemma to_lowercase_idem [simp]: "to_lowercase (to_lowercase s) = to_lowercase s"
  by (simp add: to_lowercase_def)

lemma to_lowercase_append [simp]: "to_lowercase (s @ t) = to_lowercase s @ to_lowercase t"
  by (simp add: to_lowercase_def)

lemma to_lowercase_Nil [simp]: "to_lowercase [] = []"
  by (simp add: to_lowercase_def)

lemma length_to_lowercase [simp]: "length (to_lowercase s) = length s"
  by (simp add: to_lowercase_def)

lemma contains_to_lowercase: "contains s t \<Longrightarrow> contains (to_lowercase s) (to_lowercase t)"
  unfolding to_lowercase_def by (rule map_mono_sublist)

lemma eq_ignore_ascii_case_refl [simp]: "eq_ignore_ascii_case a a"
  by (simp add: eq_ignore_ascii_case_def)

lemma eq_ignore_ascii_case_sym: "eq_ignore_ascii_case a b \<longleftrightarrow> eq_ignore_ascii_case b a"
  by (auto simp: eq_ignore_ascii_case_def)

lemma eq_ignore_ascii_case_lower: "eq_ignore_ascii_case a b \<longleftrightarrow> to_lowercase a = to_lowercase b"
  by (simp add: eq_ignore_ascii_case_def to_lowercase_def)

subsection \<open>Replacement, splitting, trimming\<close>

text \<open>\<open>replace_char c t s\<close> is \<^verbatim>\<open>s.replace(c, t)\<close> for a one-byte pattern \<open>c\<close>.\<close>

definition replace_char :: "char \<Rightarrow> string \<Rightarrow> string \<Rightarrow> string" where
  "replace_char c t s = concat (map (\<lambda>x. if x = c then t else [x]) s)"

lemma replace_char_absent: "c \<notin> set t \<Longrightarrow> c \<notin> set (replace_char c t s)"
  by (auto simp: replace_char_def)

text \<open>\<^verbatim>\<open>split(sep)\<close> on a list: always at least one piece.\<close>

fun split_at :: "('a \<Rightarrow> bool) \<Rightarrow> 'a list \<Rightarrow> 'a list list" where
  "split_at p [] = [[]]"
| "split_at p (x # xs) =
     (if p x then [] # split_at p xs
      else (case split_at p xs of [] \<Rightarrow> [[x]] | y # ys \<Rightarrow> (x # y) # ys))"

lemma split_at_nonempty [simp]: "split_at p xs \<noteq> []"
  by (induction xs) (auto split: list.splits)

lemma split_at_no_sep: "\<forall>piece \<in> set (split_at p xs). \<forall>x \<in> set piece. \<not> p x"
proof (induction xs)
  case (Cons a xs)
  then show ?case
    by (cases "split_at p xs") auto
qed simp

definition is_ascii_whitespace :: "char \<Rightarrow> bool" where
  "is_ascii_whitespace c \<longleftrightarrow> (let n = (of_char c :: nat) in n = 32 \<or> (9 \<le> n \<and> n \<le> 13))"

definition split_whitespace :: "string \<Rightarrow> string list" where
  "split_whitespace s = filter (\<lambda>w. w \<noteq> []) (split_at is_ascii_whitespace s)"

definition trim :: "string \<Rightarrow> string" where
  "trim s = rev (dropWhile is_ascii_whitespace (rev (dropWhile is_ascii_whitespace s)))"

definition trim_end_while :: "('a \<Rightarrow> bool) \<Rightarrow> 'a list \<Rightarrow> 'a list" where
  "trim_end_while p xs = rev (dropWhile p (rev xs))"

lemma trim_end_while_replicate:
  assumes "\<And>x. x \<in> set xs \<Longrightarrow> \<not> p x" and "p c"
  shows "trim_end_while p (xs @ replicate n c) = xs"
proof -
  have "dropWhile p (replicate n c @ rev xs) = rev xs"
    using assms by (induction n) (cases "rev xs"; auto simp: dropWhile_eq_self_iff)+
  then show ?thesis by (simp add: trim_end_while_def)
qed

text \<open>\<^verbatim>\<open>str::lines\<close>: lines end in a newline or carriage return and newline, an
  unterminated last line counts unless it is empty.\<close>

definition strip_cr :: "string \<Rightarrow> string" where
  "strip_cr l = (if l \<noteq> [] \<and> last l = CHR 0x0D then butlast l else l)"

definition text_lines :: "string \<Rightarrow> string list" where
  "text_lines s =
     (let ps = split_at (\<lambda>c. c = CHR 0x0A) s; body = map strip_cr (butlast ps)
      in if last ps = [] then body else body @ [last ps])"

subsection \<open>Decimal and hexadecimal digits\<close>

definition digit_char :: "nat \<Rightarrow> char" where
  "digit_char d = (if d < 10 then char_of (48 + d) else char_of (87 + d))"

fun show_base :: "nat \<Rightarrow> nat \<Rightarrow> string" where
  "show_base b n =
     (if b \<le> 1 \<or> n < b then [digit_char n] else show_base b (n div b) @ [digit_char (n mod b)])"

declare show_base.simps [simp del]

abbreviation show_nat :: "nat \<Rightarrow> string" where
  "show_nat n \<equiv> show_base 10 n"

definition show_int :: "int \<Rightarrow> string" where
  "show_int i = (if i < 0 then CHR ''-'' # show_nat (nat (- i)) else show_nat (nat i))"

definition is_ascii_digit :: "char \<Rightarrow> bool" where
  "is_ascii_digit c \<longleftrightarrow> (let n = (of_char c :: nat) in 48 \<le> n \<and> n \<le> 57)"

text \<open>\<^verbatim>\<open>str::parse::<u32>\<close> on a string of digits: \<^term>\<open>None\<close> when empty, when another
  character occurs, or when the value does not fit 32 bits. (The optional leading plus sign
  Rust accepts is accepted here too.)\<close>

definition parse_u32 :: "string \<Rightarrow> u32 option" where
  "parse_u32 s0 =
     (let s = (case s0 of c # cs \<Rightarrow> if c = CHR ''+'' then cs else s0 | [] \<Rightarrow> s0);
          v = foldl (\<lambda>a c. 10 * a + ((of_char c :: nat) - 48)) 0 s
      in if s = [] \<or> \<not> list_all is_ascii_digit s \<or> 2 ^ 32 \<le> v then None else Some (of_nat v))"

subsection \<open>Lists\<close>

lemma find_Some_mem: "find p xs = Some x \<Longrightarrow> x \<in> set xs \<and> p x"
  by (auto simp: find_Some_iff)

lemma find_filter: "find p xs = (case filter p xs of [] \<Rightarrow> None | x # _ \<Rightarrow> Some x)"
  by (induction xs) auto

lemma find_cong_set: "(\<And>x. x \<in> set xs \<Longrightarrow> p x = q x) \<Longrightarrow> find p xs = find q xs"
  by (induction xs) auto

text \<open>Insertion into a hash set kept as a duplicate-free list.\<close>

definition hs_insert :: "'a \<Rightarrow> 'a list \<Rightarrow> 'a list" where
  "hs_insert x xs = (if x \<in> set xs then xs else xs @ [x])"

lemma set_hs_insert [simp]: "set (hs_insert x xs) = insert x (set xs)"
  by (auto simp: hs_insert_def)

lemma distinct_hs_insert [simp]: "distinct (hs_insert x xs) = distinct xs"
  by (auto simp: hs_insert_def)

lemma length_hs_insert: "length xs \<le> length (hs_insert x xs)"
  by (simp add: hs_insert_def)

end
