(* ===== verification/DashMap.thy ===== *)
theory DashMap
  imports Prelude
begin

section \<open>Concurrent hash maps\<close>

text \<open>
  The agent keeps its tables in \<^verbatim>\<open>DashMap\<close>s. A table is an association list with
  distinct keys whose order is the order in which \<^verbatim>\<open>iter()\<close> visits the entries. That
  order is arbitrary: a table may be permuted between any two steps of the agent, and the place
  of a new entry is chosen by the environment (see \<open>Engine\<close>). The locale \<open>keyed_store\<close> states
  what the agent relies on; the association lists provide it.
\<close>

type_synonym ('k, 'v) dmap = "('k \<times> 'v) list"

definition dm_get :: "('k, 'v) dmap \<Rightarrow> 'k \<Rightarrow> 'v option" where
  "dm_get m k = map_of m k"

definition dm_put :: "'k \<Rightarrow> 'v \<Rightarrow> ('k, 'v) dmap \<Rightarrow> ('k, 'v) dmap" where
  "dm_put k v m = AList.update k v m"

text \<open>\<^verbatim>\<open>get_mut\<close> followed by assignments to fields of the value.\<close>

definition dm_alter :: "'k \<Rightarrow> ('v \<Rightarrow> 'v) \<Rightarrow> ('k, 'v) dmap \<Rightarrow> ('k, 'v) dmap" where
  "dm_alter k f m = map (\<lambda>(k', v). (k', if k' = k then f v else v)) m"

definition dm_retain :: "('v \<Rightarrow> bool) \<Rightarrow> ('k, 'v) dmap \<Rightarrow> ('k, 'v) dmap" where
  "dm_retain p m = filter (\<lambda>(k, v). p v) m"

definition dm_ok :: "('k, 'v) dmap \<Rightarrow> bool" where
  "dm_ok m \<longleftrightarrow> distinct (map fst m)"

subsection \<open>The contract\<close>

locale keyed_store =
  fixes get :: "'m \<Rightarrow> 'k \<Rightarrow> 'v option"
    and put :: "'k \<Rightarrow> 'v \<Rightarrow> 'm \<Rightarrow> 'm"
    and alter :: "'k \<Rightarrow> ('v \<Rightarrow> 'v) \<Rightarrow> 'm \<Rightarrow> 'm"
    and retain :: "('v \<Rightarrow> bool) \<Rightarrow> 'm \<Rightarrow> 'm"
    and ok :: "'m \<Rightarrow> bool"
  assumes get_put: "get (put k v m) k' = (if k' = k then Some v else get m k')"
    and get_alter: "get (alter k f m) k' = (if k' = k then map_option f (get m k') else get m k')"
    and get_retain: "ok m \<Longrightarrow>
      get (retain p m) k = (case get m k of None \<Rightarrow> None | Some v \<Rightarrow> if p v then Some v else None)"
    and ok_put: "ok m \<Longrightarrow> ok (put k v m)"
    and ok_alter: "ok (alter k f m) = ok m"
    and ok_retain: "ok m \<Longrightarrow> ok (retain p m)"
begin

lemmas store_laws = get_put get_alter get_retain ok_put ok_alter ok_retain

lemma put_same: "get (put k v m) k = Some v"
  by (simp add: get_put)

lemma put_frame: "k' \<noteq> k \<Longrightarrow> get (put k v m) k' = get m k'"
  by (simp add: get_put)

lemma put_put: "get (put k v (put k w m)) = get (put k v m)"
  by (rule ext) (simp add: get_put)

lemma alter_frame: "k' \<noteq> k \<Longrightarrow> get (alter k f m) k' = get m k'"
  by (simp add: get_alter)

lemma alter_absent: "get m k = None \<Longrightarrow> get (alter k f m) = get m"
  by (rule ext) (simp add: get_alter)

lemma alter_alter: "get (alter k f (alter k g m)) = get (alter k (f \<circ> g) m)"
  by (rule ext) (simp add: get_alter option.map_comp)

lemma retain_put_kept:
  assumes "ok m" "p v"
  shows "get (retain p (put k v m)) = get (put k v (retain p m))"
  using assms by (intro ext) (simp add: get_put get_retain ok_put)

text \<open>A property of every stored entry is kept by each operation that respects it.\<close>

lemma all_put:
  assumes "\<And>k v. get m k = Some v \<Longrightarrow> P k v" and "P k v"
    and "get (put k v m) k' = Some w"
  shows "P k' w"
  using assms by (auto simp: get_put split: if_splits)

lemma all_alter:
  assumes "\<And>k v. get m k = Some v \<Longrightarrow> P k v" and "\<And>v. P k v \<Longrightarrow> P k (f v)"
    and "get (alter k f m) k' = Some w"
  shows "P k' w"
  using assms by (auto simp: get_alter split: if_splits)

lemma all_retain:
  assumes "\<And>k v. get m k = Some v \<Longrightarrow> P k v" and "ok m"
    and "get (retain p m) k' = Some w"
  shows "P k' w"
  using assms by (auto simp: get_retain split: option.splits if_splits)

end

subsection \<open>Association lists provide it\<close>

lemma map_of_dm_alter:
  "map_of (dm_alter k f m) k' = (if k' = k then map_option f (map_of m k') else map_of m k')"
  by (induction m) (auto simp: dm_alter_def)

lemma map_fst_dm_alter [simp]: "map fst (dm_alter k f m) = map fst m"
  by (induction m) (auto simp: dm_alter_def)

lemma map_of_filter_snd:
  "distinct (map fst m) \<Longrightarrow>
   map_of (filter (\<lambda>(k, v). p v) m) k =
     (case map_of m k of None \<Rightarrow> None | Some v \<Rightarrow> if p v then Some v else None)"
proof (induction m)
  case (Cons kv m)
  obtain k' v where kv: "kv = (k', v)" by (cases kv)
  have "map_of m k' = None"
    using Cons.prems by (simp add: kv map_of_eq_None_iff)
  then show ?case
    using Cons by (auto simp: kv)
qed simp

interpretation dm: keyed_store dm_get dm_put dm_alter dm_retain dm_ok
proof
  fix m :: "('k, 'v) dmap" and k k' :: 'k and v :: 'v and p :: "'v \<Rightarrow> bool" and f :: "'v \<Rightarrow> 'v"
  show "dm_get (dm_put k v m) k' = (if k' = k then Some v else dm_get m k')"
    by (simp add: dm_get_def dm_put_def update_conv')
  show "dm_get (dm_alter k f m) k' = (if k' = k then map_option f (dm_get m k') else dm_get m k')"
    by (simp add: dm_get_def map_of_dm_alter)
  show "dm_ok m \<Longrightarrow> dm_get (dm_retain p m) k =
      (case dm_get m k of None \<Rightarrow> None | Some v \<Rightarrow> if p v then Some v else None)"
    by (simp add: dm_get_def dm_retain_def dm_ok_def map_of_filter_snd)
  show "dm_ok m \<Longrightarrow> dm_ok (dm_put k v m)"
    by (simp add: dm_ok_def dm_put_def distinct_update)
  show "dm_ok (dm_alter k f m) = dm_ok m"
    by (simp add: dm_ok_def)
  show "dm_ok m \<Longrightarrow> dm_ok (dm_retain p m)"
    by (auto simp: dm_ok_def dm_retain_def intro: distinct_map_filter)
qed

subsection \<open>Entries\<close>

lemma dm_get_mem: "dm_get m k = Some v \<Longrightarrow> (k, v) \<in> set m"
  by (simp add: dm_get_def map_of_SomeD)

lemma dm_get_iff: "dm_ok m \<Longrightarrow> dm_get m k = Some v \<longleftrightarrow> (k, v) \<in> set m"
  by (simp add: dm_get_def dm_ok_def)

lemma set_dm_put: "dm_ok m \<Longrightarrow> set (dm_put k v m) = {(k', v') \<in> set m. k' \<noteq> k} \<union> {(k, v)}"
  by (auto simp: dm.ok_put dm.get_put dm_get_iff [symmetric] split: if_splits)

lemma set_dm_put_subset: "set (dm_put k v m) \<subseteq> insert (k, v) (set m)"
proof (induction m)
  case (Cons kv m)
  then show ?case by (cases kv) (auto simp: dm_put_def)
qed (simp add: dm_put_def)

lemma dm_put_mem [simp]: "(k, v) \<in> set (dm_put k v m)"
  by (metis dm.put_same dm_get_mem)

lemma mem_dm_alter: "(k', v') \<in> set (dm_alter k f m) \<longleftrightarrow>
    (\<exists>v. (k', v) \<in> set m \<and> v' = (if k' = k then f v else v))"
  by (force simp: dm_alter_def)

lemma dm_alter_memE:
  assumes "(k', v') \<in> set (dm_alter k f m)"
  obtains v where "(k', v) \<in> set m" "v' = (if k' = k then f v else v)"
  using assms unfolding mem_dm_alter by blast

lemma set_dm_retain [simp]: "set (dm_retain p m) = {(k, v) \<in> set m. p v}"
  by (auto simp: dm_retain_def)

lemma dm_ok_Nil [simp]: "dm_ok []"
  by (simp add: dm_ok_def)

lemma dm_get_Nil [simp]: "dm_get [] k = None"
  by (simp add: dm_get_def)

lemma dm_ok_perm: "mset m' = mset m \<Longrightarrow> dm_ok m' = dm_ok m"
  by (metis dm_ok_def mset_eq_imp_distinct_iff mset_map)

lemma dm_get_perm: "mset m' = mset m \<Longrightarrow> dm_ok m \<Longrightarrow> dm_get m' k = dm_get m k"
  by (metis dm_get_iff dm_ok_perm not_Some_eq set_mset_mset)

end
