(* ===== verification/ProcTable.thy ===== *)
theory ProcTable
  imports DashMap
begin

section \<open>The process table\<close>

text \<open>
  \<^verbatim>\<open>ProcessKey\<close> and \<^verbatim>\<open>ProcessState\<close> of \<^verbatim>\<open>heuristics.rs\<close>, and the lookup
  almost every handler starts with: iterate over the table and stop at the first entry with the
  wanted PID that is not terminated (\<open>find_live\<close>). The alert writer looks for the first entry with
  the PID whether terminated or not (\<open>find_pid\<close>).
\<close>

record process_key =
  pk_pid :: u32
  pk_start_time :: u64

record process_state =
  ps_key :: process_key
  ppid :: u32
  real_parent_pid :: u32
  image_path :: string
  command_line :: string
  category_flags :: u32
  pending_network_connect :: bool
  terminated :: bool
  ttl_deadline :: "int option"
  is_naked_tty :: bool
  is_untrusted :: bool
  is_install_context :: bool
  is_top_level_install :: bool
  install_root_pid :: u32
  depth :: u32
  unique_files_read :: "string list"

type_synonym process_map = "(process_key, process_state) dmap"
type_synonym children_map = "(process_key, process_key list) dmap"

definition find_live :: "process_map \<Rightarrow> u32 \<Rightarrow> (process_key \<times> process_state) option" where
  "find_live pm pid = find (\<lambda>(k, s). pk_pid k = pid \<and> \<not> terminated s) pm"

definition find_pid :: "process_map \<Rightarrow> u32 \<Rightarrow> (process_key \<times> process_state) option" where
  "find_pid pm pid = find (\<lambda>(k, s). pk_pid k = pid) pm"

text \<open>\<^verbatim>\<open>state.terminated = true; state.ttl_deadline = Some(Utc::now() + 5 min)\<close>; the clock
  counts nanoseconds.\<close>

definition five_minutes :: int where
  "five_minutes = 300 * 1000000000"

definition stop_entry :: "int \<Rightarrow> process_state \<Rightarrow> process_state" where
  "stop_entry now s = s\<lparr>terminated := True, ttl_deadline := Some (now + five_minutes)\<rparr>"

text \<open>Forgetting the observed threat: what a release does to the root of a tree.\<close>

definition clear_threat :: "process_state \<Rightarrow> process_state" where
  "clear_threat s = s\<lparr>category_flags := 0, pending_network_connect := False\<rparr>"

definition live_pids :: "process_map \<Rightarrow> u32 set" where
  "live_pids pm = {pk_pid k |k s. (k, s) \<in> set pm \<and> \<not> terminated s}"

definition mark_terminated :: "int \<Rightarrow> u32 \<Rightarrow> process_map \<Rightarrow> process_map" where
  "mark_terminated now pid pm =
     (case find_live pm pid of None \<Rightarrow> pm | Some (k, _) \<Rightarrow> dm_alter k (stop_entry now) pm)"

subsection \<open>Lookups\<close>

lemma find_live_SomeD:
  "find_live pm pid = Some (k, s) \<Longrightarrow> (k, s) \<in> set pm \<and> pk_pid k = pid \<and> \<not> terminated s"
  by (auto simp: find_live_def dest: find_Some_mem)

lemma find_live_get: "dm_ok pm \<Longrightarrow> find_live pm pid = Some (k, s) \<Longrightarrow> dm_get pm k = Some s"
  by (auto simp: dm_get_iff dest: find_live_SomeD)

lemma find_live_None: "find_live pm pid = None \<longleftrightarrow> pid \<notin> live_pids pm"
  by (auto simp: find_live_def find_None_iff live_pids_def)

lemma find_live_Some: "(\<exists>k s. find_live pm pid = Some (k, s)) \<longleftrightarrow> pid \<in> live_pids pm"
  using find_live_None [of pm pid] by fastforce

lemma find_pid_SomeD: "find_pid pm pid = Some (k, s) \<Longrightarrow> (k, s) \<in> set pm \<and> pk_pid k = pid"
  by (auto simp: find_pid_def dest: find_Some_mem)

lemma stop_entry_simps [simp]:
  "terminated (stop_entry now s)" "ps_key (stop_entry now s) = ps_key s"
  "ttl_deadline (stop_entry now s) = Some (now + five_minutes)"
  "is_install_context (stop_entry now s) = is_install_context s"
  "is_top_level_install (stop_entry now s) = is_top_level_install s"
  "install_root_pid (stop_entry now s) = install_root_pid s"
  "unique_files_read (stop_entry now s) = unique_files_read s"
  "is_untrusted (stop_entry now s) = is_untrusted s"
  "category_flags (stop_entry now s) = category_flags s"
  "pending_network_connect (stop_entry now s) = pending_network_connect s"
  by (simp_all add: stop_entry_def)

lemma clear_threat_simps [simp]:
  "terminated (clear_threat s) = terminated s" "ps_key (clear_threat s) = ps_key s"
  "ttl_deadline (clear_threat s) = ttl_deadline s"
  "is_install_context (clear_threat s) = is_install_context s"
  "is_top_level_install (clear_threat s) = is_top_level_install s"
  "install_root_pid (clear_threat s) = install_root_pid s"
  "unique_files_read (clear_threat s) = unique_files_read s"
  "is_untrusted (clear_threat s) = is_untrusted s"
  "category_flags (clear_threat s) = 0" "\<not> pending_network_connect (clear_threat s)"
  by (simp_all add: clear_threat_def)

subsection \<open>Tables only ever lose live processes by termination\<close>

lemma live_pids_iff: "pid \<in> live_pids pm \<longleftrightarrow> (\<exists>k s. (k, s) \<in> set pm \<and> \<not> terminated s \<and> pk_pid k = pid)"
  unfolding live_pids_def by blast

lemma live_pids_alter_subset:
  assumes "\<And>s. terminated s \<Longrightarrow> terminated (f s)"
  shows "live_pids (dm_alter k f pm) \<subseteq> live_pids pm"
proof
  fix pid assume "pid \<in> live_pids (dm_alter k f pm)"
  then obtain k' s where "(k', s) \<in> set pm" "pk_pid k' = pid"
    and "\<not> terminated (if k' = k then f s else s)"
    by (auto simp: live_pids_iff mem_dm_alter simp del: split_paired_Ex)
  moreover from this have "\<not> terminated s" using assms by (auto split: if_splits)
  ultimately show "pid \<in> live_pids pm" by (auto simp: live_pids_iff)
qed

lemma live_pids_alter_same:
  assumes "\<And>s. terminated (f s) = terminated s"
  shows "live_pids (dm_alter k f pm) = live_pids pm"
proof
  show "live_pids (dm_alter k f pm) \<subseteq> live_pids pm"
    using assms by (intro live_pids_alter_subset) simp
  show "live_pids pm \<subseteq> live_pids (dm_alter k f pm)"
  proof
    fix pid assume "pid \<in> live_pids pm"
    then obtain k' s where e: "(k', s) \<in> set pm" "pk_pid k' = pid" "\<not> terminated s"
      by (auto simp: live_pids_iff)
    let ?s = "if k' = k then f s else s"
    have "(k', ?s) \<in> set (dm_alter k f pm)" using e by (auto simp: mem_dm_alter)
    moreover have "\<not> terminated ?s" using e assms by simp
    ultimately show "pid \<in> live_pids (dm_alter k f pm)"
      using e by (auto simp: live_pids_iff)
  qed
qed

lemma live_pids_perm: "mset pm' = mset pm \<Longrightarrow> live_pids pm' = live_pids pm"
  unfolding live_pids_def by (drule mset_eq_setD) simp

lemma dm_ok_mark [simp]: "dm_ok (mark_terminated now pid pm) = dm_ok pm"
  by (auto simp: mark_terminated_def dm.ok_alter split: option.splits)

lemma keys_mark [simp]: "map fst (mark_terminated now pid pm) = map fst pm"
  by (auto simp: mark_terminated_def split: option.splits)

lemma mem_mark:
  assumes "(k, s) \<in> set (mark_terminated now pid pm)"
  obtains s0 where "(k, s0) \<in> set pm" "s = s0 \<or> s = stop_entry now s0 \<and> pk_pid k = pid"
  using assms
  by (auto simp: mark_terminated_def mem_dm_alter split: option.splits if_splits
      dest!: find_live_SomeD)

subsection \<open>Lookups after an update\<close>

lemma find_live_alter:
  assumes "\<And>s. terminated (f s) = terminated s"
  shows "find_live (dm_alter k f pm) pid =
    map_option (\<lambda>(k', s). (k', if k' = k then f s else s)) (find_live pm pid)"
proof -
  have "terminated (if b then f s else s) = terminated s" for b s
    using assms by simp
  then show ?thesis
    by (induction pm) (auto simp: find_live_def dm_alter_def)
qed

lemma find_live_alter_same:
  assumes "\<And>s. terminated (f s) = terminated s" "find_live pm pid = Some (k, s)"
  shows "find_live (dm_alter k f pm) pid = Some (k, f s)"
  by (simp add: find_live_alter assms)

text \<open>Changing a terminated entry changes no lookup of a live one.\<close>

lemma find_live_alter_dead:
  assumes "\<And>s. terminated (f s) = terminated s" "dm_ok pm" "(k, s) \<in> set pm" "terminated s"
  shows "find_live (dm_alter k f pm) pid = find_live pm pid"
proof (cases "find_live pm pid")
  case (Some r)
  then obtain k' s' where r: "find_live pm pid = Some (k', s')" by (cases r) auto
  then have "dm_get pm k' = Some s'" "\<not> terminated s'"
    using assms(2) by (auto simp: find_live_get dest: find_live_SomeD)
  moreover have "dm_get pm k = Some s" using assms(2,3) by (simp add: dm_get_iff)
  ultimately have "k' \<noteq> k" using assms(4) by auto
  then show ?thesis by (simp add: find_live_alter [OF assms(1)] r)
qed (simp add: find_live_alter [OF assms(1)])

lemma find_live_retain:
  assumes "\<And>k s. (k, s) \<in> set pm \<Longrightarrow> \<not> terminated s \<Longrightarrow> p s"
  shows "find_live (dm_retain p pm) pid = find_live pm pid"
  using assms by (induction pm) (auto simp: find_live_def dm_retain_def)

end
