(* ===== verification/Utf8.thy ===== *)
theory Utf8
  imports Prelude
begin

section \<open>UTF-8: lossy decoding of wire text\<close>

text \<open>
  Every text field of a telemetry event is a byte array that the agent reads with
  \<^verbatim>\<open>String::from_utf8_lossy(..).trim_end_matches('\0')\<close>. This theory models the standard
  library's decoder: \<open>utf8_head\<close> examines the first sequence of a non-empty byte list (is it
  well formed, and how many bytes does it span), \<open>utf8_valid\<close> is \<^verbatim>\<open>str::from_utf8\<close>'s
  test, and \<open>utf8_lossy\<close> replaces every maximal malformed sequence by U+FFFD (EF BF BD).
  \<open>cstr\<close> is the agent's reading of a text field.
\<close>

definition byte_at :: "bytes \<Rightarrow> nat \<Rightarrow> u8" where
  "byte_at bs i = (if i < length bs then bs ! i else 0)"

definition is_cont :: "u8 \<Rightarrow> bool" where
  "is_cont b \<longleftrightarrow> 0x80 \<le> b \<and> b \<le> 0xBF"

text \<open>The second byte of a three or four byte sequence, given its first.\<close>

definition second3_ok :: "u8 \<Rightarrow> u8 \<Rightarrow> bool" where
  "second3_ok b b1 \<longleftrightarrow>
     (if b = 0xE0 then 0xA0 \<le> b1 \<and> b1 \<le> 0xBF
      else if b = 0xED then 0x80 \<le> b1 \<and> b1 \<le> 0x9F
      else is_cont b1)"

definition second4_ok :: "u8 \<Rightarrow> u8 \<Rightarrow> bool" where
  "second4_ok b b1 \<longleftrightarrow>
     (if b = 0xF0 then 0x90 \<le> b1 \<and> b1 \<le> 0xBF
      else if b = 0xF4 then 0x80 \<le> b1 \<and> b1 \<le> 0x8F
      else is_cont b1)"

definition utf8_head :: "bytes \<Rightarrow> bool \<times> nat" where
  "utf8_head bs =
     (let b = byte_at bs 0; b1 = byte_at bs 1; b2 = byte_at bs 2; b3 = byte_at bs 3 in
      if b < 0x80 then (True, 1)
      else if 0xC2 \<le> b \<and> b \<le> 0xDF then (if is_cont b1 then (True, 2) else (False, 1))
      else if 0xE0 \<le> b \<and> b \<le> 0xEF then
        (if \<not> second3_ok b b1 then (False, 1)
         else if \<not> is_cont b2 then (False, 2) else (True, 3))
      else if 0xF0 \<le> b \<and> b \<le> 0xF4 then
        (if \<not> second4_ok b b1 then (False, 1)
         else if \<not> is_cont b2 then (False, 2)
         else if \<not> is_cont b3 then (False, 3) else (True, 4))
      else (False, 1))"

lemma utf8_head_pos: "utf8_head bs = (ok, n) \<Longrightarrow> 0 < n"
  by (auto simp: utf8_head_def Let_def split: if_splits)

lemma utf8_head_pos' [simp]: "0 < snd (utf8_head bs)"
  by (metis prod.collapse utf8_head_pos)

function utf8_valid :: "bytes \<Rightarrow> bool" where
  "utf8_valid bs \<longleftrightarrow>
     (if bs = [] then True
      else fst (utf8_head bs) \<and> utf8_valid (drop (snd (utf8_head bs)) bs))"
  by pat_completeness auto
termination
  by (relation "measure length") auto

definition replacement :: bytes where
  "replacement = [0xEF, 0xBF, 0xBD]"

function utf8_lossy :: "bytes \<Rightarrow> bytes" where
  "utf8_lossy bs =
     (if bs = [] then []
      else (if fst (utf8_head bs) then take (snd (utf8_head bs)) bs else replacement)
           @ utf8_lossy (drop (snd (utf8_head bs)) bs))"
  by pat_completeness auto
termination
  by (relation "measure length") auto

declare utf8_valid.simps [simp del] utf8_lossy.simps [simp del]

definition byte_char :: "u8 \<Rightarrow> char" where
  "byte_char b = char_of (unat b)"

definition char_byte :: "char \<Rightarrow> u8" where
  "char_byte c = of_nat (of_char c)"

definition from_utf8_lossy :: "bytes \<Rightarrow> string" where
  "from_utf8_lossy bs = map byte_char (utf8_lossy bs)"

definition cstr :: "bytes \<Rightarrow> string" where
  "cstr bs = trim_end_while (\<lambda>c. c = CHR 0x00) (from_utf8_lossy bs)"

subsection \<open>Sequences\<close>

lemma byte_at_Cons_0 [simp]: "byte_at (b # bs) 0 = b"
  by (simp add: byte_at_def)

lemma not_is_cont_0 [simp]: "\<not> is_cont 0"
  by (simp add: is_cont_def)

lemma not_second_0 [simp]: "\<not> second3_ok b 0" "\<not> second4_ok b 0"
  by (simp_all add: second3_ok_def second4_ok_def)

lemma byte_at_beyond: "length bs \<le> i \<Longrightarrow> byte_at bs i = 0"
  by (simp add: byte_at_def)

lemma byte_at_take_append: "i < n \<Longrightarrow> n \<le> length bs \<Longrightarrow> byte_at (take n bs @ ys) i = byte_at bs i"
  by (simp add: byte_at_def nth_append)

lemma utf8_head_length:
  assumes "utf8_head bs = (True, n)" "bs \<noteq> []"
  shows "n \<le> length bs"
proof (rule ccontr)
  assume "\<not> n \<le> length bs"
  then have "byte_at bs (n - 1) = 0"
    by (simp add: byte_at_beyond)
  then show False
    using assms \<open>\<not> n \<le> length bs\<close>
    by (cases bs) (auto simp: utf8_head_def Let_def split: if_splits)
qed

text \<open>A well-formed sequence is judged from its own bytes only.\<close>

lemma head_choice_local:
  assumes "(if a then (True, 1) else if b then (if c1 then (True, 2) else (False, 1))
      else if d then (if \<not> s3 then (False, 1) else if \<not> c2 then (False, 2) else (True, 3))
      else if e then (if \<not> s4 then (False, 1) else if \<not> c2 then (False, 2)
        else if \<not> c3 then (False, 3) else (True, 4))
      else (False, 1)) = (True, n :: nat)"
    and "1 < n \<Longrightarrow> c1' = c1 \<and> s3' = s3 \<and> s4' = s4" "2 < n \<Longrightarrow> c2' = c2" "3 < n \<Longrightarrow> c3' = c3"
  shows "(if a then (True, 1) else if b then (if c1' then (True, 2) else (False, 1))
      else if d then (if \<not> s3' then (False, 1) else if \<not> c2' then (False, 2) else (True, 3))
      else if e then (if \<not> s4' then (False, 1) else if \<not> c2' then (False, 2)
        else if \<not> c3' then (False, 3) else (True, 4))
      else (False, 1)) = (True, n)"
  using assms by (auto split: if_splits)

lemma utf8_head_local:
  assumes "utf8_head bs = (True, n)" "bs \<noteq> []"
  shows "utf8_head (take n bs @ ys) = (True, n)"
proof -
  have "n \<le> length bs" using assms by (rule utf8_head_length)
  then have same: "i < n \<Longrightarrow> byte_at (take n bs @ ys) i = byte_at bs i" for i
    by (simp add: byte_at_take_append)
  have zero: "byte_at (take n bs @ ys) 0 = byte_at bs 0"
    using same [of 0] utf8_head_pos [OF assms(1)] by simp
  show ?thesis
    unfolding utf8_head_def Let_def zero
    by (rule head_choice_local [OF assms(1) [unfolded utf8_head_def Let_def]])
      (simp_all only: same [of 1] same [of 2] same [of 3] HOL.simp_thms)
qed

lemma utf8_head_replacement: "utf8_head (replacement @ ys) = (True, 3)"
proof -
  have "byte_at (replacement @ ys) 0 = 0xEF" "byte_at (replacement @ ys) 1 = 0xBF"
    "byte_at (replacement @ ys) 2 = 0xBD"
    by (simp_all add: replacement_def byte_at_def)
  moreover have "second3_ok 0xEF 0xBF" "is_cont 0xBD"
    by (simp_all add: second3_ok_def is_cont_def)
  ultimately show ?thesis
    unfolding utf8_head_def Let_def by simp
qed

lemma utf8_valid_Nil [simp]: "utf8_valid []"
  by (simp add: utf8_valid.simps)

lemma utf8_lossy_Nil [simp]: "utf8_lossy [] = []"
  by (simp add: utf8_lossy.simps)

subsection \<open>Correctness of the lossy decoder\<close>

lemma utf8_lossy_of_valid: "utf8_valid bs \<Longrightarrow> utf8_lossy bs = bs"
proof (induction bs rule: utf8_lossy.induct)
  case (1 bs)
  show ?case
  proof (cases "bs = []")
    case False
    then have "fst (utf8_head bs)" and "utf8_valid (drop (snd (utf8_head bs)) bs)"
      using "1.prems" utf8_valid.simps [of bs] by simp_all
    then show ?thesis
      using False "1.IH" by (simp add: utf8_lossy.simps [of bs])
  qed simp
qed

lemma utf8_valid_lossy: "utf8_valid (utf8_lossy bs)"
proof (induction bs rule: utf8_lossy.induct)
  case (1 bs)
  show ?case
  proof (cases "bs = []")
    case False
    obtain ok n where h: "utf8_head bs = (ok, n)" by fastforce
    let ?rest = "utf8_lossy (drop n bs)"
    have IH: "utf8_valid ?rest" using "1.IH" False h by simp
    show ?thesis
    proof (cases ok)
      case True
      then have "utf8_head (take n bs @ ?rest) = (True, n)"
        using h \<open>bs \<noteq> []\<close> by (simp add: utf8_head_local)
      moreover have "n \<le> length bs"
        using True h \<open>bs \<noteq> []\<close> by (simp add: utf8_head_length)
      moreover have "0 < n" using h by (rule utf8_head_pos)
      ultimately show ?thesis
        using IH h True \<open>bs \<noteq> []\<close>
        by (simp add: utf8_lossy.simps [of bs] utf8_valid.simps [of "take n bs @ ?rest"])
    next
      case False
      have "utf8_head (replacement @ ?rest) = (True, 3)" by (rule utf8_head_replacement)
      moreover have "drop 3 (replacement @ ?rest) = ?rest" by (simp add: replacement_def)
      ultimately have "utf8_valid (replacement @ ?rest)"
        using IH utf8_valid.simps [of "replacement @ ?rest"] by simp
      then show ?thesis
        using h False \<open>bs \<noteq> []\<close> by (simp add: utf8_lossy.simps [of bs])
    qed
  qed simp
qed

lemma utf8_valid_ascii: "\<forall>b \<in> set bs. b < 0x80 \<Longrightarrow> utf8_valid bs"
proof (induction bs rule: utf8_valid.induct)
  case (1 bs)
  show ?case
  proof (cases bs)
    case (Cons b bs')
    then have "utf8_head bs = (True, 1)"
      using "1.prems" by (simp add: utf8_head_def)
    moreover from this have "utf8_valid (drop 1 bs)"
      using "1.IH" "1.prems" Cons by simp
    ultimately show ?thesis by (simp add: utf8_valid.simps [of bs])
  qed simp
qed

subsection \<open>Reading a text field\<close>

lemma byte_char_byte [simp]: "byte_char (char_byte c) = c"
  by (simp add: byte_char_def char_byte_def unat_of_nat)

lemma char_byte_char [simp]: "char_byte (byte_char b) = b"
  using unsigned_less [of b, where 'a = nat] by (simp add: byte_char_def char_byte_def)

lemma byte_char_inject [simp]: "byte_char a = byte_char b \<longleftrightarrow> a = b"
  by (metis char_byte_char)

definition is_ascii_text :: "string \<Rightarrow> bool" where
  "is_ascii_text s \<longleftrightarrow> (\<forall>c \<in> set s. 0 < (of_char c :: nat) \<and> (of_char c :: nat) < 128)"

text \<open>The producer's side: a text padded with NUL bytes to the size of the field.\<close>

definition pad_text :: "nat \<Rightarrow> string \<Rightarrow> bytes" where
  "pad_text n s = map char_byte s @ replicate (n - length s) 0"

lemma char_byte_less: "(of_char c :: nat) < 128 \<Longrightarrow> char_byte c < 0x80"
  by (simp add: char_byte_def word_less_nat_alt unat_of_nat)

lemma cstr_pad_text:
  assumes "is_ascii_text s"
  shows "cstr (pad_text n s) = s"
proof -
  have "\<forall>b \<in> set (pad_text n s). b < 0x80"
    using assms by (auto simp: pad_text_def is_ascii_text_def char_byte_less)
  then have "utf8_lossy (pad_text n s) = pad_text n s"
    by (intro utf8_lossy_of_valid utf8_valid_ascii)
  moreover have "byte_char 0 = CHR 0x00"
    by (simp add: byte_char_def char_of_def)
  ultimately have "from_utf8_lossy (pad_text n s) = s @ replicate (n - length s) (CHR 0x00)"
    by (simp add: from_utf8_lossy_def pad_text_def o_def)
  moreover have "\<And>c. c \<in> set s \<Longrightarrow> c \<noteq> CHR 0x00"
    using assms by (fastforce simp: is_ascii_text_def)
  ultimately show ?thesis
    by (simp add: cstr_def trim_end_while_replicate)
qed

lemma length_pad_text: "length s \<le> n \<Longrightarrow> length (pad_text n s) = n"
  by (simp add: pad_text_def)

end
