(* ===== verification/World.thy ===== *)
theory World
  imports ProcTable Utf8
begin

section \<open>The agent's surroundings\<close>

text \<open>
  Everything the agent asks that is not in its own sources is a parameter: the
  rules database of the crate \<^verbatim>\<open>kinnector-config\<close> (\<open>config\<close>, one field per getter the
  agent calls), and the operating system and external tools (\<open>env\<close>, one field per question). An
  \<open>env\<close> holds the answers given during one step of the agent; the clock is read once per step.

  \<open>rehash\<close> is the order in which \<^verbatim>\<open>DashMap\<close> iterates after an insertion: any function that
  keeps the entries (\<open>env_ok\<close>). Two more answers are about its locks, where the code relies on them:
  \<open>table_shard\<close>, the shard of the process table a key is in (one lock each), and \<open>iterator_clings\<close>,
  whether an iterator goes on holding the shard of an entry it has handed out when the caller drops that
  entry. The version in \<^verbatim>\<open>Cargo.lock\<close> does (5.5.3), the documentation says no more
  than that changing the map during an iteration may deadlock.
\<close>

record signer_info =
  signer_name :: string
  team_id :: "string option"
  is_signed :: bool

record config =
  cfg_version :: string
  epoch_timestamp :: u64
  system_package_paths :: "string list"
  sensitive_files :: "(string \<times> u32) list"
  is_path_excluded :: "string \<Rightarrow> bool"
  is_trusted_vendor :: "signer_info \<Rightarrow> bool"
  hvnc_monitored_gui_apps :: "string list"
  script_interpreters :: "string list"
  interactive_shells :: "string list"
  installer_binaries :: "string list"
  protected_application_directories :: "(string, string) dmap"
  shell_profile_paths :: "string list"
  persistence_paths :: "string list"
  sensitive_credential_paths :: "string list"
  window_managers :: "string list"
  browser_executables :: "string list"
  is_domain_allowed :: "string \<Rightarrow> bool"

text \<open>A directory entry of \<^verbatim>\<open>/proc\<close>: its name when it is UTF-8, the text of its
  \<^verbatim>\<open>comm\<close> file (empty when unreadable) and its owner.\<close>

record proc_entry =
  pe_name :: "string option"
  pe_comm :: string
  pe_uid :: "u32 option"

text \<open>A file system object as \<^verbatim>\<open>read_dir\<close> and \<^verbatim>\<open>metadata\<close> show it.\<close>

datatype fs_node =
    FileNode (node_path: string) (node_mode: u32) (node_ino: u64) (node_uid: u32)
  | DirNode "fs_node list"
  | OtherNode

text \<open>A dialog run with \<^verbatim>\<open>sudo -u\<close>: the user, two variables of its environment, the tool
  and its arguments.\<close>

record dialog_call =
  dc_user :: string
  dc_display :: string
  dc_dbus :: string
  dc_tool :: string
  dc_args :: "string list"

record env =
  clock :: int
  rehash :: "process_map \<Rightarrow> process_map"
  proc_exe :: "u32 \<Rightarrow> string option"
  proc_fd :: "u32 \<Rightarrow> int \<Rightarrow> string option"
  proc_environ :: "u32 \<Rightarrow> bytes option"
  proc_list :: "proc_entry list option"
  passwd_file :: "string option"
  mounts_file :: "string option"
  read_tree :: "string \<Rightarrow> fs_node list"
  file_inode :: "string \<Rightarrow> u64 option"
  file_len :: "string \<Rightarrow> nat option"
  file_bytes :: "string \<Rightarrow> bytes option"
  sha256sum_out :: "string \<Rightarrow> string option"
  db_writable :: bool
  package_db :: "string \<Rightarrow> bool"
  package_query :: "string \<Rightarrow> string \<Rightarrow> bool"
  trusted_exec_inode :: "u64 \<Rightarrow> bool"
  lsm_active :: bool
  tool_installed :: "string \<Rightarrow> bool"
  dialog_answer :: "dialog_call \<Rightarrow> bool option"
  default_config :: config
  load_rules_db :: "string + config"
  on_runtime :: bool
  table_shard :: "process_key \<Rightarrow> nat"
  iterator_clings :: bool

definition env_ok :: "env \<Rightarrow> bool" where
  "env_ok w \<longleftrightarrow> (\<forall>pm. mset (rehash w pm) = mset pm)"

text \<open>The calls into the telemetry engine library that change its state. The other two functions it
  exports are queries: answers of the environment. The arguments of the initialisation are
  \<open>init_arguments\<close> in \<open>Startup\<close>; the results of calls that change a kernel map are ignored by the code.\<close>

datatype ffi_call =
    InitializeTelemetryEngine
  | StartTelemetryEngine
  | AddSensitiveInode u64 u32
  | AddTrustedExecInode u64 u32
  | SetConfigValue u32 u32
  | UpdateProcessThreshold u32 u64 u32
  | StopTelemetryEngine

lemma env_ok_runtime [simp]: "env_ok (w\<lparr>on_runtime := b\<rparr>) = env_ok w"
  by (simp add: env_ok_def)

lemma env_okD: "env_ok w \<Longrightarrow> mset (rehash w pm) = mset pm"
  by (simp add: env_ok_def)

lemma set_rehash: "env_ok w \<Longrightarrow> set (rehash w pm) = set pm"
  by (metis env_okD set_mset_mset)

lemma dm_ok_rehash: "env_ok w \<Longrightarrow> dm_ok (rehash w pm) = dm_ok pm"
  by (rule dm_ok_perm) (rule env_okD)

lemma dm_get_rehash: "env_ok w \<Longrightarrow> dm_ok pm \<Longrightarrow> dm_get (rehash w pm) k = dm_get pm k"
  by (rule dm_get_perm) (simp_all add: env_okD)

subsection \<open>A quiet environment\<close>

text \<open>The environment and configuration in which nothing exists: a starting point for
  concrete runs.\<close>

definition quiet_config :: config where
  "quiet_config = \<lparr>
     cfg_version = '''', epoch_timestamp = 0, system_package_paths = [], sensitive_files = [],
     is_path_excluded = (\<lambda>_. False), is_trusted_vendor = (\<lambda>_. False),
     hvnc_monitored_gui_apps = [], script_interpreters = [], interactive_shells = [],
     installer_binaries = [], protected_application_directories = [], shell_profile_paths = [],
     persistence_paths = [], sensitive_credential_paths = [], window_managers = [],
     browser_executables = [], is_domain_allowed = (\<lambda>_. False)\<rparr>"

definition quiet_env :: env where
  "quiet_env = \<lparr>
     clock = 0, rehash = (\<lambda>pm. pm), proc_exe = (\<lambda>_. None), proc_fd = (\<lambda>_ _. None),
     proc_environ = (\<lambda>_. None), proc_list = None, passwd_file = None, mounts_file = None,
     read_tree = (\<lambda>_. []), file_inode = (\<lambda>_. None), file_len = (\<lambda>_. None),
     file_bytes = (\<lambda>_. None), sha256sum_out = (\<lambda>_. None), db_writable = True,
     package_db = (\<lambda>_. False), package_query = (\<lambda>_ _. False),
     trusted_exec_inode = (\<lambda>_. False), lsm_active = False, tool_installed = (\<lambda>_. False),
     dialog_answer = (\<lambda>_. None), default_config = quiet_config,
     load_rules_db = Inl ''missing'', on_runtime = True,
     table_shard = (\<lambda>k. unat (pk_pid k) mod 2), iterator_clings = True\<rparr>"

lemma env_ok_quiet [simp]: "env_ok quiet_env"
  by (simp add: env_ok_def quiet_env_def)

end
