(* ===== verification/Wire.thy ===== *)
theory Wire
  imports Utf8
begin

section \<open>The telemetry wire format\<close>

text \<open>
  \<^verbatim>\<open>types.rs\<close>: event kinds, telemetry sources, the packed C structures of the telemetry
  socket, and their encoding. Every structure is \<^verbatim>\<open>repr(C, packed)\<close>, so its fields
  follow each other without padding; integers are in native byte order, modelled as little endian
  (the agent's targets). A structure some handler reads is a record with an encoder (what the
  producer sends) and a decoder (what \<^verbatim>\<open>ptr::read_unaligned\<close> yields); the locale
  \<open>packed_struct\<close> states what the two promise each other and is interpreted on each structure.
  The remaining structures are given by the sizes of their fields.

  The event kind and source bytes are Rust enums: \<^verbatim>\<open>read_unaligned\<close> at a byte that is no
  discriminant is undefined behaviour, which the decoder reports as \<^term>\<open>None\<close>.
\<close>

subsection \<open>Event kinds and sources\<close>

datatype event_type =
    ProcessCreate | ProcessStop | FileRead | FileCreate | FileWrite | FileRename
  | NetworkConnect | ImageLoad | RegistryWrite | ClipboardWrite | CallStackFrame
  | MemoryProtect | PtraceAttach | SSHAuth | TerminalCommand | FileOpen | MemoryMap
  | Dup2 | Listen

primrec event_code :: "event_type \<Rightarrow> u8" where
  "event_code ProcessCreate = 1"
| "event_code ProcessStop = 2"
| "event_code FileRead = 3"
| "event_code FileCreate = 4"
| "event_code FileWrite = 5"
| "event_code FileRename = 6"
| "event_code NetworkConnect = 7"
| "event_code ImageLoad = 8"
| "event_code RegistryWrite = 9"
| "event_code ClipboardWrite = 10"
| "event_code CallStackFrame = 11"
| "event_code MemoryProtect = 12"
| "event_code PtraceAttach = 13"
| "event_code SSHAuth = 14"
| "event_code TerminalCommand = 15"
| "event_code FileOpen = 16"
| "event_code MemoryMap = 17"
| "event_code Dup2 = 18"
| "event_code Listen = 19"

definition all_event_types :: "event_type list" where
  "all_event_types =
     [ProcessCreate, ProcessStop, FileRead, FileCreate, FileWrite, FileRename, NetworkConnect,
      ImageLoad, RegistryWrite, ClipboardWrite, CallStackFrame, MemoryProtect, PtraceAttach,
      SSHAuth, TerminalCommand, FileOpen, MemoryMap, Dup2, Listen]"

definition event_of_code :: "u8 \<Rightarrow> event_type option" where
  "event_of_code b = find (\<lambda>t. event_code t = b) all_event_types"

datatype telemetry_source =
  ETW | ESF | OpenBSM | EBPF | Fanotify | BPF_LSM | Log_FIM | Clipboard | CallStack

primrec source_code :: "telemetry_source \<Rightarrow> u8" where
  "source_code ETW = 1"
| "source_code ESF = 2"
| "source_code OpenBSM = 3"
| "source_code EBPF = 4"
| "source_code Fanotify = 5"
| "source_code BPF_LSM = 6"
| "source_code Log_FIM = 7"
| "source_code Clipboard = 8"
| "source_code CallStack = 9"

definition all_sources :: "telemetry_source list" where
  "all_sources = [ETW, ESF, OpenBSM, EBPF, Fanotify, BPF_LSM, Log_FIM, Clipboard, CallStack]"

definition source_of_code :: "u8 \<Rightarrow> telemetry_source option" where
  "source_of_code b = find (\<lambda>t. source_code t = b) all_sources"

lemma event_of_code_code [simp]: "event_of_code (event_code t) = Some t"
  by (cases t) (simp_all add: event_of_code_def all_event_types_def)

lemma event_of_code_Some: "event_of_code b = Some t \<longleftrightarrow> b = event_code t"
proof
  assume "event_of_code b = Some t"
  then show "b = event_code t"
    unfolding event_of_code_def by (auto dest: find_Some_mem)
qed simp

lemma source_of_code_code [simp]: "source_of_code (source_code t) = Some t"
  by (cases t) (simp_all add: source_of_code_def all_sources_def)

lemma event_code_inject: "event_code s = event_code t \<longleftrightarrow> s = t"
  by (metis event_of_code_code option.inject)

text \<open>The discriminants of \<^verbatim>\<open>repr(u8)\<close> order the event kinds.\<close>

instantiation event_type :: linorder
begin

definition less_eq_event_type :: "event_type \<Rightarrow> event_type \<Rightarrow> bool" where
  "less_eq_event_type s t \<longleftrightarrow> event_code s \<le> event_code t"

definition less_event_type :: "event_type \<Rightarrow> event_type \<Rightarrow> bool" where
  "less_event_type s t \<longleftrightarrow> event_code s < event_code t"

instance
proof
  fix s t u :: event_type
  show "s < t \<longleftrightarrow> s \<le> t \<and> \<not> t \<le> s"
    by (auto simp: less_eq_event_type_def less_event_type_def)
  show "s \<le> s" by (simp add: less_eq_event_type_def)
  show "s \<le> t \<Longrightarrow> t \<le> u \<Longrightarrow> s \<le> u" by (simp add: less_eq_event_type_def)
  show "s \<le> t \<Longrightarrow> t \<le> s \<Longrightarrow> s = t"
    using event_code_inject by (auto simp: less_eq_event_type_def)
  show "s \<le> t \<or> t \<le> s" by (auto simp: less_eq_event_type_def)
qed

end

lemma event_of_code_range: "event_of_code b \<noteq> None \<longleftrightarrow> 1 \<le> b \<and> b \<le> 19"
proof
  assume "event_of_code b \<noteq> None"
  then obtain t where "b = event_code t" by (auto simp: event_of_code_Some)
  then show "1 \<le> b \<and> b \<le> 19" by (cases t) simp_all
next
  assume "1 \<le> b \<and> b \<le> 19"
  then have "unat b \<in> {1..19}"
    by (simp add: word_le_nat_alt)
  then have "b \<in> of_nat ` {1..19}" by (metis imageI of_nat_unat ucast_id)
  also have "{1..19} = {1,2,3,4,5,6,7,8,9,10,11,12,13,14,15,16,17,18,19::nat}"
    by auto presburger
  finally show "event_of_code b \<noteq> None"
    by (auto simp: event_of_code_def all_event_types_def)
qed

subsection \<open>Integers on the wire\<close>

primrec le_val :: "bytes \<Rightarrow> nat" where
  "le_val [] = 0"
| "le_val (b # bs) = unat b + 256 * le_val bs"

primrec le_bytes :: "nat \<Rightarrow> nat \<Rightarrow> bytes" where
  "le_bytes 0 v = []"
| "le_bytes (Suc n) v = of_nat (v mod 256) # le_bytes n (v div 256)"

lemma length_le_bytes [simp]: "length (le_bytes n v) = n"
  by (induction n arbitrary: v) auto

lemma le_val_le_bytes: "le_val (le_bytes n v) = v mod 256 ^ n"
proof (induction n arbitrary: v)
  case (Suc n)
  have "unat (of_nat (v mod 256) :: u8) = v mod 256"
    by (simp add: unat_of_nat)
  then show ?case
    using Suc by (simp add: mod_mult2_eq)
qed simp

lemma le_val_bound: "le_val bs < 256 ^ length bs"
proof (induction bs)
  case (Cons b bs)
  have "unat b < 256" using unsigned_less [of b, where 'a = nat] by simp
  then show ?case using Cons by simp
qed simp

definition slice :: "nat \<Rightarrow> nat \<Rightarrow> bytes \<Rightarrow> bytes" where
  "slice off n bs = take n (drop off bs)"

definition read_word :: "nat \<Rightarrow> nat \<Rightarrow> bytes \<Rightarrow> 'a::len word" where
  "read_word off n bs = of_nat (le_val (slice off n bs))"

definition put_word :: "nat \<Rightarrow> 'a::len word \<Rightarrow> bytes" where
  "put_word n w = le_bytes n (unat w)"

lemma length_put_word [simp]: "length (put_word n w) = n"
  by (simp add: put_word_def)

lemma slice_here [layout_simps]: "length a = n \<Longrightarrow> slice 0 n (a @ b) = a"
  by (simp add: slice_def)

lemma slice_skip [layout_simps]: "length a \<le> off \<Longrightarrow> slice off n (a @ b) = slice (off - length a) n b"
  by (simp add: slice_def)

lemma read_word_here:
  assumes n: "LENGTH('a) = 8 * n"
  shows "read_word 0 n (put_word n (w :: 'a::len word) @ b) = w"
proof -
  have "(256::nat) ^ n = 2 ^ LENGTH('a)" by (simp add: n power_mult)
  then show ?thesis
    by (simp add: read_word_def put_word_def slice_here le_val_le_bytes)
qed

lemma read_word_skip [layout_simps]:
  "length a \<le> off \<Longrightarrow> read_word off n (a @ b) = read_word (off - length a) n b"
  by (simp add: read_word_def slice_skip)

lemma read_u8 [layout_simps]: "read_word 0 (Suc 0) (put_word (Suc 0) (w :: u8) @ b) = w"
  by (rule read_word_here) simp

lemma read_u16 [layout_simps]: "read_word 0 2 (put_word 2 (w :: u16) @ b) = w"
  by (rule read_word_here) simp

lemma read_u32 [layout_simps]: "read_word 0 4 (put_word 4 (w :: u32) @ b) = w"
  by (rule read_word_here) simp

lemma read_u64 [layout_simps]: "read_word 0 8 (put_word 8 (w :: u64) @ b) = w"
  by (rule read_word_here) simp

subsection \<open>The contract of a packed structure\<close>

locale packed_struct =
  fixes enc :: "'a \<Rightarrow> bytes"
    and dec :: "bytes \<Rightarrow> 'a option"
    and size_of :: nat
    and wf :: "'a \<Rightarrow> bool"
  assumes size_pos: "0 < size_of"
    and length_enc: "wf x \<Longrightarrow> length (enc x) = size_of"
    and dec_enc: "wf x \<Longrightarrow> dec (enc x @ junk) = Some x"
begin

lemma dec_exact: "wf x \<Longrightarrow> dec (enc x) = Some x"
  using dec_enc [of x "[]"] by simp

lemma enc_inj: "wf x \<Longrightarrow> wf y \<Longrightarrow> enc x = enc y \<Longrightarrow> x = y"
  by (metis dec_exact option.inject)

lemma enc_prefix_free: "wf x \<Longrightarrow> wf y \<Longrightarrow> enc x @ a = enc y @ b \<Longrightarrow> x = y \<and> a = b"
  by (metis append_eq_append_conv dec_enc length_enc option.inject)

lemma length_concat_enc: "\<forall>x \<in> set xs. wf x \<Longrightarrow> length (concat (map enc xs)) = size_of * length xs"
  by (induction xs) (auto simp: length_enc)

end

subsection \<open>Structures the handlers read\<close>

text \<open>Signed fields (\<^verbatim>\<open>i32\<close>) are 32-bit words read with \<^const>\<open>sint\<close>.\<close>

record process_create_details =
  pc_child_pid :: u32
  pc_real_parent_pid :: u32
  pc_child_image_path :: bytes
  pc_child_command_line :: bytes

definition enc_process_create_details :: "process_create_details \<Rightarrow> bytes" where
  "enc_process_create_details d =
     put_word 4 (pc_child_pid d) @ put_word 4 (pc_real_parent_pid d) @ pc_child_image_path d @
     pc_child_command_line d @ []"

definition dec_process_create_details :: "bytes \<Rightarrow> process_create_details" where
  "dec_process_create_details bs =
     \<lparr>pc_child_pid = read_word 0 4 bs,
      pc_real_parent_pid = read_word 4 4 bs,
      pc_child_image_path = slice 8 512 bs,
      pc_child_command_line = slice 520 1024 bs\<rparr>"

definition wf_process_create_details :: "process_create_details \<Rightarrow> bool" where
  "wf_process_create_details d \<longleftrightarrow>
     length (pc_child_image_path d) = 512 \<and> length (pc_child_command_line d) = 1024"

interpretation process_create_details_codec: packed_struct enc_process_create_details "Some \<circ> dec_process_create_details" 1544 wf_process_create_details
  by unfold_locales
    (simp_all add: enc_process_create_details_def dec_process_create_details_def wf_process_create_details_def layout_simps)

record file_read_details =
  fr_bytes_requested :: u32
  fr_zone_id :: u32
  fr_file_path :: bytes

definition enc_file_read_details :: "file_read_details \<Rightarrow> bytes" where
  "enc_file_read_details d =
     put_word 4 (fr_bytes_requested d) @ put_word 4 (fr_zone_id d) @ fr_file_path d @ []"

definition dec_file_read_details :: "bytes \<Rightarrow> file_read_details" where
  "dec_file_read_details bs =
     \<lparr>fr_bytes_requested = read_word 0 4 bs,
      fr_zone_id = read_word 4 4 bs,
      fr_file_path = slice 8 512 bs\<rparr>"

definition wf_file_read_details :: "file_read_details \<Rightarrow> bool" where
  "wf_file_read_details d \<longleftrightarrow>
     length (fr_file_path d) = 512"

interpretation file_read_details_codec: packed_struct enc_file_read_details "Some \<circ> dec_file_read_details" 520 wf_file_read_details
  by unfold_locales
    (simp_all add: enc_file_read_details_def dec_file_read_details_def wf_file_read_details_def layout_simps)

record file_write_details =
  fw_bytes_written :: u32
  fw_file_path :: bytes

definition enc_file_write_details :: "file_write_details \<Rightarrow> bytes" where
  "enc_file_write_details d =
     put_word 4 (fw_bytes_written d) @ fw_file_path d @ []"

definition dec_file_write_details :: "bytes \<Rightarrow> file_write_details" where
  "dec_file_write_details bs =
     \<lparr>fw_bytes_written = read_word 0 4 bs,
      fw_file_path = slice 4 512 bs\<rparr>"

definition wf_file_write_details :: "file_write_details \<Rightarrow> bool" where
  "wf_file_write_details d \<longleftrightarrow>
     length (fw_file_path d) = 512"

interpretation file_write_details_codec: packed_struct enc_file_write_details "Some \<circ> dec_file_write_details" 516 wf_file_write_details
  by unfold_locales
    (simp_all add: enc_file_write_details_def dec_file_write_details_def wf_file_write_details_def layout_simps)

record network_connect_details =
  nc_destination_ip :: bytes
  nc_destination_port :: u16
  nc_protocol :: bytes

definition enc_network_connect_details :: "network_connect_details \<Rightarrow> bytes" where
  "enc_network_connect_details d =
     nc_destination_ip d @ put_word 2 (nc_destination_port d) @ nc_protocol d @ []"

definition dec_network_connect_details :: "bytes \<Rightarrow> network_connect_details" where
  "dec_network_connect_details bs =
     \<lparr>nc_destination_ip = slice 0 46 bs,
      nc_destination_port = read_word 46 2 bs,
      nc_protocol = slice 48 8 bs\<rparr>"

definition wf_network_connect_details :: "network_connect_details \<Rightarrow> bool" where
  "wf_network_connect_details d \<longleftrightarrow>
     length (nc_destination_ip d) = 46 \<and> length (nc_protocol d) = 8"

interpretation network_connect_details_codec: packed_struct enc_network_connect_details "Some \<circ> dec_network_connect_details" 56 wf_network_connect_details
  by unfold_locales
    (simp_all add: enc_network_connect_details_def dec_network_connect_details_def wf_network_connect_details_def layout_simps)

record registry_write_details =
  rw_key_path :: bytes
  rw_value_name :: bytes
  rw_value_data :: bytes

definition enc_registry_write_details :: "registry_write_details \<Rightarrow> bytes" where
  "enc_registry_write_details d =
     rw_key_path d @ rw_value_name d @ rw_value_data d @ []"

definition dec_registry_write_details :: "bytes \<Rightarrow> registry_write_details" where
  "dec_registry_write_details bs =
     \<lparr>rw_key_path = slice 0 512 bs,
      rw_value_name = slice 512 256 bs,
      rw_value_data = slice 768 512 bs\<rparr>"

definition wf_registry_write_details :: "registry_write_details \<Rightarrow> bool" where
  "wf_registry_write_details d \<longleftrightarrow>
     length (rw_key_path d) = 512 \<and> length (rw_value_name d) = 256 \<and>
     length (rw_value_data d) = 512"

interpretation registry_write_details_codec: packed_struct enc_registry_write_details "Some \<circ> dec_registry_write_details" 1280 wf_registry_write_details
  by unfold_locales
    (simp_all add: enc_registry_write_details_def dec_registry_write_details_def wf_registry_write_details_def layout_simps)

record file_open_details =
  fo_file_path :: bytes
  fo_flags :: u32

definition enc_file_open_details :: "file_open_details \<Rightarrow> bytes" where
  "enc_file_open_details d =
     fo_file_path d @ put_word 4 (fo_flags d) @ []"

definition dec_file_open_details :: "bytes \<Rightarrow> file_open_details" where
  "dec_file_open_details bs =
     \<lparr>fo_file_path = slice 0 512 bs,
      fo_flags = read_word 512 4 bs\<rparr>"

definition wf_file_open_details :: "file_open_details \<Rightarrow> bool" where
  "wf_file_open_details d \<longleftrightarrow>
     length (fo_file_path d) = 512"

interpretation file_open_details_codec: packed_struct enc_file_open_details "Some \<circ> dec_file_open_details" 516 wf_file_open_details
  by unfold_locales
    (simp_all add: enc_file_open_details_def dec_file_open_details_def wf_file_open_details_def layout_simps)

record dup2_details =
  du_old_fd :: u32
  du_new_fd :: u32
  du_old_fd_type :: u8

definition enc_dup2_details :: "dup2_details \<Rightarrow> bytes" where
  "enc_dup2_details d =
     put_word 4 (du_old_fd d) @ put_word 4 (du_new_fd d) @ put_word 1 (du_old_fd_type d) @ []"

definition dec_dup2_details :: "bytes \<Rightarrow> dup2_details" where
  "dec_dup2_details bs =
     \<lparr>du_old_fd = read_word 0 4 bs,
      du_new_fd = read_word 4 4 bs,
      du_old_fd_type = read_word 8 1 bs\<rparr>"

definition wf_dup2_details :: "dup2_details \<Rightarrow> bool" where
  "wf_dup2_details d \<longleftrightarrow>
     True"

interpretation dup2_details_codec: packed_struct enc_dup2_details "Some \<circ> dec_dup2_details" 9 wf_dup2_details
  by unfold_locales
    (simp_all add: enc_dup2_details_def dec_dup2_details_def wf_dup2_details_def layout_simps)

record memory_map_bpf_details =
  mm_addr :: u64
  mm_len :: u64
  mm_prot :: u32
  mm_flags :: u32
  mm_fd :: u32
  mm_file_inode :: u64

definition enc_memory_map_bpf_details :: "memory_map_bpf_details \<Rightarrow> bytes" where
  "enc_memory_map_bpf_details d =
     put_word 8 (mm_addr d) @ put_word 8 (mm_len d) @ put_word 4 (mm_prot d) @
     put_word 4 (mm_flags d) @ put_word 4 (mm_fd d) @ put_word 8 (mm_file_inode d) @ []"

definition dec_memory_map_bpf_details :: "bytes \<Rightarrow> memory_map_bpf_details" where
  "dec_memory_map_bpf_details bs =
     \<lparr>mm_addr = read_word 0 8 bs,
      mm_len = read_word 8 8 bs,
      mm_prot = read_word 16 4 bs,
      mm_flags = read_word 20 4 bs,
      mm_fd = read_word 24 4 bs,
      mm_file_inode = read_word 28 8 bs\<rparr>"

definition wf_memory_map_bpf_details :: "memory_map_bpf_details \<Rightarrow> bool" where
  "wf_memory_map_bpf_details d \<longleftrightarrow>
     True"

interpretation memory_map_bpf_details_codec: packed_struct enc_memory_map_bpf_details "Some \<circ> dec_memory_map_bpf_details" 36 wf_memory_map_bpf_details
  by unfold_locales
    (simp_all add: enc_memory_map_bpf_details_def dec_memory_map_bpf_details_def wf_memory_map_bpf_details_def layout_simps)

record bpf_ptrace_attach_details =
  pt_tracee_pid :: u32
  pt_mode :: u32

definition enc_bpf_ptrace_attach_details :: "bpf_ptrace_attach_details \<Rightarrow> bytes" where
  "enc_bpf_ptrace_attach_details d =
     put_word 4 (pt_tracee_pid d) @ put_word 4 (pt_mode d) @ []"

definition dec_bpf_ptrace_attach_details :: "bytes \<Rightarrow> bpf_ptrace_attach_details" where
  "dec_bpf_ptrace_attach_details bs =
     \<lparr>pt_tracee_pid = read_word 0 4 bs,
      pt_mode = read_word 4 4 bs\<rparr>"

definition wf_bpf_ptrace_attach_details :: "bpf_ptrace_attach_details \<Rightarrow> bool" where
  "wf_bpf_ptrace_attach_details d \<longleftrightarrow>
     True"

interpretation bpf_ptrace_attach_details_codec: packed_struct enc_bpf_ptrace_attach_details "Some \<circ> dec_bpf_ptrace_attach_details" 8 wf_bpf_ptrace_attach_details
  by unfold_locales
    (simp_all add: enc_bpf_ptrace_attach_details_def dec_bpf_ptrace_attach_details_def wf_bpf_ptrace_attach_details_def layout_simps)

record bpf_image_load_details =
  il_file_inode :: u64
  il_module_path :: bytes

definition enc_bpf_image_load_details :: "bpf_image_load_details \<Rightarrow> bytes" where
  "enc_bpf_image_load_details d =
     put_word 8 (il_file_inode d) @ il_module_path d @ []"

definition dec_bpf_image_load_details :: "bytes \<Rightarrow> bpf_image_load_details" where
  "dec_bpf_image_load_details bs =
     \<lparr>il_file_inode = read_word 0 8 bs,
      il_module_path = slice 8 256 bs\<rparr>"

definition wf_bpf_image_load_details :: "bpf_image_load_details \<Rightarrow> bool" where
  "wf_bpf_image_load_details d \<longleftrightarrow>
     length (il_module_path d) = 256"

interpretation bpf_image_load_details_codec: packed_struct enc_bpf_image_load_details "Some \<circ> dec_bpf_image_load_details" 264 wf_bpf_image_load_details
  by unfold_locales
    (simp_all add: enc_bpf_image_load_details_def dec_bpf_image_load_details_def wf_bpf_image_load_details_def layout_simps)

record clipboard_write_details =
  cw_owner_pid :: u32
  cw_owner_is_foreground :: u8
  cw_previous_content :: bytes
  cw_new_content :: bytes
  cw_content_type :: bytes
  cw_attribution :: bytes

definition enc_clipboard_write_details :: "clipboard_write_details \<Rightarrow> bytes" where
  "enc_clipboard_write_details d =
     put_word 4 (cw_owner_pid d) @ put_word 1 (cw_owner_is_foreground d) @
     cw_previous_content d @ cw_new_content d @ cw_content_type d @ cw_attribution d @ []"

definition dec_clipboard_write_details :: "bytes \<Rightarrow> clipboard_write_details" where
  "dec_clipboard_write_details bs =
     \<lparr>cw_owner_pid = read_word 0 4 bs,
      cw_owner_is_foreground = read_word 4 1 bs,
      cw_previous_content = slice 5 512 bs,
      cw_new_content = slice 517 512 bs,
      cw_content_type = slice 1029 32 bs,
      cw_attribution = slice 1061 16 bs\<rparr>"

definition wf_clipboard_write_details :: "clipboard_write_details \<Rightarrow> bool" where
  "wf_clipboard_write_details d \<longleftrightarrow>
     length (cw_previous_content d) = 512 \<and> length (cw_new_content d) = 512 \<and>
     length (cw_content_type d) = 32 \<and> length (cw_attribution d) = 16"

interpretation clipboard_write_details_codec: packed_struct enc_clipboard_write_details "Some \<circ> dec_clipboard_write_details" 1077 wf_clipboard_write_details
  by unfold_locales
    (simp_all add: enc_clipboard_write_details_def dec_clipboard_write_details_def wf_clipboard_write_details_def layout_simps)

record tty_event_raw =
  tty_timestamp_ns :: u64
  tty_pid :: u32
  tty_len :: u32
  tty_is_write :: u8
  tty_comm :: bytes
  tty_data :: bytes

definition enc_tty_event_raw :: "tty_event_raw \<Rightarrow> bytes" where
  "enc_tty_event_raw d =
     put_word 8 (tty_timestamp_ns d) @ put_word 4 (tty_pid d) @ put_word 4 (tty_len d) @
     put_word 1 (tty_is_write d) @ tty_comm d @ tty_data d @ []"

definition dec_tty_event_raw :: "bytes \<Rightarrow> tty_event_raw" where
  "dec_tty_event_raw bs =
     \<lparr>tty_timestamp_ns = read_word 0 8 bs,
      tty_pid = read_word 8 4 bs,
      tty_len = read_word 12 4 bs,
      tty_is_write = read_word 16 1 bs,
      tty_comm = slice 17 16 bs,
      tty_data = slice 33 1024 bs\<rparr>"

definition wf_tty_event_raw :: "tty_event_raw \<Rightarrow> bool" where
  "wf_tty_event_raw d \<longleftrightarrow>
     length (tty_comm d) = 16 \<and> length (tty_data d) = 1024"

interpretation tty_event_raw_codec: packed_struct enc_tty_event_raw "Some \<circ> dec_tty_event_raw" 1057 wf_tty_event_raw
  by unfold_locales
    (simp_all add: enc_tty_event_raw_def dec_tty_event_raw_def wf_tty_event_raw_def layout_simps)

subsection \<open>Structures no handler reads\<close>

definition layout_process_stop :: "nat list" where
  "layout_process_stop = [4]"

definition layout_file_create :: "nat list" where
  "layout_file_create = [4, 512]"

definition layout_file_rename :: "nat list" where
  "layout_file_rename = [512, 512]"

definition layout_image_load :: "nat list" where
  "layout_image_load = [1, 512, 256]"

definition layout_call_stack_frame :: "nat list" where
  "layout_call_stack_frame = [4, 8, 1, 512, 128]"

definition layout_memory_protect :: "nat list" where
  "layout_memory_protect = [4, 8, 8, 64, 64]"

definition layout_ptrace_attach :: "nat list" where
  "layout_ptrace_attach = [4, 32]"

definition layout_ssh_auth :: "nat list" where
  "layout_ssh_auth = [64, 46, 2, 32, 16]"

definition layout_terminal_command :: "nat list" where
  "layout_terminal_command = [32, 512]"

subsection \<open>The event frame\<close>

record telemetry_header =
  sequence_number :: u64
  timestamp_ns :: u64
  hdr_pid :: u32
  hdr_event_type :: event_type
  hdr_source :: telemetry_source

record telemetry_event_raw =
  header :: telemetry_header
  details_buffer :: bytes

definition enc_header :: "telemetry_header \<Rightarrow> bytes" where
  "enc_header h =
     put_word 8 (sequence_number h) @ put_word 8 (timestamp_ns h) @ put_word 4 (hdr_pid h) @
     [event_code (hdr_event_type h)] @ [source_code (hdr_source h)] @ []"

text \<open>\<open>None\<close>: a byte that is no discriminant of its enum, undefined behaviour in the code.\<close>

definition dec_header :: "bytes \<Rightarrow> telemetry_header option" where
  "dec_header bs =
     (case (event_of_code (byte_at bs 20), source_of_code (byte_at bs 21)) of
        (Some t, Some s) \<Rightarrow>
          Some \<lparr>sequence_number = read_word 0 8 bs, timestamp_ns = read_word 8 8 bs,
                hdr_pid = read_word 16 4 bs, hdr_event_type = t, hdr_source = s\<rparr>
      | _ \<Rightarrow> None)"

definition enc_event :: "telemetry_event_raw \<Rightarrow> bytes" where
  "enc_event ev = enc_header (header ev) @ details_buffer ev"

definition dec_event :: "bytes \<Rightarrow> telemetry_event_raw option" where
  "dec_event bs =
     map_option (\<lambda>h. \<lparr>header = h, details_buffer = slice 22 1544 bs\<rparr>) (dec_header bs)"

definition RAW_EVENT_SIZE :: nat where
  "RAW_EVENT_SIZE = 8 + 8 + 4 + 1 + 1 + 1544"

definition RAW_TTY_EVENT_SIZE :: nat where
  "RAW_TTY_EVENT_SIZE = 8 + 4 + 4 + 1 + 16 + 1024"

definition wf_event :: "telemetry_event_raw \<Rightarrow> bool" where
  "wf_event ev \<longleftrightarrow> length (details_buffer ev) = 1544"

lemma length_enc_header [simp]: "length (enc_header h) = 22"
  by (simp add: enc_header_def)

lemma dec_enc_header: "dec_header (enc_header h @ junk) = Some h"
proof -
  have "byte_at (enc_header h @ junk) 20 = event_code (hdr_event_type h)"
    and "byte_at (enc_header h @ junk) 21 = source_code (hdr_source h)"
    by (simp_all add: byte_at_def enc_header_def nth_append)
  then show ?thesis
    by (simp add: dec_header_def enc_header_def layout_simps)
qed

interpretation event_codec: packed_struct enc_event dec_event RAW_EVENT_SIZE wf_event
  by unfold_locales
    (simp_all add: RAW_EVENT_SIZE_def wf_event_def enc_event_def dec_event_def dec_enc_header
      layout_simps)

text \<open>Bytes that no producer of the enums writes are exactly the undecodable ones.\<close>

lemma dec_header_None:
  "dec_header bs = None \<longleftrightarrow>
     event_of_code (byte_at bs 20) = None \<or> source_of_code (byte_at bs 21) = None"
  by (auto simp: dec_header_def split: option.splits)

end
