(* ===== verification/Session.thy ===== *)
theory Session
  imports World Wire
begin

section \<open>Process environments, the desktop session, the prompt\<close>

text \<open>
  The free functions at the end of \<^verbatim>\<open>heuristics.rs\<close> (Unix): reading
  \<^verbatim>\<open>/proc/<pid>/environ\<close>, finding the desktop session by its window manager, and the dialog
  that asks the user whether a suspended process may go on.
\<close>

subsection \<open>Environment variables\<close>

definition env_slices :: "bytes \<Rightarrow> string list" where
  "env_slices bs = map (map byte_char) (filter utf8_valid (split_at (\<lambda>b. b = 0) bs))"

text \<open>\<^verbatim>\<open>NAME=VALUE\<close> split at the first equals sign; \<^term>\<open>None\<close> without one.\<close>

definition split_var :: "string \<Rightarrow> (string \<times> string) option" where
  "split_var s =
     (let name = takeWhile (\<lambda>c. c \<noteq> CHR ''='') s in
      if length name < length s then Some (name, drop (Suc (length name)) s) else None)"

definition get_process_env :: "env \<Rightarrow> u32 \<Rightarrow> string \<Rightarrow> string option" where
  "get_process_env w pid var =
     (case proc_environ w pid of
        None \<Rightarrow> None
      | Some bs \<Rightarrow>
          map_option snd
            (find (\<lambda>(n, v). n = var) (List.map_filter split_var (env_slices bs))))"

definition get_process_env_all :: "env \<Rightarrow> u32 \<Rightarrow> (string, string) dmap" where
  "get_process_env_all w pid =
     (case proc_environ w pid of
        None \<Rightarrow> []
      | Some bs \<Rightarrow>
          fold (\<lambda>(n, v) m. dm_put n v m) (List.map_filter split_var (env_slices bs)) [])"

subsection \<open>The active session\<close>

definition get_username_from_uid :: "env \<Rightarrow> u32 \<Rightarrow> string option" where
  "get_username_from_uid w uid =
     (case passwd_file w of
        None \<Rightarrow> None
      | Some passwd \<Rightarrow>
          (let user = (\<lambda>line. let parts = split_at (\<lambda>c. c = CHR '':'') line in
                 if 3 \<le> length parts \<and> parse_u32 (parts ! 2) = Some uid
                 then Some (parts ! 0) else None)
           in case List.map_filter user (text_lines passwd) of [] \<Rightarrow> None | u # _ \<Rightarrow> Some u))"

record session_context =
  sc_uid :: u32
  sc_username :: string
  sc_display :: "string option"
  sc_wayland_display :: "string option"
  sc_dbus_addr :: "string option"

definition session_of :: "env \<Rightarrow> u32 \<Rightarrow> u32 \<Rightarrow> session_context" where
  "session_of w wm_pid uid =
     \<lparr>sc_uid = uid,
      sc_username = (case get_username_from_uid w uid of
        None \<Rightarrow> show_nat (unat uid) | Some u \<Rightarrow> u),
      sc_display = get_process_env w wm_pid ''DISPLAY'',
      sc_wayland_display = get_process_env w wm_pid ''WAYLAND_DISPLAY'',
      sc_dbus_addr = (case get_process_env w wm_pid ''DBUS_SESSION_BUS_ADDRESS'' of
        None \<Rightarrow> Some (''unix:path=/run/user/'' @ show_nat (unat uid) @ ''/bus'')
      | Some a \<Rightarrow> Some a)\<rparr>"

text \<open>The loop over \<^verbatim>\<open>/proc\<close>: a name that is not UTF-8, a PID that does not fit or an
  owner that cannot be read ends the search with \<^term>\<open>None\<close> (the source's \<^verbatim>\<open>?\<close>).\<close>

fun scan_sessions :: "env \<Rightarrow> string list \<Rightarrow> proc_entry list \<Rightarrow> session_context option" where
  "scan_sessions w wms [] = None"
| "scan_sessions w wms (e # es) =
     (case pe_name e of
        None \<Rightarrow> None
      | Some name \<Rightarrow>
          if \<not> list_all is_ascii_digit name then scan_sessions w wms es
          else if trim (pe_comm e) \<notin> set wms then scan_sessions w wms es
          else (case parse_u32 name of
                  None \<Rightarrow> None
                | Some wm_pid \<Rightarrow> map_option (session_of w wm_pid) (pe_uid e)))"

definition get_active_session_context :: "env \<Rightarrow> config \<Rightarrow> session_context option" where
  "get_active_session_context w cfg =
     (case proc_list w of
        None \<Rightarrow> None | Some es \<Rightarrow> scan_sessions w (window_managers cfg) es)"

subsection \<open>Asking the user\<close>

definition prompt_tools :: "string list" where
  "prompt_tools = [''zenity'', ''kdialog'', ''yad'', ''xmessage'']"

definition newline :: string where
  "newline = [CHR 0x0A]"

definition dialog_text :: "u32 \<Rightarrow> string \<Rightarrow> string \<Rightarrow> string" where
  "dialog_text pid path reason =
     ''Process '' @ [CHR 0x27] @ path @ [CHR 0x27] @ '' (PID: '' @ show_nat (unat pid) @
     '') was suspended.'' @ newline @ newline @ ''Reason: '' @ reason @ newline @ newline @
     ''Allow or Terminate?''"

definition dialog_title :: string where
  "dialog_title = ''Kinnector EDR Alert''"

definition dialog_args :: "string \<Rightarrow> string \<Rightarrow> string list" where
  "dialog_args tool txt =
     (if tool = ''zenity'' then
        [''--question'', ''--title'', dialog_title, ''--text'', txt,
         ''--ok-label'', ''Allow'', ''--cancel-label'', ''Terminate'']
      else if tool = ''kdialog'' then
        [''--title'', dialog_title, ''--yesno'', txt, ''--yes-label'', ''Allow'',
         ''--no-label'', ''Terminate'']
      else if tool = ''yad'' then
        [''--question'', ''--title'', dialog_title, ''--text'', txt,
         ''--button'', ''Allow:0'', ''--button'', ''Terminate:1'']
      else [''-center'', ''-buttons'', ''Allow:0,Terminate:1'', txt])"

definition dialog_for :: "session_context \<Rightarrow> u32 \<Rightarrow> string \<Rightarrow> string \<Rightarrow> string \<Rightarrow> dialog_call" where
  "dialog_for ctx pid path reason tool =
     \<lparr>dc_user = sc_username ctx,
      dc_display = (case sc_display ctx of None \<Rightarrow> '':0'' | Some d \<Rightarrow> d),
      dc_dbus = (case sc_dbus_addr ctx of None \<Rightarrow> '''' | Some a \<Rightarrow> a),
      dc_tool = tool, dc_args = dialog_args tool (dialog_text pid path reason)\<rparr>"

text \<open>The first installed tool is run; a tool that cannot be started ends the loop.\<close>

definition trigger_desktop_prompt :: "env \<Rightarrow> u32 \<Rightarrow> string \<Rightarrow> string \<Rightarrow> bool" where
  "trigger_desktop_prompt w pid path reason =
     (case get_active_session_context w (default_config w) of
        None \<Rightarrow> False
      | Some ctx \<Rightarrow>
          (case find (tool_installed w) prompt_tools of
             None \<Rightarrow> False
           | Some tool \<Rightarrow>
               (case dialog_answer w (dialog_for ctx pid path reason tool) of
                  None \<Rightarrow> False | Some ok \<Rightarrow> ok)))"

subsection \<open>Lemmas\<close>

lemma split_var_Some:
  "split_var s = Some (n, v) \<Longrightarrow> s = n @ CHR ''='' # v \<and> CHR ''='' \<notin> set n"
proof -
  assume "split_var s = Some (n, v)"
  then have n: "n = takeWhile (\<lambda>c. c \<noteq> CHR ''='') s" and l: "length n < length s"
    and v: "v = drop (Suc (length n)) s"
    by (auto simp: split_var_def Let_def split: if_splits)
  have "s ! length n = CHR ''=''"
    using l unfolding n using nth_length_takeWhile by blast
  moreover have "s = take (length n) s @ s ! length n # drop (Suc (length n)) s"
    using l by (rule id_take_nth_drop)
  moreover have "take (length n) s = n"
    unfolding n by (rule takeWhile_eq_take [symmetric])
  ultimately show ?thesis
    using n v by (metis (mono_tags, lifting) set_takeWhileD)
qed

lemma split_var_join: "CHR ''='' \<notin> set n \<Longrightarrow> split_var (n @ CHR ''='' # v) = Some (n, v)"
  by (auto simp: split_var_def Let_def takeWhile_append)

lemma prompt_without_tool:
  "find (tool_installed w) prompt_tools = None \<Longrightarrow> \<not> trigger_desktop_prompt w pid path reason"
  by (simp add: trigger_desktop_prompt_def split: option.splits)

lemma session_needs_window_manager:
  "scan_sessions w wms es = Some c \<Longrightarrow> \<exists>e \<in> set es. trim (pe_comm e) \<in> set wms"
  by (induction es) (auto split: option.splits if_splits)

text \<open>Which thread asks does not matter.\<close>

lemma session_of_runtime: "session_of (w\<lparr>on_runtime := b\<rparr>) pid uid = session_of w pid uid"
  by (simp add: session_of_def get_username_from_uid_def get_process_env_def)

lemma session_context_runtime [simp]:
  "get_active_session_context (w\<lparr>on_runtime := b\<rparr>) cfg = get_active_session_context w cfg"
proof -
  have "session_of (w\<lparr>on_runtime := b\<rparr>) = session_of w"
    by (intro ext session_of_runtime)
  then have "scan_sessions (w\<lparr>on_runtime := b\<rparr>) wms es = scan_sessions w wms es" for wms es
    by (induction es) (auto split: option.split)
  then show ?thesis by (simp add: get_active_session_context_def split: option.split)
qed

end
