(* ===== verification/Sigma.thy ===== *)
theory Sigma
  imports DashMap
begin

section \<open>Sigma rules\<close>

text \<open>
  \<^verbatim>\<open>sigma_engine.rs\<close>: condition trees over the named fields of an event, the first matching
  rule of the event's category, and the loading of the rule directory. The JSON reader is a
  parameter. Besides the evaluation itself: equivalence with a disjunctive normal form, and
  monotonicity in the event's fields.
\<close>

record sigma_event =
  ev_category :: string
  ev_fields :: "(string, string) dmap"

datatype condition_node =
    And "condition_node list"
  | Or "condition_node list"
  | FieldMatch string string

record sigma_rule =
  rule_id :: string
  rule_title :: string
  rule_category :: string
  rule_condition :: condition_node

definition field_match :: "sigma_event \<Rightarrow> string \<Rightarrow> string \<Rightarrow> bool" where
  "field_match ev f v =
     (case dm_get (ev_fields ev) f of None \<Rightarrow> False | Some val \<Rightarrow> eq_ignore_ascii_case val v)"

fun evaluate_node :: "condition_node \<Rightarrow> sigma_event \<Rightarrow> bool" where
  "evaluate_node (And sub) ev = list_all (\<lambda>n. evaluate_node n ev) sub"
| "evaluate_node (Or sub) ev = list_ex (\<lambda>n. evaluate_node n ev) sub"
| "evaluate_node (FieldMatch f v) ev = field_match ev f v"

definition rule_matches :: "sigma_event \<Rightarrow> sigma_rule \<Rightarrow> bool" where
  "rule_matches ev r \<longleftrightarrow> rule_category r = ev_category ev \<and> evaluate_node (rule_condition r) ev"

primrec evaluate :: "sigma_rule list \<Rightarrow> sigma_event \<Rightarrow> sigma_rule option" where
  "evaluate [] ev = None"
| "evaluate (r # rs) ev =
     (if rule_category r = ev_category ev then
        if evaluate_node (rule_condition r) ev then Some r else evaluate rs ev
      else evaluate rs ev)"

subsection \<open>Loading the rule directory\<close>

text \<open>\<^verbatim>\<open>Path::extension\<close> of a file name: what follows the last dot, unless that dot is
  the first character or there is none.\<close>

definition file_extension :: "string \<Rightarrow> string option" where
  "file_extension name =
     (let ext = rev (takeWhile (\<lambda>c. c \<noteq> CHR ''.'') (rev name));
          stem = length name - length ext
      in if name = ''..'' \<or> stem \<le> 1 then None else Some ext)"

text \<open>A directory is \<^term>\<open>None\<close> when it does not exist or cannot be listed; an entry is a
  file name with its text, if readable.\<close>

type_synonym rule_dir = "(string \<times> string option) list option"

definition load_entries :: "string \<Rightarrow> rule_dir \<Rightarrow> string list" where
  "load_entries ext dir =
     (case dir of
        None \<Rightarrow> []
      | Some es \<Rightarrow>
          List.map_filter (\<lambda>(name, text). if file_extension name = Some ext then text else None) es)"

definition load_sigma_rules :: "(string \<Rightarrow> sigma_rule option) \<Rightarrow> rule_dir \<Rightarrow> sigma_rule list" where
  "load_sigma_rules parse dir = List.map_filter parse (load_entries ''json'' dir)"

subsection \<open>The first matching rule\<close>

lemma evaluate_find: "evaluate rs ev = find (rule_matches ev) rs"
  by (induction rs) (auto simp: rule_matches_def)

lemma evaluate_append:
  "evaluate (rs @ rs') ev =
     (case evaluate rs ev of None \<Rightarrow> evaluate rs' ev | Some r \<Rightarrow> Some r)"
  by (induction rs) auto

lemma evaluate_NoneD: "evaluate rs ev = None \<longleftrightarrow> (\<forall>r \<in> set rs. \<not> rule_matches ev r)"
  by (auto simp: evaluate_find find_None_iff)

lemma evaluate_SomeD: "evaluate rs ev = Some r \<Longrightarrow> r \<in> set rs \<and> rule_matches ev r"
  by (auto simp: evaluate_find dest: find_Some_mem)

subsection \<open>Disjunctive normal form\<close>

type_synonym clause = "(string \<times> string) list"

fun clause_product :: "clause list \<Rightarrow> clause list \<Rightarrow> clause list" where
  "clause_product cs ds = concat (map (\<lambda>c. map (\<lambda>d. c @ d) ds) cs)"

fun dnf :: "condition_node \<Rightarrow> clause list" where
  "dnf (And sub) = foldr (\<lambda>n acc. clause_product (dnf n) acc) sub [[]]"
| "dnf (Or sub) = concat (map dnf sub)"
| "dnf (FieldMatch f v) = [[(f, v)]]"

definition clause_holds :: "sigma_event \<Rightarrow> clause \<Rightarrow> bool" where
  "clause_holds ev c \<longleftrightarrow> (\<forall>(f, v) \<in> set c. field_match ev f v)"

definition dnf_holds :: "sigma_event \<Rightarrow> clause list \<Rightarrow> bool" where
  "dnf_holds ev cs \<longleftrightarrow> (\<exists>c \<in> set cs. clause_holds ev c)"

lemma clause_holds_append [simp]:
  "clause_holds ev (c @ d) \<longleftrightarrow> clause_holds ev c \<and> clause_holds ev d"
  by (auto simp: clause_holds_def)

lemma dnf_holds_product [simp]:
  "dnf_holds ev (clause_product cs ds) \<longleftrightarrow> dnf_holds ev cs \<and> dnf_holds ev ds"
  by (auto simp: dnf_holds_def)

lemma dnf_holds_concat [simp]: "dnf_holds ev (concat css) \<longleftrightarrow> (\<exists>cs \<in> set css. dnf_holds ev cs)"
  by (auto simp: dnf_holds_def)

declare clause_product.simps [simp del]

text \<open>C36. Evaluating a condition tree agrees with its disjunctive normal form: some clause of it
  has all its fields present in the event with the wanted values, letter case aside.\<close>

theorem evaluate_node_dnf: "evaluate_node n ev \<longleftrightarrow> dnf_holds ev (dnf n)"
proof (induction n ev rule: evaluate_node.induct)
  case (1 sub ev)
  then show ?case
    by (induction sub) (auto simp: dnf_holds_def [of ev "[[]]"] clause_holds_def [of ev "[]"])
next
  case (2 sub ev)
  then show ?case by (auto simp: list_ex_iff)
next
  case (3 f v ev)
  then show ?case by (simp add: dnf_holds_def clause_holds_def)
qed

subsection \<open>Monotonicity and letter case\<close>

definition fields_extend :: "sigma_event \<Rightarrow> sigma_event \<Rightarrow> bool" where
  "fields_extend ev ev' \<longleftrightarrow>
     ev_category ev' = ev_category ev \<and>
     (\<forall>f v. dm_get (ev_fields ev) f = Some v \<longrightarrow>
        (\<exists>v'. dm_get (ev_fields ev') f = Some v' \<and> eq_ignore_ascii_case v v'))"

lemma field_match_extend: "fields_extend ev ev' \<Longrightarrow> field_match ev f v \<Longrightarrow> field_match ev' f v"
  by (fastforce simp: fields_extend_def field_match_def eq_ignore_ascii_case_def
      split: option.splits)

lemma evaluate_node_extend: "fields_extend ev ev' \<Longrightarrow> evaluate_node n ev \<Longrightarrow> evaluate_node n ev'"
  by (induction n ev rule: evaluate_node.induct)
    (auto simp: list_all_iff list_ex_iff intro: field_match_extend)

lemma rule_matches_extend: "fields_extend ev ev' \<Longrightarrow> rule_matches ev r \<Longrightarrow> rule_matches ev' r"
  by (auto simp: rule_matches_def fields_extend_def
      intro: evaluate_node_extend [unfolded fields_extend_def])

text \<open>Alerts are monotone: when an event is extended by further fields, or the letter case of its
  values changes, a rule set that matched still matches (the rule language has no negation).\<close>

theorem evaluate_monotone:
  assumes "fields_extend ev ev'" "evaluate rs ev \<noteq> None"
  shows "evaluate rs ev' \<noteq> None"
  using assms rule_matches_extend by (meson evaluate_NoneD)

text \<open>The engine reports the first rule in load order that matches, and reports nothing
  exactly when no loaded rule of the event's category has a true condition.\<close>

theorem evaluate_first_match:
  "evaluate rs ev = Some r \<longleftrightarrow>
     (\<exists>i < length rs. rs ! i = r \<and> rule_matches ev r \<and> (\<forall>j < i. \<not> rule_matches ev (rs ! j)))"
  by (auto simp: evaluate_find find_Some_iff)

theorem evaluate_first_match_witness:
  "evaluate [\<lparr>rule_id = ''1'', rule_title = ''a'', rule_category = ''x'', rule_condition = And []\<rparr>,
             \<lparr>rule_id = ''2'', rule_title = ''b'', rule_category = ''y'', rule_condition = And []\<rparr>]
     \<lparr>ev_category = ''y'', ev_fields = []\<rparr> =
   Some \<lparr>rule_id = ''2'', rule_title = ''b'', rule_category = ''y'', rule_condition = And []\<rparr>"
  unfolding evaluate_first_match
  by (rule exI [of _ 1]) (simp add: rule_matches_def)

end
