(* ===== verification/Trust.thy ===== *)
theory Trust
  imports World Sigma
begin

section \<open>The inode trust cache\<close>

text \<open>
  \<^verbatim>\<open>trust_cache.rs\<close> (Unix): which executables are reported to the kernel map as trusted,
  the user's persistent allowlist and denylist, and the in-memory hash sets. A database file
  is absent, not parseable, or a list of entries (the JSON round trip of \<^verbatim>\<open>serde\<close> is the
  identity). The start-up scan threads the set of inodes registered so far and the log of calls
  into the telemetry engine.
\<close>

record trust_entry =
  te_path :: string
  te_sha256 :: string

datatype trust_file = Absent | Corrupt | Entries "trust_entry list"

text \<open>\<open>allow_set\<close> and \<open>deny_set\<close> are the statics \<^verbatim>\<open>ALLOWLIST\<close> and \<^verbatim>\<open>DENYLIST\<close>.\<close>

record trust_state =
  allow_file :: trust_file
  deny_file :: trust_file
  allow_set :: "string list option"
  deny_set :: "string list option"

definition trust_at_start :: "trust_file \<Rightarrow> trust_file \<Rightarrow> trust_state" where
  "trust_at_start af df =
     \<lparr>allow_file = af, deny_file = df, allow_set = None, deny_set = None\<rparr>"

definition get_file_sha256 :: "env \<Rightarrow> string \<Rightarrow> string option" where
  "get_file_sha256 w path =
     (case sha256sum_out w path of
        None \<Rightarrow> None
      | Some out \<Rightarrow> (case split_whitespace out of [] \<Rightarrow> None | h # _ \<Rightarrow> Some h))"

fun file_entries :: "trust_file \<Rightarrow> trust_entry list" where
  "file_entries (Entries es) = es"
| "file_entries _ = []"

subsection \<open>Registering executables at start-up\<close>

type_synonym scan = "u64 list \<times> ffi_call list"

text \<open>\<^verbatim>\<open>if trusted_inodes.insert(inode) { ffi::add_trusted_exec_inode(inode, 2) }\<close>\<close>

definition register_inode :: "u64 \<Rightarrow> scan \<Rightarrow> scan" where
  "register_inode ino sc =
     (case sc of (seen, calls) \<Rightarrow>
        if ino \<in> set seen then (seen, calls)
        else (seen @ [ino], calls @ [AddTrustedExecInode ino 2]))"

definition is_executable :: "u32 \<Rightarrow> bool" where
  "is_executable mode \<longleftrightarrow> mode AND 0x49 \<noteq> 0"

fun scan_node :: "fs_node \<Rightarrow> scan \<Rightarrow> scan" where
  "scan_node (FileNode path mode ino uid) sc = (if is_executable mode then register_inode ino sc else sc)"
| "scan_node (DirNode es) sc = fold scan_node es sc"
| "scan_node OtherNode sc = sc"

definition scan_directory_recursively :: "fs_node list \<Rightarrow> scan \<Rightarrow> scan" where
  "scan_directory_recursively es sc = fold scan_node es sc"

definition trusted_mount :: "string \<Rightarrow> string option" where
  "trusted_mount line =
     (let parts = split_whitespace line in
      if 4 \<le> length parts then
        let mount_point = parts ! 1; fstype = parts ! 2; options = parts ! 3 in
        if (fstype = ''squashfs'' \<or> fstype = ''tmpfs'' \<or> fstype = ''ext4'') \<and>
           (starts_with mount_point ''/snap/'' \<or> starts_with mount_point ''/var/lib/flatpak/'') \<and>
           contains options ''ro''
        then Some mount_point else None
      else None)"

definition scan_squashfs_mounts :: "env \<Rightarrow> scan \<Rightarrow> scan" where
  "scan_squashfs_mounts w sc =
     (case mounts_file w of
        None \<Rightarrow> sc
      | Some mounts \<Rightarrow>
          fold (\<lambda>mp. scan_directory_recursively (read_tree w mp))
            (List.map_filter trusted_mount (text_lines mounts)) sc)"

definition verify_package_integrity :: "env \<Rightarrow> string \<Rightarrow> u32 \<Rightarrow> bool" where
  "verify_package_integrity w path uid \<longleftrightarrow>
     (package_db w ''/var/lib/dpkg/status'' \<and> package_query w ''dpkg-query'' path) \<or>
     (package_db w ''/var/lib/pacman/local'' \<and> package_query w ''pacman'' path) \<or>
     (package_db w ''/var/lib/rpm'' \<and> package_query w ''rpm'' path) \<or>
     uid = 0"

fun scan_bin_entry :: "env \<Rightarrow> fs_node \<Rightarrow> scan \<Rightarrow> scan" where
  "scan_bin_entry w (FileNode path mode ino uid) sc =
     (if is_executable mode \<and> verify_package_integrity w path uid then register_inode ino sc else sc)"
| "scan_bin_entry w _ sc = sc"

definition scan_bin_paths :: "env \<Rightarrow> config \<Rightarrow> scan \<Rightarrow> scan" where
  "scan_bin_paths w cfg sc =
     fold (\<lambda>dir. fold (scan_bin_entry w) (read_tree w dir)) (system_package_paths cfg) sc"

definition load_allow_entry :: "env \<Rightarrow> trust_entry \<Rightarrow> scan \<Rightarrow> scan" where
  "load_allow_entry w e sc =
     (case file_inode w (te_path e) of
        None \<Rightarrow> sc
      | Some ino \<Rightarrow>
          if get_file_sha256 w (te_path e) = Some (te_sha256 e) then register_inode ino sc else sc)"

definition load_user_allowlist :: "env \<Rightarrow> trust_state \<Rightarrow> scan \<Rightarrow> scan" where
  "load_user_allowlist w t sc = fold (load_allow_entry w) (file_entries (allow_file t)) sc"

definition load_user_denylist :: "scan \<Rightarrow> scan" where
  "load_user_denylist sc = sc"

definition initialize_trust_cache :: "env \<Rightarrow> config \<Rightarrow> trust_state \<Rightarrow> ffi_call list" where
  "initialize_trust_cache w cfg t =
     (let sc = scan_squashfs_mounts w ([], []);
          sc = scan_bin_paths w cfg sc;
          sc = load_user_allowlist w t sc;
          sc = load_user_denylist sc
      in snd sc @ [SetConfigValue 0 1])"

subsection \<open>The user's lists\<close>

definition has_path :: "string \<Rightarrow> trust_file \<Rightarrow> bool" where
  "has_path path f \<longleftrightarrow> list_ex (\<lambda>e. te_path e = path) (file_entries f)"

definition add_to_user_allowlist :: "env \<Rightarrow> string \<Rightarrow> trust_state \<Rightarrow> trust_state" where
  "add_to_user_allowlist w path t =
     (case get_file_sha256 w path of
        None \<Rightarrow> t
      | Some hash \<Rightarrow>
          if \<not> has_path path (allow_file t) \<and> db_writable w
          then t\<lparr>allow_file := Entries (file_entries (allow_file t) @
                  [\<lparr>te_path = path, te_sha256 = hash\<rparr>])\<rparr>
          else t)"

definition add_to_user_denylist :: "env \<Rightarrow> string \<Rightarrow> trust_state \<Rightarrow> trust_state" where
  "add_to_user_denylist w path t =
     (case get_file_sha256 w path of
        None \<Rightarrow> t
      | Some hash \<Rightarrow>
          let t1 = (if \<not> has_path path (deny_file t) \<and> db_writable w
                    then t\<lparr>deny_file := Entries (file_entries (deny_file t) @
                            [\<lparr>te_path = path, te_sha256 = hash\<rparr>])\<rparr>
                    else t)
          in t1\<lparr>deny_set := map_option (hs_insert hash) (deny_set t1)\<rparr>)"

definition is_hash_allowlisted :: "trust_state \<Rightarrow> string \<Rightarrow> bool" where
  "is_hash_allowlisted t hash \<longleftrightarrow>
     (case allow_set t of None \<Rightarrow> False | Some s \<Rightarrow> to_lowercase hash \<in> set s)"

definition is_hash_denylisted :: "trust_state \<Rightarrow> string \<Rightarrow> bool" where
  "is_hash_denylisted t hash \<longleftrightarrow>
     (case deny_set t of None \<Rightarrow> False | Some s \<Rightarrow> to_lowercase hash \<in> set s)"

subsection \<open>What a scan registers\<close>

text \<open>\<open>registers A sc sc'\<close>: the step from \<open>sc\<close> to \<open>sc'\<close> adds exactly the inodes of \<open>A\<close> not
  seen before, each with one call of trust level 2.\<close>

definition registers :: "u64 set \<Rightarrow> scan \<Rightarrow> scan \<Rightarrow> bool" where
  "registers A sc sc' \<longleftrightarrow>
     (distinct (fst sc) \<longrightarrow>
       (\<exists>new. fst sc' = fst sc @ new \<and> distinct (fst sc') \<and> set (fst sc') = set (fst sc) \<union> A \<and>
          snd sc' = snd sc @ map (\<lambda>i. AddTrustedExecInode i 2) new))"

lemma registers_refl [simp]: "registers {} sc sc"
  by (simp add: registers_def)

lemma registers_trans:
  assumes "registers A s t" "registers B t u"
  shows "registers (A \<union> B) s u"
  unfolding registers_def
proof
  assume d: "distinct (fst s)"
  obtain n1 where 1: "fst t = fst s @ n1" "distinct (fst t)" "set (fst t) = set (fst s) \<union> A"
    "snd t = snd s @ map (\<lambda>i. AddTrustedExecInode i 2) n1"
    using assms(1) d unfolding registers_def by blast
  obtain n2 where 2: "fst u = fst t @ n2" "distinct (fst u)" "set (fst u) = set (fst t) \<union> B"
    "snd u = snd t @ map (\<lambda>i. AddTrustedExecInode i 2) n2"
    using assms(2) 1(2) unfolding registers_def by blast
  show "\<exists>new. fst u = fst s @ new \<and> distinct (fst u) \<and> set (fst u) = set (fst s) \<union> (A \<union> B) \<and>
      snd u = snd s @ map (\<lambda>i. AddTrustedExecInode i 2) new"
    using 1 2 by (intro exI [of _ "n1 @ n2"]) auto
qed

lemma registers_inode: "registers {ino} sc (register_inode ino sc)"
  by (cases sc) (auto simp: registers_def register_inode_def)

locale inode_scan =
  fixes visit :: "'a \<Rightarrow> scan \<Rightarrow> scan"
    and inodes :: "'a \<Rightarrow> u64 set"
  assumes visit_registers: "registers (inodes x) sc (visit x sc)"
begin

lemma fold_registers: "registers (\<Union>x \<in> set xs. inodes x) sc (fold visit xs sc)"
proof (induction xs arbitrary: sc)
  case (Cons x xs)
  show ?case
    using registers_trans [OF visit_registers [of x sc] Cons.IH [of "visit x sc"]] by simp
qed simp

end

text \<open>The executables below a directory, those of a system directory a package manager (or root
  ownership) vouches for, and the allowlisted files whose hash is still the recorded one.\<close>

fun tree_inodes :: "fs_node \<Rightarrow> u64 set" where
  "tree_inodes (FileNode path mode ino uid) = (if is_executable mode then {ino} else {})"
| "tree_inodes (DirNode es) = (\<Union>e \<in> set es. tree_inodes e)"
| "tree_inodes OtherNode = {}"

fun bin_inodes :: "env \<Rightarrow> fs_node \<Rightarrow> u64 set" where
  "bin_inodes w (FileNode path mode ino uid) =
     (if is_executable mode \<and> verify_package_integrity w path uid then {ino} else {})"
| "bin_inodes w _ = {}"

definition allow_inodes :: "env \<Rightarrow> trust_entry \<Rightarrow> u64 set" where
  "allow_inodes w e =
     {ino. file_inode w (te_path e) = Some ino \<and> get_file_sha256 w (te_path e) = Some (te_sha256 e)}"

lemma scan_node_registers: "registers (tree_inodes n) sc (scan_node n sc)"
proof (induction n arbitrary: sc)
  case (DirNode es)
  have "registers (\<Union>e \<in> set xs. tree_inodes e) sc (fold scan_node xs sc)" if "set xs \<subseteq> set es" for xs sc
    using that
  proof (induction xs arbitrary: sc)
    case (Cons x xs)
    then have "registers (tree_inodes x) sc (scan_node x sc)"
      using DirNode.IH by simp
    from registers_trans [OF this Cons.IH [of "scan_node x sc"]] Cons.prems show ?case by simp
  qed simp
  then show ?case by simp
qed (auto simp: registers_inode)

interpretation tree_scan: inode_scan scan_node tree_inodes
  by unfold_locales (rule scan_node_registers)

interpretation bin_scan: inode_scan "scan_bin_entry w" "bin_inodes w" for w
proof
  fix x sc show "registers (bin_inodes w x) sc (scan_bin_entry w x sc)"
    by (cases x) (auto simp: registers_inode)
qed

interpretation allow_scan: inode_scan "load_allow_entry w" "allow_inodes w" for w
proof
  fix e sc show "registers (allow_inodes w e) sc (load_allow_entry w e sc)"
    by (cases "file_inode w (te_path e)")
      (auto simp: load_allow_entry_def allow_inodes_def registers_inode)
qed

interpretation mount_scan: inode_scan
  "\<lambda>mp. scan_directory_recursively (read_tree w mp)"
  "\<lambda>mp. \<Union>e \<in> set (read_tree w mp). tree_inodes e" for w
  by unfold_locales (simp add: scan_directory_recursively_def tree_scan.fold_registers)

interpretation dir_scan: inode_scan
  "\<lambda>dir. fold (scan_bin_entry w) (read_tree w dir)"
  "\<lambda>dir. \<Union>e \<in> set (read_tree w dir). bin_inodes w e" for w
  by unfold_locales (rule bin_scan.fold_registers)

definition trusted_mount_points :: "env \<Rightarrow> string list" where
  "trusted_mount_points w =
     (case mounts_file w of None \<Rightarrow> [] | Some m \<Rightarrow> List.map_filter trusted_mount (text_lines m))"

definition startup_inodes :: "env \<Rightarrow> config \<Rightarrow> trust_state \<Rightarrow> u64 set" where
  "startup_inodes w cfg t =
     (\<Union>mp \<in> set (trusted_mount_points w). \<Union>e \<in> set (read_tree w mp). tree_inodes e) \<union>
     (\<Union>dir \<in> set (system_package_paths cfg). \<Union>e \<in> set (read_tree w dir). bin_inodes w e) \<union>
     (\<Union>e \<in> set (file_entries (allow_file t)). allow_inodes w e)"

lemma scan_mounts_registers:
  "registers (\<Union>mp \<in> set (trusted_mount_points w). \<Union>e \<in> set (read_tree w mp). tree_inodes e)
     sc (scan_squashfs_mounts w sc)"
proof -
  have "scan_squashfs_mounts w sc =
      fold (\<lambda>mp. scan_directory_recursively (read_tree w mp)) (trusted_mount_points w) sc"
    by (simp add: scan_squashfs_mounts_def trusted_mount_points_def split: option.splits)
  then show ?thesis by (simp add: mount_scan.fold_registers)
qed

lemma startup_registers:
  "\<exists>inos. distinct inos \<and> set inos = startup_inodes w cfg t \<and>
     initialize_trust_cache w cfg t =
       map (\<lambda>i. AddTrustedExecInode i 2) inos @ [SetConfigValue 0 1]"
proof -
  let ?s1 = "scan_squashfs_mounts w ([], [])"
  let ?s2 = "scan_bin_paths w cfg ?s1"
  let ?s3 = "load_user_allowlist w t ?s2"
  have "registers (startup_inodes w cfg t) ([], []) ?s3"
    unfolding startup_inodes_def scan_bin_paths_def load_user_allowlist_def
    by (rule registers_trans [OF registers_trans
          [OF scan_mounts_registers dir_scan.fold_registers] allow_scan.fold_registers])
  then show ?thesis
    by (auto simp: registers_def initialize_trust_cache_def load_user_denylist_def Let_def)
qed


lemma initialize_calls:
  "AddTrustedExecInode ino lvl \<in> set (initialize_trust_cache w cfg t) \<longleftrightarrow>
     lvl = 2 \<and> ino \<in> startup_inodes w cfg t"
proof -
  obtain inos where "set inos = startup_inodes w cfg t"
    and "initialize_trust_cache w cfg t =
       map (\<lambda>i. AddTrustedExecInode i 2) inos @ [SetConfigValue 0 1]"
    using startup_registers by blast
  then show ?thesis by auto
qed

subsection \<open>The user's lists\<close>

lemma has_path_iff: "has_path p f \<longleftrightarrow> (\<exists>e \<in> set (file_entries f). te_path e = p)"
  by (simp add: has_path_def list_ex_iff)

lemma add_allow_entry:
  assumes "get_file_sha256 w p = Some h" "db_writable w" "\<not> has_path p (allow_file t)"
  shows "\<lparr>te_path = p, te_sha256 = h\<rparr> \<in>
    set (file_entries (allow_file (add_to_user_allowlist w p t)))"
  using assms by (simp add: add_to_user_allowlist_def)

definition sample_env :: env where
  "sample_env = quiet_env\<lparr>sha256sum_out := (\<lambda>p. Some (''abc  '' @ p)),
     file_inode := (\<lambda>p. Some 7)\<rparr>"

lemma sample_env_sha: "get_file_sha256 sample_env ''/bin/x'' = Some ''abc''"
  by code_simp

text \<open>The allowlist is keyed by path alone: adding a file whose path is already listed changes
  nothing, so a listed binary that was updated keeps its old hash and stays unregistered at the
  next start (unless another scan vouches for it).\<close>

theorem allowlist_keeps_stale_hash:
  assumes "has_path p (allow_file t)"
  shows "add_to_user_allowlist w p t = t"
  using assms by (simp add: add_to_user_allowlist_def split: option.splits)

text \<open>On Unix the denylist has no effect on trust: start-up registers the same inodes whatever
  the denylist file holds, and the in-memory set is never created, so no hash ever counts as
  denylisted, in particular not after it was added.\<close>

theorem denylist_without_effect:
  "initialize_trust_cache w cfg (t\<lparr>deny_file := f\<rparr>) = initialize_trust_cache w cfg t \<and>
   \<not> is_hash_denylisted (fold (add_to_user_denylist w) ps (trust_at_start af df)) h"
proof -
  have "deny_set (fold (add_to_user_denylist w) ps t') = None" if "deny_set t' = None" for t'
    using that
  proof (induction ps arbitrary: t')
    case (Cons p ps)
    then show ?case by (simp add: add_to_user_denylist_def Let_def split: option.splits)
  qed simp
  then show ?thesis
    by (simp add: is_hash_denylisted_def trust_at_start_def initialize_trust_cache_def
        load_user_allowlist_def)
qed

text \<open>The test for a read-only mount searches for the letters \<open>ro\<close> anywhere in the options, so
  a writable mount with \<open>errors=remount-ro\<close> is scanned as if it were read-only.\<close>

theorem writable_mount_accepted:
  "trusted_mount ''/dev/sda1 /snap/app ext4 rw,errors=remount-ro 0 0'' = Some ''/snap/app''"
  by code_simp

end
