(* ===== verification/Yara.thy ===== *)
theory Yara
  imports Trust
begin

section \<open>YARA scanning with a verdict cache\<close>

text \<open>
  \<^verbatim>\<open>yara_scanner.rs\<close>: the compiled rules are a parameter, a function from file contents to
  a verdict (\<^term>\<open>None\<close> when the scan fails or times out). A file is scanned when rules are
  loaded, it is not larger than 32 MiB and its hash can be computed; verdicts are cached by hash.
\<close>

record yara_scanner =
  yara_rules :: "(bytes \<Rightarrow> bool option) option"
  scan_cache :: "(string, bool) dmap"

text \<open>\<open>add_source\<close> and \<open>build\<close> of the rule compiler; \<open>build\<close> receives the accepted sources.\<close>

definition new_yara_scanner ::
  "(string \<Rightarrow> bool) \<Rightarrow> (string list \<Rightarrow> bytes \<Rightarrow> bool option) \<Rightarrow> rule_dir \<Rightarrow> yara_scanner" where
  "new_yara_scanner add_source build dir =
     (let loaded = filter add_source (load_entries ''yar'' dir) in
      \<lparr>yara_rules = (if loaded \<noteq> [] then Some (build loaded) else None), scan_cache = []\<rparr>)"

definition size_cap :: nat where
  "size_cap = 32 * 1024 * 1024"

definition scan_file :: "env \<Rightarrow> string \<Rightarrow> yara_scanner \<Rightarrow> bool \<times> yara_scanner" where
  "scan_file w path y =
     (case yara_rules y of
        None \<Rightarrow> (False, y)
      | Some rules \<Rightarrow>
          if (case file_len w path of None \<Rightarrow> False | Some n \<Rightarrow> size_cap < n) then (False, y)
          else (case get_file_sha256 w path of
             None \<Rightarrow> (False, y)
           | Some hash \<Rightarrow>
               (case dm_get (scan_cache y) hash of
                  Some cached \<Rightarrow> (cached, y)
                | None \<Rightarrow>
                    (case file_bytes w path of
                       None \<Rightarrow> (False, y)
                     | Some content \<Rightarrow>
                         (case rules content of
                            None \<Rightarrow> (False, y)
                          | Some bad \<Rightarrow> (bad, y\<lparr>scan_cache := dm_put hash bad (scan_cache y)\<rparr>))))))"

subsection \<open>The cache agrees with the rules\<close>

text \<open>\<open>hash_of\<close> is the digest the external tool computes; \<open>hashes w hash_of\<close> says the
  environment's answers are consistent with it.\<close>

definition hashes :: "env \<Rightarrow> (bytes \<Rightarrow> string) \<Rightarrow> bool" where
  "hashes w hash_of \<longleftrightarrow>
     (\<forall>p c. file_bytes w p = Some c \<longrightarrow> get_file_sha256 w p = Some (hash_of c))"

definition cache_sound :: "(bytes \<Rightarrow> string) \<Rightarrow> yara_scanner \<Rightarrow> bool" where
  "cache_sound hash_of y \<longleftrightarrow>
     (\<forall>h v. dm_get (scan_cache y) h = Some v \<longrightarrow>
        (\<exists>rules c. yara_rules y = Some rules \<and> hash_of c = h \<and> rules c = Some v))"

lemma cache_sound_new: "cache_sound hash_of (new_yara_scanner add_source build dir)"
  by (simp add: cache_sound_def new_yara_scanner_def Let_def)

lemma yara_rules_scan [simp]: "yara_rules (snd (scan_file w p y)) = yara_rules y"
  by (simp add: scan_file_def split: option.splits)

lemma cache_sound_scan:
  assumes "hashes w hash_of" "cache_sound hash_of y"
  shows "cache_sound hash_of (snd (scan_file w p y))"
proof -
  have "cache_sound hash_of (y\<lparr>scan_cache := dm_put h v (scan_cache y)\<rparr>)"
    if "yara_rules y = Some rules" "get_file_sha256 w p = Some h" "file_bytes w p = Some c"
      "rules c = Some v" for rules h c v
  proof -
    have "hash_of c = h" using assms(1) that by (simp add: hashes_def)
    then show ?thesis
      using assms(2) that by (auto simp: cache_sound_def dm.get_put)
  qed
  then show ?thesis
    using assms(2) by (simp add: scan_file_def split: option.splits)
qed

fun scans :: "(env \<times> string) list \<Rightarrow> yara_scanner \<Rightarrow> yara_scanner" where
  "scans [] y = y"
| "scans ((w, p) # qs) y = scans qs (snd (scan_file w p y))"

lemma scans_sound:
  "\<forall>(w, p) \<in> set qs. hashes w hash_of \<Longrightarrow> cache_sound hash_of y \<Longrightarrow>
     cache_sound hash_of (scans qs y) \<and> yara_rules (scans qs y) = yara_rules y"
  by (induction qs y rule: scans.induct) (auto simp: cache_sound_scan)

text \<open>C35. The verdict cache never changes an answer: as long as the rules do not tell apart two
  contents of the same hash, a scan with any cache built by earlier scans (of any files, in any
  environments) reports a readable file of at most 32 MiB as malicious exactly when the rules match
  its contents.\<close>

theorem scan_file_cached_exact:
  assumes "\<forall>(w', q) \<in> set qs. hashes w' hash_of" "hashes w hash_of"
    and "\<forall>rules c d. yara_rules (new_yara_scanner add_source build dir) = Some rules \<longrightarrow>
           hash_of c = hash_of d \<longrightarrow> rules c = rules d"
    and "file_bytes w p = Some c" "file_len w p = Some n" "n \<le> size_cap"
  shows "fst (scan_file w p (scans qs (new_yara_scanner add_source build dir))) \<longleftrightarrow>
    (\<exists>rules. yara_rules (new_yara_scanner add_source build dir) = Some rules \<and>
       rules c = Some True)"
proof -
  let ?y = "scans qs (new_yara_scanner add_source build dir)"
  have sound: "cache_sound hash_of ?y"
    and same: "yara_rules ?y = yara_rules (new_yara_scanner add_source build dir)"
    using scans_sound [OF assms(1) cache_sound_new] by auto
  have "\<exists>rules. yara_rules ?y = Some rules \<and> rules c = Some v"
    if "dm_get (scan_cache ?y) (hash_of c) = Some v" for v
    using sound assms(3) same that unfolding cache_sound_def by metis
  moreover have "get_file_sha256 w p = Some (hash_of c)"
    using assms(2,4) by (simp add: hashes_def)
  ultimately show ?thesis
    using assms(4-6) same by (auto simp: scan_file_def split: option.splits)
qed

definition toy_hash :: "bytes \<Rightarrow> string" where
  "toy_hash c = (if c = [] then ''00'' else ''01'')"

definition toy_env :: "bytes \<Rightarrow> env" where
  "toy_env c = quiet_env\<lparr>file_bytes := (\<lambda>_. Some c), file_len := (\<lambda>_. Some (length c)),
     sha256sum_out := (\<lambda>_. Some (toy_hash c))\<rparr>"

lemma hashes_toy: "hashes (toy_env c) toy_hash"
proof -
  have "split_whitespace ''00'' = [''00'']" "split_whitespace ''01'' = [''01'']"
    by code_simp+
  then show ?thesis
    by (simp add: hashes_def toy_env_def get_file_sha256_def toy_hash_def)
qed

text \<open>Two scans of a matching file, the second answered by the cache.\<close>

theorem scan_file_cached_exact_witness:
  "fst (scan_file (toy_env [1]) ''/b''
     (scans [(toy_env [2], ''/a''), (toy_env [], ''/c'')]
       (new_yara_scanner (\<lambda>_. True) (\<lambda>_ c. Some (c \<noteq> [])) (Some [(''r.yar'', Some ''rule'')]))))"
proof -
  have new: "yara_rules (new_yara_scanner (\<lambda>_. True) (\<lambda>_ c. Some (c \<noteq> []))
      (Some [(''r.yar'', Some ''rule'')])) = Some (\<lambda>c. Some (c \<noteq> []))"
    by (simp add: new_yara_scanner_def load_entries_def file_extension_def List.map_filter_def)
  have "fst (scan_file (toy_env [1]) ''/b''
     (scans [(toy_env [2], ''/a''), (toy_env [], ''/c'')]
       (new_yara_scanner (\<lambda>_. True) (\<lambda>_ c. Some (c \<noteq> [])) (Some [(''r.yar'', Some ''rule'')])))) \<longleftrightarrow>
    (\<exists>rules. yara_rules (new_yara_scanner (\<lambda>_. True) (\<lambda>_ c. Some (c \<noteq> []))
      (Some [(''r.yar'', Some ''rule'')])) = Some rules \<and> rules [1] = Some True)"
    by (rule scan_file_cached_exact [where hash_of = toy_hash and c = "[1]" and n = 1])
      (auto simp: hashes_toy new toy_hash_def size_cap_def, simp_all add: toy_env_def split: if_splits)
  then show ?thesis using new by auto
qed

end
