(* ===== verification/Engine.thy ===== *)
theory Engine
  imports Session Sigma Yara
begin

section \<open>The engine: state, alerts, signals, process trees\<close>

text \<open>
  The state of \<^verbatim>\<open>HeuristicsEngine\<close> and what all handlers share: signals
  (\<^verbatim>\<open>os_utils.rs\<close>), structured alerts, and the walk over the children map. Effects are logs
  at the end of the state, oldest first: \<open>signals\<close> (the \<^verbatim>\<open>kill(2)\<close> calls with their
  \<^verbatim>\<open>pid_t\<close> argument), \<open>alerts\<close> (broadcast and appended to the alert file) and \<open>ffi_log\<close>.
  Background work (\<^verbatim>\<open>tokio::spawn\<close>) is a queue of \<open>task\<close>s that run as later steps.
  The consumer of the event queue can end in two ways: by a panic, or by waiting for a lock it holds
  itself (\<open>consumer_blocked\<close>). A handler that blocks returns the state it leaves behind for ever.
  Printing is not modelled; the notices to terminals are in \<open>Notify\<close>.

  The walk over the children map is recursive without a bound in the source; it is a partial
  function, and \<^term>\<open>None\<close> means it never returns (the agent's stack overflows).
\<close>

datatype signal = SIGKILL | SIGSTOP | SIGCONT

record process_info =
  pi_pid :: u32
  pi_ppid :: u32
  pi_exe :: string
  pi_cmdline :: string
  pi_env :: "(string, string) dmap"

record alert =
  al_ts :: int
  al_severity :: string
  al_category :: string
  al_rule_path :: string
  al_process :: process_info
  al_action :: string
  al_message :: string

datatype task =
    YaraScan process_key string
  | DesktopPrompt process_key string string
  | OrphanSweep process_key

record engine =
  process_map :: process_map
  children_map :: children_map
  config_cell :: config
  audit_mode :: bool
  path_velocity_map :: "(string, string list \<times> int) dmap"
  sigma_rules :: "sigma_rule list"
  yara :: yara_scanner
  trust :: trust_state
  tasks :: "task list"
  consumer_panicked :: bool
  consumer_blocked :: bool
  signals :: "(signal \<times> int) list"
  alerts :: "alert list"
  ffi_log :: "ffi_call list"

definition new_engine ::
  "config \<Rightarrow> string option \<Rightarrow> sigma_rule list \<Rightarrow> yara_scanner \<Rightarrow> trust_state \<Rightarrow> engine" where
  "new_engine cfg audit_var rules scanner t =
     \<lparr>process_map = [], children_map = [], config_cell = cfg,
      audit_mode = (case audit_var of None \<Rightarrow> False | Some v \<Rightarrow> v = ''true'' \<or> v = ''1''),
      path_velocity_map = [], sigma_rules = rules, yara = scanner, trust = t, tasks = [],
      consumer_panicked = False, consumer_blocked = False,
      signals = [], alerts = [], ffi_log = []\<rparr>"

text \<open>Either way no event is handled any more.\<close>

abbreviation consumer_ended :: "engine \<Rightarrow> bool" where
  "consumer_ended e \<equiv> consumer_panicked e \<or> consumer_blocked e"

text \<open>\<^verbatim>\<open>tokio::spawn\<close>: on a thread of the runtime the task is queued; on any other thread
  the documented behaviour is a panic, which ends the thread. The only thread of the agent outside the
  runtime is the consumer of the event queue, and both its calls of \<^verbatim>\<open>tokio::spawn\<close> are
  the last action of their handler.\<close>

definition spawn_task :: "env \<Rightarrow> task \<Rightarrow> engine \<Rightarrow> engine" where
  "spawn_task w t e =
     (if on_runtime w then e\<lparr>tasks := tasks e @ [t]\<rparr> else e\<lparr>consumer_panicked := True\<rparr>)"

subsection \<open>Signals\<close>

text \<open>\<^verbatim>\<open>libc::kill(pid as libc::pid_t, ..)\<close>: the 32-bit PID is reinterpreted as signed.\<close>

definition terminate_process :: "u32 \<Rightarrow> engine \<Rightarrow> engine" where
  "terminate_process pid e = e\<lparr>signals := signals e @ [(SIGKILL, sint pid)]\<rparr>"

definition suspend_process :: "u32 \<Rightarrow> engine \<Rightarrow> engine" where
  "suspend_process pid e = e\<lparr>signals := signals e @ [(SIGSTOP, sint pid)]\<rparr>"

definition release_process :: "u32 \<Rightarrow> engine \<Rightarrow> engine" where
  "release_process pid e = e\<lparr>signals := signals e @ [(SIGCONT, sint pid)]\<rparr>"

definition signalled :: "signal \<Rightarrow> u32 list \<Rightarrow> (signal \<times> int) list" where
  "signalled sig pids = map (\<lambda>p. (sig, sint p)) pids"

lemma fold_terminate: "fold terminate_process pids e = e\<lparr>signals := signals e @ signalled SIGKILL pids\<rparr>"
  by (induction pids arbitrary: e) (simp_all add: signalled_def terminate_process_def)

lemma fold_suspend: "fold suspend_process pids e = e\<lparr>signals := signals e @ signalled SIGSTOP pids\<rparr>"
  by (induction pids arbitrary: e) (simp_all add: signalled_def suspend_process_def)

lemma fold_release: "fold release_process pids e = e\<lparr>signals := signals e @ signalled SIGCONT pids\<rparr>"
  by (induction pids arbitrary: e) (simp_all add: signalled_def release_process_def)

lemmas fold_signals [engine_simps] = fold_terminate fold_suspend fold_release
  terminate_process_def suspend_process_def release_process_def

text \<open>Whom \<^verbatim>\<open>kill(2)\<close> addresses, by the sign of its argument (POSIX).\<close>

datatype kill_target = OneProcess nat | OwnGroup | Everyone | Group nat

definition kill_target_of :: "int \<Rightarrow> kill_target" where
  "kill_target_of p =
     (if 0 < p then OneProcess (nat p)
      else if p = 0 then OwnGroup
      else if p = -1 then Everyone
      else Group (nat (- p)))"

subsection \<open>Structured alerts\<close>

definition alert_process :: "env \<Rightarrow> u32 \<Rightarrow> engine \<Rightarrow> process_info" where
  "alert_process w pid e =
     (case find_pid (process_map e) pid of
        None \<Rightarrow> \<lparr>pi_pid = pid, pi_ppid = 0, pi_exe = '''', pi_cmdline = '''', pi_env = []\<rparr>
      | Some (k, s) \<Rightarrow>
          \<lparr>pi_pid = pid, pi_ppid = ppid s, pi_exe = image_path s, pi_cmdline = command_line s,
           pi_env = get_process_env_all w pid\<rparr>)"

definition write_structured_alert ::
  "env \<Rightarrow> u32 \<Rightarrow> string \<Rightarrow> string \<Rightarrow> string \<Rightarrow> string \<Rightarrow> string \<Rightarrow> engine \<Rightarrow> engine" where
  "write_structured_alert w pid severity category rule_path action message e =
     e\<lparr>alerts := alerts e @ [\<lparr>
        al_ts = clock w, al_severity = severity, al_category = category,
        al_rule_path = rule_path, al_process = alert_process w pid e,
        al_action = action, al_message = message\<rparr>]\<rparr>"

subsection \<open>Process trees\<close>

definition children_of :: "children_map \<Rightarrow> process_key \<Rightarrow> process_key list" where
  "children_of cm k = (case dm_get cm k of None \<Rightarrow> [] | Some cs \<Rightarrow> cs)"

partial_function (option) collect_children :: "children_map \<Rightarrow> process_key list \<Rightarrow> u32 list option" where
  "collect_children cm ks =
     (case ks of
        [] \<Rightarrow> Some []
      | c # cs \<Rightarrow>
          Option.bind (collect_children cm (children_of cm c)) (\<lambda>below.
          Option.bind (collect_children cm cs) (\<lambda>rest.
          Some (pk_pid c # below @ rest))))"

text \<open>\<^verbatim>\<open>collect_descendants\<close>: for each child its PID, then its own descendants.\<close>

definition collect_descendants :: "children_map \<Rightarrow> process_key \<Rightarrow> u32 list option" where
  "collect_descendants cm k = collect_children cm (children_of cm k)"

text \<open>The copy of the walk the background tasks use.\<close>

partial_function (option) collect_children_static :: "children_map \<Rightarrow> process_key list \<Rightarrow> u32 list option" where
  "collect_children_static cm ks =
     (case ks of
        [] \<Rightarrow> Some []
      | c # cs \<Rightarrow>
          Option.bind (collect_children_static cm (children_of cm c)) (\<lambda>below.
          Option.bind (collect_children_static cm cs) (\<lambda>rest.
          Some (pk_pid c # below @ rest))))"

definition collect_descendants_static :: "children_map \<Rightarrow> process_key \<Rightarrow> u32 list option" where
  "collect_descendants_static cm k = collect_children_static cm (children_of cm k)"

lemma collect_Nil [simp]: "collect_children cm [] = Some []"
  by (simp add: collect_children.simps)

lemma collect_Cons:
  "collect_children cm (c # cs) =
     (case collect_children cm (children_of cm c) of None \<Rightarrow> None
      | Some below \<Rightarrow> (case collect_children cm cs of None \<Rightarrow> None
         | Some rest \<Rightarrow> Some (pk_pid c # below @ rest)))"
  by (subst collect_children.simps) (simp split: option.splits)

lemma collect_static_Nil [simp]: "collect_children_static cm [] = Some []"
  by (simp add: collect_children_static.simps)

lemma collect_static_Cons:
  "collect_children_static cm (c # cs) =
     (case collect_children_static cm (children_of cm c) of None \<Rightarrow> None
      | Some below \<Rightarrow> (case collect_children_static cm cs of None \<Rightarrow> None
         | Some rest \<Rightarrow> Some (pk_pid c # below @ rest)))"
  by (subst collect_children_static.simps) (simp split: option.splits)

lemma collect_static_imp:
  assumes "collect_children_static cm ks = Some r"
  shows "collect_children cm ks = Some r"
proof (rule collect_children_static.raw_induct
    [where P = "\<lambda>cm ks r. collect_children cm ks = Some r", OF _ assms])
  fix f cm ks r
  assume IH: "\<And>cm ks r. f cm ks = Some r \<Longrightarrow> collect_children cm ks = Some r"
    and "(case ks of [] \<Rightarrow> Some []
      | c # cs \<Rightarrow> Option.bind (f cm (children_of cm c)) (\<lambda>below.
          Option.bind (f cm cs) (\<lambda>rest. Some (pk_pid c # below @ rest)))) = Some r"
  then show "collect_children cm ks = Some r"
    by (cases ks) (auto simp: bind_eq_Some_conv collect_Cons)
qed

lemma collect_imp_static:
  assumes "collect_children cm ks = Some r"
  shows "collect_children_static cm ks = Some r"
proof (rule collect_children.raw_induct
    [where P = "\<lambda>cm ks r. collect_children_static cm ks = Some r", OF _ assms])
  fix f cm ks r
  assume IH: "\<And>cm ks r. f cm ks = Some r \<Longrightarrow> collect_children_static cm ks = Some r"
    and "(case ks of [] \<Rightarrow> Some []
      | c # cs \<Rightarrow> Option.bind (f cm (children_of cm c)) (\<lambda>below.
          Option.bind (f cm cs) (\<lambda>rest. Some (pk_pid c # below @ rest)))) = Some r"
  then show "collect_children_static cm ks = Some r"
    by (cases ks) (auto simp: bind_eq_Some_conv collect_static_Cons)
qed

lemma collect_static_eq: "collect_descendants_static = collect_descendants"
proof (intro ext)
  fix cm k
  show "collect_descendants_static cm k = collect_descendants cm k"
    unfolding collect_descendants_static_def collect_descendants_def
    by (metis collect_static_imp collect_imp_static not_Some_eq)
qed

definition child_rel :: "children_map \<Rightarrow> (process_key \<times> process_key) set" where
  "child_rel cm = {(k, c). c \<in> set (children_of cm k)}"

text \<open>Whatever the walk returns is the PIDs of all keys below, in any depth.\<close>

lemma collect_children_sound:
  assumes "collect_children cm ks = Some r"
  shows "set r = pk_pid ` ((child_rel cm)\<^sup>* `` set ks)"
proof (rule collect_children.raw_induct
    [where P = "\<lambda>cm ks r. set r = pk_pid ` ((child_rel cm)\<^sup>* `` set ks)", OF _ assms])
  fix f cm ks r
  assume IH: "\<And>cm ks r. f cm ks = Some r \<Longrightarrow> set r = pk_pid ` ((child_rel cm)\<^sup>* `` set ks)"
    and eq: "(case ks of [] \<Rightarrow> Some []
      | c # cs \<Rightarrow> Option.bind (f cm (children_of cm c)) (\<lambda>below.
          Option.bind (f cm cs) (\<lambda>rest. Some (pk_pid c # below @ rest)))) = Some r"
  show "set r = pk_pid ` ((child_rel cm)\<^sup>* `` set ks)"
  proof (cases ks)
    case (Cons c cs)
    then obtain below rest where b: "f cm (children_of cm c) = Some below"
      and r: "f cm cs = Some rest" "r = pk_pid c # below @ rest"
      using eq by (auto simp: bind_eq_Some_conv)
    have "(child_rel cm)\<^sup>* `` {c} = insert c ((child_rel cm)\<^sup>* `` set (children_of cm c))"
      by (auto simp: child_rel_def intro: converse_rtrancl_into_rtrancl elim: converse_rtranclE)
    moreover have "(child_rel cm)\<^sup>* `` set ks =
        (child_rel cm)\<^sup>* `` {c} \<union> (child_rel cm)\<^sup>* `` set cs"
      unfolding Cons by auto
    ultimately show ?thesis
      using IH [OF b] IH [OF r(1)] r(2) by (simp add: image_Un)
  qed (use eq in simp)
qed

text \<open>The walk returns exactly for the keys from which no infinite chain of children starts.\<close>

abbreviation bounded_below :: "children_map \<Rightarrow> process_key set" where
  "bounded_below cm \<equiv> Wellfounded.acc ((child_rel cm)\<inverse>)"

lemma bounded_children: "k \<in> bounded_below cm \<longleftrightarrow> set (children_of cm k) \<subseteq> bounded_below cm"
proof
  assume k: "k \<in> bounded_below cm"
  show "set (children_of cm k) \<subseteq> bounded_below cm"
  proof
    fix c assume "c \<in> set (children_of cm k)"
    then have "(c, k) \<in> (child_rel cm)\<inverse>" by (simp add: child_rel_def)
    then show "c \<in> bounded_below cm" using k by (rule acc_downward [rotated])
  qed
next
  assume c: "set (children_of cm k) \<subseteq> bounded_below cm"
  show "k \<in> bounded_below cm"
  proof (rule accI)
    fix c' assume "(c', k) \<in> (child_rel cm)\<inverse>"
    then have "c' \<in> set (children_of cm k)" by (simp add: child_rel_def)
    then show "c' \<in> bounded_below cm" using c by (rule subsetD [rotated])
  qed
qed

lemma collect_children_acc:
  assumes "collect_children cm ks = Some r"
  shows "set ks \<subseteq> bounded_below cm"
proof (rule collect_children.raw_induct [where P = "\<lambda>cm ks r. set ks \<subseteq> bounded_below cm", OF _ assms])
  fix f cm ks r
  assume IH: "\<And>cm ks r. f cm ks = Some r \<Longrightarrow> set ks \<subseteq> bounded_below cm"
    and eq: "(case ks of [] \<Rightarrow> Some []
      | c # cs \<Rightarrow> Option.bind (f cm (children_of cm c)) (\<lambda>below.
          Option.bind (f cm cs) (\<lambda>rest. Some (pk_pid c # below @ rest)))) = Some r"
  show "set ks \<subseteq> bounded_below cm"
  proof (cases ks)
    case (Cons c cs)
    then obtain below rest where f: "f cm (children_of cm c) = Some below" "f cm cs = Some rest"
      using eq by (auto simp: bind_eq_Some_conv)
    have "c \<in> bounded_below cm" unfolding bounded_children [of c] by (rule IH [OF f(1)])
    then show ?thesis using IH [OF f(2)] Cons by simp
  qed simp
qed

lemma collect_children_all:
  "\<forall>c \<in> set ks. \<exists>r. collect_children cm (children_of cm c) = Some r \<Longrightarrow> \<exists>r. collect_children cm ks = Some r"
proof (induction ks)
  case (Cons c ks)
  then obtain b r where "collect_children cm (children_of cm c) = Some b" "collect_children cm ks = Some r"
    by (metis list.set_intros)
  then show ?case by (simp add: collect_Cons)
qed simp

lemma acc_collect_children:
  "c \<in> bounded_below cm \<Longrightarrow> \<exists>r. collect_children cm (children_of cm c) = Some r"
proof (induction rule: acc_induct_rule)
  case (1 c)
  show ?case
  proof (rule collect_children_all, rule ballI)
    fix c' assume "c' \<in> set (children_of cm c)"
    then have "(c', c) \<in> (child_rel cm)\<inverse>" by (simp add: child_rel_def)
    then show "\<exists>r. collect_children cm (children_of cm c') = Some r" by (rule 1(2))
  qed
qed

lemma collect_returns_iff: "collect_descendants cm k \<noteq> None \<longleftrightarrow> k \<in> bounded_below cm"
proof
  assume "collect_descendants cm k \<noteq> None"
  then obtain r where "collect_children cm (children_of cm k) = Some r"
    by (auto simp: collect_descendants_def)
  then show "k \<in> bounded_below cm"
    unfolding bounded_children [of k] by (rule collect_children_acc)
next
  assume "k \<in> bounded_below cm"
  then show "collect_descendants cm k \<noteq> None"
    using acc_collect_children unfolding collect_descendants_def by fastforce
qed

text \<open>C26. The recursive walk over the children map returns exactly when no infinite chain of children
  starts at the key (a cycle is one), and what it returns is the PIDs of all keys below it, at
  any depth, and of no other.\<close>

theorem collect_descendants_exact:
  "(collect_descendants cm k \<noteq> None \<longleftrightarrow> k \<in> bounded_below cm) \<and>
   (\<forall>r. collect_descendants cm k = Some r \<longrightarrow> set r = pk_pid ` ((child_rel cm)\<^sup>+ `` {k}))"
proof -
  have "set r = pk_pid ` ((child_rel cm)\<^sup>+ `` {k})" if "collect_descendants cm k = Some r" for r
  proof -
    have "(child_rel cm)\<^sup>+ `` {k} = (child_rel cm)\<^sup>* `` set (children_of cm k)"
      unfolding trancl_unfold_left by (auto simp: child_rel_def)
    then show ?thesis
      using collect_children_sound [of cm "children_of cm k" r] that
      by (simp add: collect_descendants_def)
  qed
  then show ?thesis using collect_returns_iff by blast
qed

definition sample_tree :: children_map where
  "sample_tree = [(\<lparr>pk_pid = 1, pk_start_time = 0\<rparr>, [\<lparr>pk_pid = 2, pk_start_time = 0\<rparr>]),
     (\<lparr>pk_pid = 2, pk_start_time = 0\<rparr>, [\<lparr>pk_pid = 3, pk_start_time = 0\<rparr>])]"

lemma sample_tree_walk: "collect_descendants sample_tree \<lparr>pk_pid = 1, pk_start_time = 0\<rparr> = Some [2, 3]"
  by (simp add: collect_descendants_def collect_Cons sample_tree_def children_of_def dm_get_def)

theorem collect_descendants_exact_witness:
  "pk_pid ` ((child_rel sample_tree)\<^sup>+ `` {\<lparr>pk_pid = 1, pk_start_time = 0\<rparr>}) = {2, 3}"
  using collect_descendants_exact [of sample_tree "\<lparr>pk_pid = 1, pk_start_time = 0\<rparr>"]
  by (simp add: sample_tree_walk)

lemma sint_uint_u32: "sint (w :: u32) = (if uint w < 2 ^ 31 then uint w else uint w - 2 ^ 32)"
proof -
  have lt: "uint w < 2 ^ 32" "0 \<le> uint w" using unsigned_less [of w, where 'a = int] by simp_all
  have "sint w = signed_take_bit 31 (uint w)" by (simp add: sint_uint)
  then have "sint w = (uint w + 2 ^ 31) mod 2 ^ 32 - 2 ^ 31"
    by (simp add: signed_take_bit_eq_take_bit_shift take_bit_eq_mod)
  moreover have "(uint w + 2 ^ 31) mod 2 ^ 32 = (uint w + 2 ^ 31 - 2 ^ 32) mod 2 ^ 32"
    by (simp only: minus_mod_self2)
  ultimately show ?thesis using lt by (cases "uint w < 2 ^ 31") simp_all
qed

text \<open>C37. The PID of an event is cast to a signed \<^verbatim>\<open>pid_t\<close> before the signal is sent: it
  addresses the one process it names exactly when it is positive in 32 bits; 0 addresses the
  agent's own process group and 0xFFFFFFFF every process of the system.\<close>

theorem signal_target:
  "signals (terminate_process pid e) = signals e @ [(SIGKILL, sint pid)] \<and>
   (kill_target_of (sint pid) = OneProcess (unat pid) \<longleftrightarrow> 0 < unat pid \<and> unat pid < 2 ^ 31) \<and>
   (kill_target_of (sint pid) = OwnGroup \<longleftrightarrow> pid = 0) \<and>
   (kill_target_of (sint pid) = Everyone \<longleftrightarrow> pid = 0xFFFFFFFF)"
proof -
  define x where "x = uint pid"
  have lt: "x < 2 ^ 32" "0 \<le> x"
    using unsigned_less [of pid, where 'a = int] by (simp_all add: x_def)
  have eqs: "sint pid = (if x < 2 ^ 31 then x else x - 2 ^ 32)" "unat pid = nat x"
    "pid = 0 \<longleftrightarrow> x = 0" "pid = 0xFFFFFFFF \<longleftrightarrow> x = 0xFFFFFFFF"
    by (simp_all add: x_def sint_uint_u32 word_uint_eq_iff)
  show ?thesis
    unfolding eqs terminate_process_def using lt
    by (cases "x < 2 ^ 31") (auto simp: kill_target_of_def)
qed

end
