(* ===== verification/Containment.thy ===== *)
theory Containment
  imports Engine
begin

section \<open>Containment: suspend, terminate, release, kill\<close>

text \<open>
  The four tree operations of \<^verbatim>\<open>HeuristicsEngine\<close> and the continuation of the desktop
  prompt, then the contract every operation of the engine keeps (\<open>base_ok\<close>: the state invariant,
  logs that only grow), the silence of audit mode (\<open>silent\<close>) and the effect of non-zero event
  timestamps (\<open>timed\<close>), stated as locales over an operation and its inputs.
\<close>

definition suspend_process_tree ::
  "env \<Rightarrow> process_key \<Rightarrow> string \<Rightarrow> string \<Rightarrow> string \<Rightarrow> engine \<Rightarrow> engine option" where
  "suspend_process_tree w root_key reason category rule_path e =
     (case collect_descendants (children_map e) root_key of
        None \<Rightarrow> None
      | Some below \<Rightarrow>
          let pids_to_suspend = below @ [pk_pid root_key];
              e1 = (if audit_mode e then e else fold suspend_process pids_to_suspend e);
              action = (if audit_mode e then ''LOGGED'' else ''CONTAINED'');
              e2 = write_structured_alert w (pk_pid root_key) ''ALERT'' category rule_path action
                     reason e1;
              root_path = (case dm_get (process_map e) root_key of
                None \<Rightarrow> ''unknown'' | Some s \<Rightarrow> image_path s)
          in Some (if \<not> audit_mode e \<and> get_active_session_context w (config_cell e) \<noteq> None
                   then spawn_task w (DesktopPrompt root_key root_path reason) e2
                   else e2))"

definition run_desktop_prompt ::
  "env \<Rightarrow> process_key \<Rightarrow> string \<Rightarrow> string \<Rightarrow> engine \<Rightarrow> engine option" where
  "run_desktop_prompt w root_key root_path reason e =
     (let allowed = trigger_desktop_prompt w (pk_pid root_key) root_path reason in
      case collect_descendants_static (children_map e) root_key of
        None \<Rightarrow> None
      | Some below \<Rightarrow>
          let pids_to_resolve = below @ [pk_pid root_key] in
          if allowed then
            let e1 = (case file_inode w root_path of
                        None \<Rightarrow> e
                      | Some ino \<Rightarrow>
                          e\<lparr>ffi_log := ffi_log e @ [AddTrustedExecInode ino 2],
                            trust := add_to_user_allowlist w root_path (trust e)\<rparr>);
                e2 = fold release_process pids_to_resolve e1
            in Some (e2\<lparr>process_map := dm_alter root_key clear_threat (process_map e2)\<rparr>)
          else Some (fold terminate_process pids_to_resolve e))"

definition not_found :: "u32 \<Rightarrow> string" where
  "not_found pid = ''Process PID '' @ show_nat (unat pid) @ '' not found or already terminated''"

text \<open>The two administrator commands: an error leaves the state as it is.\<close>

definition release_process_tree :: "env \<Rightarrow> u32 \<Rightarrow> engine \<Rightarrow> (string + engine) option" where
  "release_process_tree w root_pid e =
     (case find_live (process_map e) root_pid of
        None \<Rightarrow> Some (Inl (not_found root_pid))
      | Some (key, _) \<Rightarrow>
          (case collect_descendants (children_map e) key of
             None \<Rightarrow> None
           | Some below \<Rightarrow>
               let e1 = fold release_process (below @ [pk_pid key]) e;
                   e2 = e1\<lparr>process_map := dm_alter key clear_threat (process_map e1)\<rparr>
               in Some (Inr (write_structured_alert w (pk_pid key) ''INFO'' ''release'' ''''
                    ''RELEASED'' ''Containment released by administrator'' e2))))"

definition kill_process_tree :: "env \<Rightarrow> u32 \<Rightarrow> engine \<Rightarrow> (string + engine) option" where
  "kill_process_tree w root_pid e =
     (case find_live (process_map e) root_pid of
        None \<Rightarrow> Some (Inl (not_found root_pid))
      | Some (key, _) \<Rightarrow>
          (case collect_descendants (children_map e) key of
             None \<Rightarrow> None
           | Some below \<Rightarrow>
               let e1 = fold terminate_process (below @ [pk_pid key]) e
               in Some (Inr (write_structured_alert w (pk_pid key) ''INFO'' ''kill'' ''''
                    ''TERMINATED'' ''Process tree terminated by administrator'' e1))))"

definition terminate_threat_pkm ::
  "env \<Rightarrow> process_key \<Rightarrow> string \<Rightarrow> string \<Rightarrow> string \<Rightarrow> engine \<Rightarrow> engine option" where
  "terminate_threat_pkm w key reason category rule_path e =
     (case collect_descendants (children_map e) key of
        None \<Rightarrow> None
      | Some below \<Rightarrow>
          let pids_to_kill = below @ [pk_pid key];
              e1 = (if audit_mode e then e else fold terminate_process pids_to_kill e);
              e2 = e1\<lparr>process_map := fold (mark_terminated (clock w)) pids_to_kill (process_map e1)\<rparr>
          in Some (write_structured_alert w (pk_pid key) ''CRITICAL'' category rule_path
               ''TERMINATED'' reason e2))"

text \<open>The same call made by a handler that still holds a reference to the entry
  (\<^verbatim>\<open>process_map.get(&key)\<close>): the shard of the key is locked for reading by the thread
  itself, so \<^verbatim>\<open>get_mut\<close> on an entry of that shard never returns. Only the consumer thread
  makes such calls. The signals are sent before, the alert would come after.\<close>

fun mark_around :: "(process_key \<Rightarrow> bool) \<Rightarrow> int \<Rightarrow> u32 list \<Rightarrow> process_map \<Rightarrow> process_map \<times> bool" where
  "mark_around held now [] pm = (pm, False)"
| "mark_around held now (pid # pids) pm =
     (case find_live pm pid of
        None \<Rightarrow> mark_around held now pids pm
      | Some (k, _) \<Rightarrow>
          if held k then (pm, True) else mark_around held now pids (dm_alter k (stop_entry now) pm))"

definition terminate_holding ::
  "env \<Rightarrow> process_key \<Rightarrow> string \<Rightarrow> string \<Rightarrow> string \<Rightarrow> engine \<Rightarrow> engine option" where
  "terminate_holding w key reason category rule_path e =
     (case collect_descendants (children_map e) key of
        None \<Rightarrow> None
      | Some below \<Rightarrow>
          let pids_to_kill = below @ [pk_pid key];
              e1 = (if audit_mode e then e else fold terminate_process pids_to_kill e);
              (pm, stuck) = mark_around (\<lambda>k. table_shard w k = table_shard w key) (clock w)
                pids_to_kill (process_map e1);
              e2 = e1\<lparr>process_map := pm\<rparr>
          in Some (if stuck then e2\<lparr>consumer_blocked := True\<rparr>
               else write_structured_alert w (pk_pid key) ''CRITICAL'' category rule_path
                 ''TERMINATED'' reason e2))"

subsection \<open>The invariant of the engine\<close>

definition entry_ok :: "process_key \<Rightarrow> process_state \<Rightarrow> bool" where
  "entry_ok k s \<longleftrightarrow>
     ps_key s = k \<and> (terminated s \<longleftrightarrow> ttl_deadline s \<noteq> None) \<and> distinct (unique_files_read s) \<and>
     (is_top_level_install s \<longrightarrow> is_install_context s \<and> install_root_pid s = pk_pid k)"

definition entries_ok :: "process_map \<Rightarrow> bool" where
  "entries_ok pm \<longleftrightarrow> dm_ok pm \<and> (\<forall>(k, s) \<in> set pm. entry_ok k s)"

definition children_ok :: "children_map \<Rightarrow> bool" where
  "children_ok cm \<longleftrightarrow> dm_ok cm \<and> (\<forall>(k, cs) \<in> set cm. pk_start_time k = 0 \<and> distinct cs)"

definition engine_inv :: "engine \<Rightarrow> bool" where
  "engine_inv e \<longleftrightarrow> entries_ok (process_map e) \<and> children_ok (children_map e)"

text \<open>No child is ever taken out of the children map.\<close>

definition children_grow :: "children_map \<Rightarrow> children_map \<Rightarrow> bool" where
  "children_grow cm cm' \<longleftrightarrow> (\<forall>k. set (children_of cm k) \<subseteq> set (children_of cm' k))"

lemma children_grow_refl [simp]: "children_grow cm cm"
  by (simp add: children_grow_def)

lemma children_grow_trans: "children_grow cm cm' \<Longrightarrow> children_grow cm' cm'' \<Longrightarrow> children_grow cm cm''"
  unfolding children_grow_def by blast

definition effects_grow :: "engine \<Rightarrow> engine \<Rightarrow> bool" where
  "effects_grow e e' \<longleftrightarrow>
     prefix (signals e) (signals e') \<and> prefix (alerts e) (alerts e') \<and>
     prefix (ffi_log e) (ffi_log e') \<and> (consumer_panicked e \<longrightarrow> consumer_panicked e') \<and>
     (consumer_blocked e \<longrightarrow> consumer_blocked e') \<and>
     audit_mode e' = audit_mode e \<and> sigma_rules e' = sigma_rules e \<and>
     children_grow (children_map e) (children_map e')"

definition base_ok :: "engine \<Rightarrow> engine \<Rightarrow> bool" where
  "base_ok e e' \<longleftrightarrow> (engine_inv e \<longrightarrow> engine_inv e') \<and> effects_grow e e'"

fun is_prompt :: "task \<Rightarrow> bool" where
  "is_prompt (DesktopPrompt _ _ _) = True"
| "is_prompt _ = False"

definition no_prompt :: "engine \<Rightarrow> bool" where
  "no_prompt e \<longleftrightarrow> (\<forall>t \<in> set (tasks e). \<not> is_prompt t)"

definition silent :: "engine \<Rightarrow> engine \<Rightarrow> bool" where
  "silent e e' \<longleftrightarrow>
     (audit_mode e \<longrightarrow> signals e' = signals e \<and> (no_prompt e \<longrightarrow> no_prompt e'))"

fun task_key :: "task \<Rightarrow> process_key" where
  "task_key (YaraScan k _) = k"
| "task_key (DesktopPrompt k _ _) = k"
| "task_key (OrphanSweep k) = k"

text \<open>Every tracked process was created by an event with a non-zero timestamp.\<close>

definition timed :: "engine \<Rightarrow> bool" where
  "timed e \<longleftrightarrow>
     (\<forall>(k, s) \<in> set (process_map e). pk_start_time k \<noteq> 0) \<and>
     (\<forall>(k, cs) \<in> set (children_map e). pk_start_time k = 0 \<and> (\<forall>c \<in> set cs. pk_start_time c \<noteq> 0)) \<and>
     (\<forall>t \<in> set (tasks e). pk_start_time (task_key t) \<noteq> 0)"

lemma base_ok_refl [simp]: "base_ok e e"
  by (simp add: base_ok_def effects_grow_def)

lemma base_ok_trans: "base_ok e f \<Longrightarrow> base_ok f g \<Longrightarrow> base_ok e g"
  by (auto simp: base_ok_def effects_grow_def intro: prefix_order.trans children_grow_trans)

lemma silent_refl [simp]: "silent e e"
  by (simp add: silent_def)

lemma silent_trans: "silent e f \<Longrightarrow> silent f g \<Longrightarrow> audit_mode f = audit_mode e \<Longrightarrow> silent e g"
  by (auto simp: silent_def)

lemma base_ok_audit: "base_ok e e' \<Longrightarrow> audit_mode e' = audit_mode e"
  by (simp add: base_ok_def effects_grow_def)

subsection \<open>The contract as locales\<close>

text \<open>An operation of the engine takes an input (environment and event) and the state; it may fail
  to return.\<close>

fun run_all :: "('i \<Rightarrow> engine \<Rightarrow> engine option) \<Rightarrow> 'i list \<Rightarrow> engine \<Rightarrow> engine option" where
  "run_all op [] e = Some e"
| "run_all op (i # is) e = Option.bind (op i e) (run_all op is)"

locale engine_op =
  fixes op :: "'i \<Rightarrow> engine \<Rightarrow> engine option"
    and adm :: "'i \<Rightarrow> bool"
  assumes op_base: "adm i \<Longrightarrow> op i e = Some e' \<Longrightarrow> base_ok e e'"
begin

lemma op_inv: "adm i \<Longrightarrow> engine_inv e \<Longrightarrow> op i e = Some e' \<Longrightarrow> engine_inv e'"
  using op_base by (auto simp: base_ok_def)

lemma run_base: "\<forall>i \<in> set is. adm i \<Longrightarrow> run_all op is e = Some e' \<Longrightarrow> base_ok e e'"
proof (induction "is" arbitrary: e)
  case (Cons i "is")
  then obtain f where "op i e = Some f" "run_all op is f = Some e'"
    by (auto simp: bind_eq_Some_conv)
  then show ?case using Cons op_base base_ok_trans by (metis list.set_intros)
qed simp

end

text \<open>An operation driven by telemetry is moreover silent in audit mode, and returns whenever all
  tracked processes and its own event have non-zero timestamps.\<close>

locale telemetry_op = engine_op op adm
  for op :: "'i \<Rightarrow> engine \<Rightarrow> engine option" and adm :: "'i \<Rightarrow> bool" +
  fixes timely :: "'i \<Rightarrow> bool"
  assumes op_silent: "adm i \<Longrightarrow> op i e = Some e' \<Longrightarrow> silent e e'"
    and op_returns: "adm i \<Longrightarrow> timely i \<Longrightarrow> timed e \<Longrightarrow> \<exists>e'. op i e = Some e' \<and> timed e'"
begin

lemma op_returnsD: "adm i \<Longrightarrow> timely i \<Longrightarrow> timed e \<Longrightarrow> op i e \<noteq> None"
  using op_returns by fastforce

lemma run_silent: "\<forall>i \<in> set is. adm i \<Longrightarrow> run_all op is e = Some e' \<Longrightarrow> silent e e'"
proof (induction "is" arbitrary: e)
  case (Cons i "is")
  then obtain f where f: "op i e = Some f" "run_all op is f = Some e'"
    by (auto simp: bind_eq_Some_conv)
  have adm: "adm i" using Cons.prems by simp
  have "silent e f" using op_silent [OF adm f(1)] .
  moreover have "silent f e'" using Cons.IH Cons.prems(1) f(2) by simp
  moreover have "audit_mode f = audit_mode e" using base_ok_audit [OF op_base [OF adm f(1)]] .
  ultimately show ?case by (rule silent_trans)
qed simp

lemma run_returns:
  "\<forall>i \<in> set is. adm i \<and> timely i \<Longrightarrow> timed e \<Longrightarrow> \<exists>e'. run_all op is e = Some e' \<and> timed e'"
proof (induction "is" arbitrary: e)
  case (Cons i "is")
  then obtain f where "op i e = Some f" "timed f" using op_returns by fastforce
  then show ?case using Cons by simp
qed simp

end

subsection \<open>Tables under the operations\<close>

lemma entry_ok_stop [simp]: "entry_ok k s \<Longrightarrow> entry_ok k (stop_entry now s)"
  by (simp add: entry_ok_def)

lemma entry_ok_clear [simp]: "entry_ok k s \<Longrightarrow> entry_ok k (clear_threat s)"
  by (simp add: entry_ok_def)

lemma entries_ok_alter:
  assumes "entries_ok pm" "\<And>s. (k, s) \<in> set pm \<Longrightarrow> entry_ok k s \<Longrightarrow> entry_ok k (f s)"
  shows "entries_ok (dm_alter k f pm)"
proof -
  have "entry_ok k' v" if "(k', v) \<in> set (dm_alter k f pm)" for k' v
    using that
  proof (rule dm_alter_memE)
    fix s assume "(k', s) \<in> set pm" "v = (if k' = k then f s else s)"
    moreover from this have "entry_ok k' s" using assms(1) by (auto simp: entries_ok_def)
    ultimately show "entry_ok k' v" using assms(2) by auto
  qed
  then show ?thesis using assms(1) by (auto simp: entries_ok_def dm.ok_alter)
qed

lemma entries_ok_mark: "entries_ok pm \<Longrightarrow> entries_ok (mark_terminated now pid pm)"
  by (auto simp: mark_terminated_def intro!: entries_ok_alter split: option.splits)

lemma entries_ok_fold_mark: "entries_ok pm \<Longrightarrow> entries_ok (fold (mark_terminated now) pids pm)"
  by (induction pids arbitrary: pm) (simp_all add: entries_ok_mark)

lemma keys_fold_mark: "map fst (fold (mark_terminated now) pids pm) = map fst pm"
  by (induction pids arbitrary: pm) simp_all

lemma timed_process_keys:
  "(\<forall>(k, s) \<in> set pm. pk_start_time k \<noteq> 0) \<longleftrightarrow> (\<forall>k \<in> set (map fst pm). pk_start_time k \<noteq> 0)"
  by auto

lemma write_alert_simps [simp]:
  "process_map (write_structured_alert w p sev cat r act msg e) = process_map e"
  "children_map (write_structured_alert w p sev cat r act msg e) = children_map e"
  "config_cell (write_structured_alert w p sev cat r act msg e) = config_cell e"
  "audit_mode (write_structured_alert w p sev cat r act msg e) = audit_mode e"
  "path_velocity_map (write_structured_alert w p sev cat r act msg e) = path_velocity_map e"
  "sigma_rules (write_structured_alert w p sev cat r act msg e) = sigma_rules e"
  "yara (write_structured_alert w p sev cat r act msg e) = yara e"
  "trust (write_structured_alert w p sev cat r act msg e) = trust e"
  "tasks (write_structured_alert w p sev cat r act msg e) = tasks e"
  "signals (write_structured_alert w p sev cat r act msg e) = signals e"
  "ffi_log (write_structured_alert w p sev cat r act msg e) = ffi_log e"
  "consumer_panicked (write_structured_alert w p sev cat r act msg e) = consumer_panicked e"
  "consumer_blocked (write_structured_alert w p sev cat r act msg e) = consumer_blocked e"
  by (simp_all add: write_structured_alert_def)

lemma spawn_task_simps [simp]:
  "process_map (spawn_task w t e) = process_map e" "children_map (spawn_task w t e) = children_map e"
  "config_cell (spawn_task w t e) = config_cell e" "audit_mode (spawn_task w t e) = audit_mode e"
  "sigma_rules (spawn_task w t e) = sigma_rules e" "trust (spawn_task w t e) = trust e"
  "signals (spawn_task w t e) = signals e" "alerts (spawn_task w t e) = alerts e"
  "ffi_log (spawn_task w t e) = ffi_log e"
  "consumer_panicked (spawn_task w t e) = (consumer_panicked e \<or> \<not> on_runtime w)"
  "consumer_blocked (spawn_task w t e) = consumer_blocked e"
  "tasks (spawn_task w t e) = tasks e @ (if on_runtime w then [t] else [])"
  by (simp_all add: spawn_task_def)

lemma alerts_write_alert:
  "alerts (write_structured_alert w p sev cat r act msg e) =
     alerts e @ [\<lparr>al_ts = clock w, al_severity = sev, al_category = cat, al_rule_path = r,
       al_process = alert_process w p e, al_action = act, al_message = msg\<rparr>]"
  by (simp add: write_structured_alert_def)

lemma prefix_write_alert [simp]:
  "prefix xs (alerts e) \<Longrightarrow> prefix xs (alerts (write_structured_alert w p sev cat r act msg e))"
  by (simp add: alerts_write_alert)

lemmas contract_defs = base_ok_def engine_inv_def effects_grow_def silent_def no_prompt_def

lemma base_write_alert: "base_ok e (write_structured_alert w p sev cat r act msg e)"
  by (simp add: contract_defs)

lemma silent_write_alert: "silent e (write_structured_alert w p sev cat r act msg e)"
  by (simp add: contract_defs)

lemma timed_write_alert [simp]:
  "timed (write_structured_alert w p sev cat r act msg e) = timed e"
  by (simp add: timed_def)

subsection \<open>The operations keep the contract\<close>

lemma suspend_base: "suspend_process_tree w k reason cat r e = Some e' \<Longrightarrow> base_ok e e'"
  by (auto simp: suspend_process_tree_def engine_simps contract_defs Let_def
      split: option.splits if_splits)

lemma suspend_frame:
  "suspend_process_tree w k reason cat r e = Some e' \<Longrightarrow>
     process_map e' = process_map e \<and> children_map e' = children_map e \<and> trust e' = trust e \<and>
     config_cell e' = config_cell e"
  by (auto simp: suspend_process_tree_def engine_simps Let_def write_structured_alert_def
      split: option.splits if_splits)

lemma suspend_silent: "suspend_process_tree w k reason cat r e = Some e' \<Longrightarrow> silent e e'"
  by (auto simp: suspend_process_tree_def contract_defs Let_def split: option.splits if_splits)

lemma terminate_threat_base: "terminate_threat_pkm w k reason cat r e = Some e' \<Longrightarrow> base_ok e e'"
  by (auto simp: terminate_threat_pkm_def engine_simps contract_defs entries_ok_fold_mark
      entries_ok_mark Let_def
      split: option.splits if_splits)

lemma mark_around_keys: "map fst (fst (mark_around held now pids pm)) = map fst pm"
  by (induction pids arbitrary: pm) (auto split: option.split)

lemma entries_ok_mark_around: "entries_ok pm \<Longrightarrow> entries_ok (fst (mark_around held now pids pm))"
proof (induction pids arbitrary: pm)
  case (Cons p ps)
  have "entries_ok (dm_alter k (stop_entry now) pm)" for k
    using Cons.prems by (rule entries_ok_alter) simp
  then show ?case using Cons by (auto split: option.split)
qed simp

lemma terminate_holding_base: "terminate_holding w k reason cat r e = Some e' \<Longrightarrow> base_ok e e'"
  using entries_ok_mark_around [of "process_map e"]
  by (auto simp: terminate_holding_def engine_simps contract_defs Let_def case_prod_beta
      split: option.splits if_splits)

lemma terminate_holding_silent: "terminate_holding w k reason cat r e = Some e' \<Longrightarrow> silent e e'"
  by (auto simp: terminate_holding_def contract_defs Let_def case_prod_beta split: option.splits if_splits)

lemma terminate_threat_silent: "terminate_threat_pkm w k reason cat r e = Some e' \<Longrightarrow> silent e e'"
  by (auto simp: terminate_threat_pkm_def contract_defs Let_def split: option.splits if_splits)

lemma run_desktop_prompt_base: "run_desktop_prompt w k path reason e = Some e' \<Longrightarrow> base_ok e e'"
  by (auto simp: run_desktop_prompt_def engine_simps contract_defs Let_def entries_ok_alter
      split: option.splits if_splits)

lemma release_base: "release_process_tree w pid e = Some (Inr e') \<Longrightarrow> base_ok e e'"
  by (auto simp: release_process_tree_def engine_simps contract_defs Let_def entries_ok_alter
      split: option.splits prod.splits)

lemma kill_base: "kill_process_tree w pid e = Some (Inr e') \<Longrightarrow> base_ok e e'"
  by (auto simp: kill_process_tree_def engine_simps contract_defs Let_def
      split: option.splits prod.splits)

subsection \<open>Trees of tracked processes\<close>

lemma collect_no_entry: "dm_get cm k = None \<Longrightarrow> collect_descendants cm k = Some []"
  by (simp add: collect_descendants_def children_of_def)

lemma timed_no_children:
  assumes "timed e" "pk_start_time k \<noteq> 0"
  shows "dm_get (children_map e) k = None"
proof (cases "dm_get (children_map e) k")
  case (Some cs)
  then have "(k, cs) \<in> set (children_map e)" by (rule dm_get_mem)
  then show ?thesis using assms by (auto simp: timed_def)
qed simp

lemma timed_collect:
  "timed e \<Longrightarrow> pk_start_time k \<noteq> 0 \<Longrightarrow> collect_descendants (children_map e) k = Some []"
  by (simp add: collect_no_entry timed_no_children)

lemma timed_live_key:
  "timed e \<Longrightarrow> find_live (process_map e) pid = Some (k, s) \<Longrightarrow> pk_start_time k \<noteq> 0"
  by (auto simp: timed_def dest!: find_live_SomeD)

lemma timed_change_map:
  "timed e \<Longrightarrow> map fst pm = map fst (process_map e) \<Longrightarrow> timed (e\<lparr>process_map := pm\<rparr>)"
  by (simp add: timed_def timed_process_keys)

lemma timed_alter [simp]:
  "timed e \<Longrightarrow> timed (e\<lparr>process_map := dm_alter k f (process_map e)\<rparr>)"
  by (simp add: timed_change_map)

lemma suspend_timed:
  assumes "timed e" "pk_start_time k \<noteq> 0"
  obtains e' where "suspend_process_tree w k reason cat r e = Some e'" "timed e'"
    "process_map e' = process_map e" "children_map e' = children_map e"
    "signals e' = signals e @ (if audit_mode e then [] else [(SIGSTOP, sint (pk_pid k))])"
  using assms timed_collect [OF assms]
  by (cases "\<not> audit_mode e \<and> get_active_session_context w (config_cell e) \<noteq> None";
      cases "on_runtime w")
    (auto simp: suspend_process_tree_def engine_simps signalled_def Let_def timed_def)

lemma terminate_threat_timed:
  assumes "timed e" "pk_start_time k \<noteq> 0"
  obtains e' where "terminate_threat_pkm w k reason cat r e = Some e'" "timed e'"
    "process_map e' = mark_terminated (clock w) (pk_pid k) (process_map e)"
    "children_map e' = children_map e"
    "signals e' = signals e @ (if audit_mode e then [] else [(SIGKILL, sint (pk_pid k))])"
  using assms timed_collect [OF assms]
  by (auto simp: terminate_threat_pkm_def engine_simps signalled_def Let_def timed_def
      timed_process_keys)

text \<open>The entry whose reference is held is live and is searched for last: the call always blocks.\<close>

lemma find_live_stop_other:
  "find_live pm pid = Some (key, s) \<Longrightarrow> k \<noteq> key \<Longrightarrow> find_live (dm_alter k (stop_entry now) pm) pid = Some (key, s)"
  by (induction pm) (auto simp: find_live_def dm_alter_def split: if_splits)

lemma mark_around_stuck:
  assumes "held key" "pk_pid key \<in> set pids" "find_live pm (pk_pid key) = Some (key, s)"
  shows "snd (mark_around held now pids pm) \<and>
    find_live (fst (mark_around held now pids pm)) (pk_pid key) = Some (key, s)"
  using assms(2,3)
proof (induction pids arbitrary: pm)
  case (Cons p ps)
  show ?case
  proof (cases "find_live pm p")
    case None
    then show ?thesis using Cons by auto
  next
    case (Some r)
    obtain k s' where r: "r = (k, s')" by (cases r)
    have "p \<noteq> pk_pid key \<and> find_live (dm_alter k (stop_entry now) pm) (pk_pid key) = Some (key, s)" if h: "\<not> held k"
    proof -
      have "k \<noteq> key" using h assms(1) by blast
      then show ?thesis
        using Some Cons.prems(2) find_live_stop_other [OF Cons.prems(2)] by (auto simp: r)
    qed
    then show ?thesis using Cons by (auto simp: Some r)
  qed
qed simp

lemma terminate_holding_blocks:
  assumes "find_live (process_map e) (pk_pid key) = Some (key, s)"
    and "collect_descendants (children_map e) key = Some below"
  shows "\<exists>e'. terminate_holding w key reason cat r e = Some e' \<and> consumer_blocked e' \<and>
    signals e' = signals e @ (if audit_mode e then [] else signalled SIGKILL (below @ [pk_pid key])) \<and>
    alerts e' = alerts e \<and> tasks e' = tasks e \<and>
    find_live (process_map e') (pk_pid key) = Some (key, s)"
  using mark_around_stuck [OF _ _ assms(1), of "\<lambda>k. table_shard w k = table_shard w key"
      "below @ [pk_pid key]" "clock w"]
  by (simp add: terminate_holding_def assms(2) engine_simps signalled_def Let_def case_prod_beta)

lemma terminate_holding_timed:
  assumes "timed e" "pk_start_time k \<noteq> 0"
  obtains e' where "terminate_holding w k reason cat r e = Some e'" "timed e'"
proof -
  obtain e' where r: "terminate_holding w k reason cat r e = Some e'"
    using timed_collect [OF assms]
    by (simp add: terminate_holding_def Let_def case_prod_beta del: mark_around.simps)
  have "map fst (process_map e') = map fst (process_map e)" "children_map e' = children_map e" "tasks e' = tasks e"
    using r by (auto simp: terminate_holding_def engine_simps Let_def case_prod_beta mark_around_keys
        simp del: mark_around.simps split: option.splits if_splits)
  then have "timed e'" using assms(1) by (simp add: timed_def timed_process_keys)
  then show thesis using that r by blast
qed

lemma terminate_holding_exact:
  assumes "timed e" "find_live (process_map e) pid = Some (k, s)"
  shows "terminate_holding w k reason cat r e =
    Some (e\<lparr>signals := signals e @ (if audit_mode e then [] else [(SIGKILL, sint pid)]), consumer_blocked := True\<rparr>)"
  using timed_collect [OF assms(1) timed_live_key [OF assms]] find_live_SomeD [OF assms(2)] assms(2)
  by (simp add: terminate_holding_def engine_simps signalled_def Let_def)

lemma terminate_holding_panics:
  "terminate_holding w k reason cat r e = Some e' \<Longrightarrow> consumer_panicked e' = consumer_panicked e"
  by (auto simp: terminate_holding_def engine_simps Let_def case_prod_beta split: option.splits if_splits)

lemma terminate_threat_blocked:
  "terminate_threat_pkm w k reason cat r e = Some e' \<Longrightarrow> consumer_blocked e' = consumer_blocked e"
  by (auto simp: terminate_threat_pkm_def engine_simps Let_def split: option.splits if_splits)

lemma base_alter:
  "(\<And>s. entry_ok k s \<Longrightarrow> entry_ok k (f s)) \<Longrightarrow>
     base_ok e (e\<lparr>process_map := dm_alter k f (process_map e)\<rparr>)"
  by (simp add: contract_defs entries_ok_alter)

lemma silent_change:
  "signals e' = signals e \<Longrightarrow> tasks e' = tasks e \<Longrightarrow> silent e e'"
  by (simp add: contract_defs)

text \<open>The results of a handler: lawful if it keeps the contract when it returns, and returning.\<close>

definition lawful :: "engine \<Rightarrow> engine option \<Rightarrow> bool" where
  "lawful e r \<longleftrightarrow> (\<forall>e'. r = Some e' \<longrightarrow> base_ok e e' \<and> silent e e')"

definition returns :: "engine option \<Rightarrow> bool" where
  "returns r \<longleftrightarrow> (\<exists>e'. r = Some e' \<and> timed e')"

lemma lawful_Some: "base_ok e e' \<Longrightarrow> silent e e' \<Longrightarrow> lawful e (Some e')"
  by (simp add: lawful_def)

lemma lawful_same [simp]: "lawful e (Some e)"
  by (simp add: lawful_def)

lemma lawful_trans:
  assumes "base_ok e f" "silent e f" "lawful f r"
  shows "lawful e r"
  using assms by (auto simp: lawful_def base_ok_audit intro: base_ok_trans silent_trans)

lemma lawful_suspend: "lawful e (suspend_process_tree w k reason cat r e)"
  by (auto simp: lawful_def dest: suspend_base suspend_silent)

lemma lawful_suspend_after:
  "base_ok e f \<Longrightarrow> silent e f \<Longrightarrow> lawful e (suspend_process_tree w k reason cat r f)"
  by (rule lawful_trans [OF _ _ lawful_suspend])

lemma lawful_terminate: "lawful e (terminate_threat_pkm w k reason cat r e)"
  by (auto simp: lawful_def dest: terminate_threat_base terminate_threat_silent)

lemma lawful_terminate_holding: "lawful e (terminate_holding w k reason cat r e)"
  by (auto simp: lawful_def dest: terminate_holding_base terminate_holding_silent)

lemma lawful_alert: "lawful e (Some (write_structured_alert w p sev cat r act msg e))"
  by (simp add: lawful_Some base_write_alert silent_write_alert)

lemma returns_Some [simp]: "returns (Some e) = timed e"
  by (simp add: returns_def)

lemma returns_suspend:
  "timed e \<Longrightarrow> pk_start_time k \<noteq> 0 \<Longrightarrow> returns (suspend_process_tree w k reason cat r e)"
  unfolding returns_def by (metis suspend_timed)

lemma returns_terminate:
  "timed e \<Longrightarrow> pk_start_time k \<noteq> 0 \<Longrightarrow> returns (terminate_threat_pkm w k reason cat r e)"
  unfolding returns_def by (metis terminate_threat_timed)

lemma returns_terminate_holding:
  "timed e \<Longrightarrow> pk_start_time k \<noteq> 0 \<Longrightarrow> returns (terminate_holding w k reason cat r e)"
  unfolding returns_def by (metis terminate_holding_timed)

text \<open>The facts every handler proof combines.\<close>

lemmas lawful_rules = lawful_same lawful_suspend_after lawful_terminate lawful_terminate_holding lawful_Some
  base_write_alert silent_write_alert
lemmas returns_rules = returns_suspend returns_terminate returns_terminate_holding

text \<open>What the rules on install processes do to the state when they fire or not.\<close>

definition kill_if :: "bool \<Rightarrow> env \<Rightarrow> u32 \<Rightarrow> engine \<Rightarrow> engine \<Rightarrow> bool" where
  "kill_if fires w pid e e' \<longleftrightarrow>
     signals e' = signals e @ (if fires \<and> \<not> audit_mode e then [(SIGKILL, sint pid)] else []) \<and>
     process_map e' =
       (if fires then mark_terminated (clock w) pid (process_map e) else process_map e)"

lemma kill_if_fires:
  assumes "timed e" "find_live (process_map e) pid = Some (k, s)"
  shows "\<exists>e'. terminate_threat_pkm w k reason cat r e = Some e' \<and> kill_if True w pid e e'"
proof -
  have pid: "pk_pid k = pid" using find_live_SomeD [OF assms(2)] by simp
  have k: "pk_start_time k \<noteq> 0" by (rule timed_live_key [OF assms])
  show ?thesis
    by (rule terminate_threat_timed [OF assms(1) k, of w reason cat r]) (auto simp: kill_if_def pid)
qed

lemma kill_if_idle: "kill_if False w pid e e"
  by (simp add: kill_if_def)

subsection \<open>Concrete states\<close>

text \<open>An engine that tracks process 7, for the concrete runs of the later theories.\<close>

definition sample_key :: process_key where
  "sample_key = \<lparr>pk_pid = 7, pk_start_time = 5\<rparr>"

definition sample_process :: "string \<Rightarrow> bool \<Rightarrow> process_state" where
  "sample_process img install =
     \<lparr>ps_key = sample_key, ppid = 1, real_parent_pid = 1, image_path = img, command_line = img,
      category_flags = 0, pending_network_connect = False, terminated = False, ttl_deadline = None,
      is_naked_tty = False, is_untrusted = False, is_install_context = install,
      is_top_level_install = False, install_root_pid = 3, depth = 1, unique_files_read = []\<rparr>"

definition sample_engine :: "config \<Rightarrow> string option \<Rightarrow> process_state \<Rightarrow> engine" where
  "sample_engine cfg audit_var s =
     (new_engine cfg audit_var [] \<lparr>yara_rules = None, scan_cache = []\<rparr> (trust_at_start Absent Absent))
       \<lparr>process_map := [(sample_key, s)]\<rparr>"

lemma sample_engine_simps [simp]:
  "process_map (sample_engine cfg a s) = [(sample_key, s)]"
  "children_map (sample_engine cfg a s) = []" "config_cell (sample_engine cfg a s) = cfg"
  "audit_mode (sample_engine cfg a s) = (a = Some ''true'' \<or> a = Some ''1'')"
  "signals (sample_engine cfg a s) = []" "tasks (sample_engine cfg a s) = []"
  "alerts (sample_engine cfg a s) = []" "sigma_rules (sample_engine cfg a s) = []"
  by (auto simp: sample_engine_def new_engine_def split: option.splits)

lemma sample_process_simps [simp]:
  "ps_key (sample_process img i) = sample_key" "image_path (sample_process img i) = img"
  "category_flags (sample_process img i) = 0" "\<not> pending_network_connect (sample_process img i)"
  "\<not> terminated (sample_process img i)" "ttl_deadline (sample_process img i) = None"
  "is_install_context (sample_process img i) = i" "\<not> is_top_level_install (sample_process img i)"
  "\<not> is_untrusted (sample_process img i)" "unique_files_read (sample_process img i) = []"
  "install_root_pid (sample_process img i) = 3" "depth (sample_process img i) = 1"
  by (simp_all add: sample_process_def)

lemma sample_key_simps [simp]: "pk_pid sample_key = 7" "pk_start_time sample_key = 5"
  by (simp_all add: sample_key_def)

lemma timed_sample [simp]: "timed (sample_engine cfg a s)"
  by (simp add: timed_def)

lemma find_live_sample [simp]: "\<not> terminated s \<Longrightarrow> find_live [(sample_key, s)] 7 = Some (sample_key, s)"
  by (simp add: find_live_def)

lemma engine_inv_sample: "entry_ok sample_key s \<Longrightarrow> engine_inv (sample_engine cfg a s)"
  by (simp add: engine_inv_def entries_ok_def children_ok_def dm_ok_def)

lemma entry_ok_sample [simp]: "entry_ok sample_key (sample_process img i)"
  by (simp add: entry_ok_def)

definition sample_header :: "event_type \<Rightarrow> telemetry_header" where
  "sample_header t = \<lparr>sequence_number = 1, timestamp_ns = 9, hdr_pid = 7, hdr_event_type = t,
     hdr_source = EBPF\<rparr>"

lemma sample_header_simps [simp]: "hdr_pid (sample_header t) = 7" "timestamp_ns (sample_header t) = 9"
  "hdr_event_type (sample_header t) = t"
  by (simp_all add: sample_header_def)

end
