(* ===== verification/FileRules.thy ===== *)
theory FileRules
  imports Containment
begin

section \<open>File events\<close>

text \<open>
  \<^verbatim>\<open>file_write\<close>, \<^verbatim>\<open>file_read\<close> and \<^verbatim>\<open>file_open\<close> (Unix). A handler finds the
  live process of the event's PID, decides from the configuration and the process state, and
  suspends or terminates its tree. Each decision is a definition of its own; the handler composes
  them in the source's order. The check of protected directories calls the termination while it still
  holds the entry (\<open>terminate_holding\<close>).
\<close>

definition backslash :: char where
  "backslash = CHR 0x5C"

definition normalize_path :: "string \<Rightarrow> string" where
  "normalize_path p = replace_char backslash ''/'' (to_lowercase p)"

definition is_profile_like_path :: "string \<Rightarrow> config \<Rightarrow> bool" where
  "is_profile_like_path path cfg \<longleftrightarrow>
     list_ex (\<lambda>p. let p_normalized = normalize_path p in
        if ends_with p_normalized ''/'' then contains (normalize_path path) p_normalized
        else ends_with (normalize_path path) p_normalized)
       (shell_profile_paths cfg)"

definition is_container_socket :: "string \<Rightarrow> bool" where
  "is_container_socket path_lower \<longleftrightarrow>
     contains path_lower ''/var/run/docker.sock'' \<or>
     contains path_lower ''/run/containerd/containerd.sock''"

subsection \<open>Writes\<close>

definition protected_dir_match :: "config \<Rightarrow> string \<Rightarrow> string option" where
  "protected_dir_match cfg path_lower =
     find (\<lambda>dir. let pattern_lower = to_lowercase dir;
              pattern_backslashes = replace_char (CHR ''/'') [backslash] pattern_lower
            in contains path_lower pattern_lower \<or> contains path_lower pattern_backslashes)
       (map fst (protected_application_directories cfg))"

text \<open>Does a process with this image write into a protected directory of another vendor?\<close>

definition is_directory_hijack :: "config \<Rightarrow> string \<Rightarrow> string \<Rightarrow> bool" where
  "is_directory_hijack cfg img file_path \<longleftrightarrow>
     (case protected_dir_match cfg (to_lowercase file_path) of
        None \<Rightarrow> False
      | Some dir \<Rightarrow>
          (case dm_get (protected_application_directories cfg) dir of
             None \<Rightarrow> False
           | Some writer \<Rightarrow> \<not> contains (to_lowercase img) (to_lowercase writer)))"

definition is_persistence_path :: "config \<Rightarrow> string \<Rightarrow> bool" where
  "is_persistence_path cfg file_path \<longleftrightarrow>
     is_profile_like_path file_path cfg \<or>
     list_ex (\<lambda>p. contains (to_lowercase file_path) (to_lowercase p)) (persistence_paths cfg)"

definition file_write :: "env \<Rightarrow> telemetry_header \<Rightarrow> file_write_details \<Rightarrow> engine \<Rightarrow> engine option" where
  "file_write w h d e =
     (let file_path = cstr (fw_file_path d); cfg = config_cell e in
      case find_live (process_map e) (hdr_pid h) of
        None \<Rightarrow> Some e
      | Some (key, state) \<Rightarrow>
          if is_directory_hijack cfg (image_path state) file_path then
            terminate_holding w key
              (''Unauthorized directory modification attempt in protected folder by non-vendor process: ''
                @ file_path) ''directory_hijack'' file_path e
          else if is_install_context state then
            if is_container_socket (to_lowercase file_path) then
              terminate_threat_pkm w key
                (''Package install process attempted to write to container runtime socket: ''
                  @ file_path) ''docker_socket_access'' file_path e
            else if is_persistence_path cfg file_path then
              terminate_threat_pkm w key
                (''Package install process attempted to establish persistence: '' @ file_path)
                ''persistence_path'' file_path e
            else Some e
          else Some e)"

subsection \<open>Reads\<close>

text \<open>The category of the first registered path that contains, or is contained in, the path
  read; 0 is not sensitive.\<close>

definition resolve_category :: "config \<Rightarrow> string \<Rightarrow> u32" where
  "resolve_category cfg file_path =
     (case find (\<lambda>(p, c). contains file_path p \<or> contains p file_path) (sensitive_files cfg) of
        None \<Rightarrow> 0 | Some (_, cat) \<Rightarrow> cat)"

definition browsers :: "string list" where
  "browsers = [''chrome'', ''firefox'', ''brave'', ''edge'', ''safari'', ''opera'', ''chromium'',
     ''vivaldi'', ''librewolf'']"

definition vendors :: "string list" where
  "vendors = [''exodus'', ''discord'', ''telegram'', ''slack'', ''signal'', ''atomic'', ''ledger'',
     ''electrum'', ''keyring'', ''kwallet'', ''ssh'']"

definition is_authorized_vendor :: "string \<Rightarrow> string \<Rightarrow> bool" where
  "is_authorized_vendor file_path img =
     (let file_lower = to_lowercase file_path; image_lower = to_lowercase img in
      if list_ex (contains image_lower) browsers \<and> list_ex (contains file_lower) browsers then True
      else list_ex (\<lambda>v. contains file_lower v \<and> contains image_lower v) vendors)"

text \<open>What the handler records in the process state before it decides.\<close>

definition record_read :: "u32 \<Rightarrow> string \<Rightarrow> process_state \<Rightarrow> process_state" where
  "record_read cat file_path s =
     s\<lparr>category_flags := category_flags s OR cat,
       unique_files_read := hs_insert file_path (unique_files_read s)\<rparr>"

definition zero_tolerance_reason :: string where
  "zero_tolerance_reason =
     ''Zero-Tolerance Ownership rule: Process is not authorized to read this credential category''"

definition reverse_path_reason :: string where
  "reverse_path_reason = ''Reverse Path: Sensitive read attempt after outbound network connection''"

definition traversal_reason :: string where
  "traversal_reason = ''Multi-Credential Directory Traversal Detected''"

text \<open>Later rules overwrite the reason of earlier ones.\<close>

definition read_verdict :: "string \<Rightarrow> process_state \<Rightarrow> string option" where
  "read_verdict file_path s =
     (let r0 = (if \<not> is_authorized_vendor file_path (image_path s)
                then Some zero_tolerance_reason else None);
          r1 = (if pending_network_connect s then Some reverse_path_reason else r0);
          r2 = (if 2 < length (unique_files_read s) then Some traversal_reason else r1)
      in r2)"

definition read_category_name :: "u32 \<Rightarrow> string" where
  "read_category_name c =
     (if c = 0x01 then ''browser_db'' else if c = 0x04 then ''wallet''
      else if c = 0x08 then ''app_data'' else if c = 0x10 then ''ssh_keys''
      else if c = 0x20 then ''user_keystores'' else if c = 0x40 then ''ai_agents''
      else if c = 0x80 then ''web_process'' else if c = 0x100 then ''system_update''
      else if c = 0x200 then ''persistence_path'' else if c = 0x400 then ''protected_binary''
      else ''general'')"

definition file_read :: "env \<Rightarrow> telemetry_header \<Rightarrow> file_read_details \<Rightarrow> engine \<Rightarrow> engine option" where
  "file_read w h d e =
     (let file_path = cstr (fr_file_path d); cfg = config_cell e in
      if is_path_excluded cfg file_path then Some e
      else
        let category = resolve_category cfg file_path in
        if category = 0 then Some e
        else (case find_live (process_map e) (hdr_pid h) of
                None \<Rightarrow> Some e
              | Some (key, state) \<Rightarrow>
                  let state1 = record_read category file_path state;
                      e1 = e\<lparr>process_map := dm_alter key (record_read category file_path) (process_map e),
                             path_velocity_map := dm_put (to_lowercase (image_path state))
                               (unique_files_read state1, clock w) (path_velocity_map e)\<rparr>
                  in (case read_verdict file_path state1 of
                        None \<Rightarrow> Some e1
                      | Some reason \<Rightarrow>
                          suspend_process_tree w key reason (read_category_name category)
                            file_path e1)))"

subsection \<open>Opens\<close>

text \<open>0x35 = browser databases, wallets, SSH keys and user keystores.\<close>

definition is_credential_path :: "config \<Rightarrow> string \<Rightarrow> bool" where
  "is_credential_path cfg file_path \<longleftrightarrow>
     list_ex (\<lambda>(p, cat). (contains file_path p \<or> contains p file_path) \<and> cat AND 0x35 \<noteq> 0)
       (sensitive_files cfg) \<or>
     list_ex (\<lambda>p. contains (normalize_path file_path) (normalize_path p))
       (sensitive_credential_paths cfg)"

definition file_open :: "env \<Rightarrow> telemetry_header \<Rightarrow> file_open_details \<Rightarrow> engine \<Rightarrow> engine option" where
  "file_open w h d e =
     (let file_path = cstr (fo_file_path d) in
      case find_live (process_map e) (hdr_pid h) of
        None \<Rightarrow> Some e
      | Some (key, state) \<Rightarrow>
          if is_install_context state then
            if is_container_socket (to_lowercase file_path) then
              terminate_threat_pkm w key
                (''Package install process attempted to access container runtime socket: ''
                  @ file_path) ''docker_socket_access'' file_path e
            else if is_credential_path (config_cell e) file_path then
              terminate_threat_pkm w key
                (''Package install process attempted to read sensitive credentials: '' @ file_path)
                ''credential_access'' file_path e
            else Some e
          else Some e)"

subsection \<open>The handlers keep the contract\<close>

lemma entry_ok_record_read: "entry_ok k s \<Longrightarrow> entry_ok k (record_read c p s)"
  by (simp add: entry_ok_def record_read_def)

lemma record_read_simps [simp]:
  "terminated (record_read c p s) = terminated s"
  "image_path (record_read c p s) = image_path s"
  "pending_network_connect (record_read c p s) = pending_network_connect s"
  "category_flags (record_read c p s) = category_flags s OR c"
  "unique_files_read (record_read c p s) = hs_insert p (unique_files_read s)"
  by (simp_all add: record_read_def)

lemma file_write_lawful: "lawful e (file_write w h d e)"
  by (auto simp: file_write_def Let_def intro!: lawful_rules split: option.split)

lemma file_write_returns: "timed e \<Longrightarrow> returns (file_write w h d e)"
  by (auto simp: file_write_def Let_def intro!: returns_rules dest: timed_live_key split: option.split)

interpretation file_write: telemetry_op
  "\<lambda>(w, h, d). file_write w h d" "\<lambda>(w, h, d). env_ok w" "\<lambda>_. True"
  using file_write_lawful file_write_returns by unfold_locales (auto simp: lawful_def returns_def)

lemma file_open_lawful: "lawful e (file_open w h d e)"
  by (auto simp: file_open_def Let_def intro!: lawful_rules split: option.split)

lemma file_open_returns: "timed e \<Longrightarrow> returns (file_open w h d e)"
  by (auto simp: file_open_def Let_def intro!: returns_rules dest: timed_live_key split: option.split)

interpretation file_open: telemetry_op
  "\<lambda>(w, h, d). file_open w h d" "\<lambda>(w, h, d). env_ok w" "\<lambda>_. True"
  using file_open_lawful file_open_returns by unfold_locales (auto simp: lawful_def returns_def)

definition note_read :: "env \<Rightarrow> process_key \<Rightarrow> process_state \<Rightarrow> u32 \<Rightarrow> string \<Rightarrow> engine \<Rightarrow> engine" where
  "note_read w key state cat path e =
     e\<lparr>process_map := dm_alter key (record_read cat path) (process_map e),
       path_velocity_map := dm_put (to_lowercase (image_path state))
         (unique_files_read (record_read cat path state), clock w) (path_velocity_map e)\<rparr>"

lemma note_read_base: "base_ok e (note_read w key state cat path e)"
  by (simp add: note_read_def contract_defs entries_ok_alter entry_ok_record_read)

lemma note_read_silent: "silent e (note_read w key state cat path e)"
  by (simp add: note_read_def contract_defs)

lemma note_read_simps [simp]:
  "process_map (note_read w key state cat path e) =
     dm_alter key (record_read cat path) (process_map e)"
  "children_map (note_read w key state cat path e) = children_map e"
  "audit_mode (note_read w key state cat path e) = audit_mode e"
  "signals (note_read w key state cat path e) = signals e"
  "alerts (note_read w key state cat path e) = alerts e"
  "tasks (note_read w key state cat path e) = tasks e"
  by (simp_all add: note_read_def)

lemma note_read_timed [simp]: "timed e \<Longrightarrow> timed (note_read w key state cat path e)"
  by (simp add: timed_def timed_process_keys)

text \<open>The three outcomes of a read: not sensitive or not tracked, recorded, recorded and suspended.\<close>

lemma file_read_cases:
  "file_read w h d e =
     (let path = cstr (fr_file_path d); cat = resolve_category (config_cell e) path in
      if is_path_excluded (config_cell e) path \<or> cat = 0 then Some e
      else (case find_live (process_map e) (hdr_pid h) of
              None \<Rightarrow> Some e
            | Some (key, state) \<Rightarrow>
                (case read_verdict path (record_read cat path state) of
                   None \<Rightarrow> Some (note_read w key state cat path e)
                 | Some reason \<Rightarrow> suspend_process_tree w key reason (read_category_name cat) path
                     (note_read w key state cat path e))))"
  by (simp add: file_read_def note_read_def Let_def cong: option.case_cong)

lemma file_read_lawful: "lawful e (file_read w h d e)"
  by (auto simp: file_read_cases Let_def intro!: lawful_rules note_read_base note_read_silent
      split: option.split)

lemma file_read_returns: "timed e \<Longrightarrow> returns (file_read w h d e)"
  by (auto simp: file_read_cases Let_def intro!: returns_rules dest: timed_live_key
      split: option.split)

interpretation file_read: telemetry_op
  "\<lambda>(w, h, d). file_read w h d" "\<lambda>(w, h, d). env_ok w" "\<lambda>_. True"
  using file_read_lawful file_read_returns by unfold_locales (auto simp: lawful_def returns_def)

subsection \<open>What a read leads to\<close>

definition read_violation :: "string \<Rightarrow> process_state \<Rightarrow> bool" where
  "read_violation path s \<longleftrightarrow>
     \<not> is_authorized_vendor path (image_path s) \<or> pending_network_connect s \<or>
     2 < length (hs_insert path (unique_files_read s))"

lemma read_verdict_None: "read_verdict path (record_read c path s) = None \<longleftrightarrow> \<not> read_violation path s"
  by (simp add: read_verdict_def read_violation_def Let_def)

lemma file_read_timed:
  assumes "timed e" "find_live (process_map e) (hdr_pid h) = Some (k, s)"
    and "path = cstr (fr_file_path d)" "cat = resolve_category (config_cell e) path"
    and "\<not> is_path_excluded (config_cell e) path" "cat \<noteq> 0"
  obtains e' where "file_read w h d e = Some e'" "timed e'" "audit_mode e' = audit_mode e"
    "find_live (process_map e') (hdr_pid h) = Some (k, record_read cat path s)"
    "signals e' = signals e @
       (if read_violation path s \<and> \<not> audit_mode e then [(SIGSTOP, sint (hdr_pid h))] else [])"
proof -
  let ?e = "note_read w k s cat path e"
  have pid: "pk_pid k = hdr_pid h" using find_live_SomeD [OF assms(2)] by simp
  have live: "find_live (process_map ?e) (hdr_pid h) = Some (k, record_read cat path s)"
    by (simp add: find_live_alter_same assms(2))
  have t: "timed ?e" using assms(1) by simp
  have k: "pk_start_time k \<noteq> 0" using timed_live_key [OF assms(1,2)] .
  show thesis
  proof (cases "read_verdict path (record_read cat path s)")
    case None
    then have "file_read w h d e = Some ?e"
      using assms by (simp add: file_read_cases Let_def)
    then show thesis
      using that t live None by (simp add: read_verdict_None)
  next
    case (Some reason)
    then have r: "file_read w h d e =
        suspend_process_tree w k reason (read_category_name cat) path ?e"
      using assms by (simp add: file_read_cases Let_def)
    obtain e' where "suspend_process_tree w k reason (read_category_name cat) path ?e = Some e'"
      "timed e'" "process_map e' = process_map ?e"
      "signals e' = signals ?e @ (if audit_mode ?e then [] else [(SIGSTOP, sint (pk_pid k))])"
      "audit_mode e' = audit_mode ?e"
      by (rule suspend_timed [OF t k]) (blast dest: suspend_base base_ok_audit)
    then show thesis
      using that r live pid Some read_verdict_None [of path cat s] by auto
  qed
qed

text \<open>C17. A tracked process that reads a sensitive path which is not excluded is recorded (category
  and path), and stopped unless the agent only audits exactly when it is not the authorised owner of the
  file, had opened a connection before, or has now read more than two different sensitive paths.\<close>

theorem file_read_exact:
  assumes "timed e" "find_live (process_map e) (hdr_pid h) = Some (k, s)"
    and "\<not> is_path_excluded (config_cell e) (cstr (fr_file_path d))"
    and "resolve_category (config_cell e) (cstr (fr_file_path d)) \<noteq> 0"
  shows "\<exists>e'. file_read w h d e = Some e' \<and>
    find_live (process_map e') (hdr_pid h) =
      Some (k, record_read (resolve_category (config_cell e) (cstr (fr_file_path d)))
                 (cstr (fr_file_path d)) s) \<and>
    signals e' = signals e @
      (if (\<not> is_authorized_vendor (cstr (fr_file_path d)) (image_path s) \<or> pending_network_connect s \<or>
           2 < length (hs_insert (cstr (fr_file_path d)) (unique_files_read s))) \<and> \<not> audit_mode e
       then [(SIGSTOP, sint (hdr_pid h))] else [])"
proof (rule file_read_timed [OF assms(1,2) refl refl assms(3,4), of w])
qed (unfold read_violation_def, blast)

definition read_config :: config where
  "read_config = quiet_config\<lparr>sensitive_files := [(''/home/u/.ssh/id_rsa'', 0x10)]\<rparr>"

definition read_details :: "string \<Rightarrow> file_read_details" where
  "read_details p = \<lparr>fr_bytes_requested = 0, fr_zone_id = 0, fr_file_path = pad_text 512 p\<rparr>"

lemma read_details_path [simp]: "is_ascii_text p \<Longrightarrow> cstr (fr_file_path (read_details p)) = p"
  by (simp add: read_details_def cstr_pad_text)

theorem file_read_exact_witness:
  "\<exists>e'. file_read quiet_env (sample_header FileRead) (read_details ''/home/u/.ssh/id_rsa'')
     (sample_engine read_config None (sample_process ''/bin/cat'' False)) = Some e' \<and>
     signals e' = [(SIGSTOP, 7)]"
proof -
  have p: "cstr (fr_file_path (read_details ''/home/u/.ssh/id_rsa'')) = ''/home/u/.ssh/id_rsa''"
    by (rule read_details_path) (simp add: is_ascii_text_def)
  have "resolve_category read_config ''/home/u/.ssh/id_rsa'' = 0x10" by code_simp
  moreover have "\<not> is_authorized_vendor ''/home/u/.ssh/id_rsa'' ''/bin/cat''" by code_simp
  ultimately show ?thesis
    using file_read_exact [of "sample_engine read_config None (sample_process ''/bin/cat'' False)"
        "sample_header FileRead" sample_key "sample_process ''/bin/cat'' False"
        "read_details ''/home/u/.ssh/id_rsa''" quiet_env]
    unfolding p by (auto simp: read_config_def quiet_config_def)
qed

text \<open>The sensitivity test compares substrings both ways, so reading the root directory (or any
  path that is part of the first registered one) counts as reading that file, and no image
  is its authorised owner: the reader is stopped.\<close>

theorem root_directory_read_stops:
  assumes "timed e" "find_live (process_map e) (hdr_pid h) = Some (k, s)" "\<not> audit_mode e"
    and "cstr (fr_file_path d) = ''/''" "\<not> is_path_excluded (config_cell e) ''/''"
    and "sensitive_files (config_cell e) = (CHR ''/'' # p, c) # rest" "c \<noteq> 0"
  shows "\<exists>e'. file_read w h d e = Some e' \<and> signals e' = signals e @ [(SIGSTOP, sint (hdr_pid h))]"
proof -
  have cat: "resolve_category (config_cell e) ''/'' = c"
    using assms(6) by (simp add: resolve_category_def)
  have "list_all (\<lambda>v. \<not> contains (to_lowercase ''/'') v) browsers"
    "list_all (\<lambda>v. \<not> contains (to_lowercase ''/'') v) vendors" by code_simp+
  then have "\<not> is_authorized_vendor ''/'' (image_path s)"
    unfolding is_authorized_vendor_def Let_def list_all_iff list_ex_iff by auto
  then have v: "read_violation ''/'' s" by (simp add: read_violation_def)
  have x: "''/'' = cstr (fr_file_path d)" "c = resolve_category (config_cell e) ''/''"
    using assms(4) cat by simp_all
  obtain e' where "file_read w h d e = Some e'"
    "signals e' = signals e @
       (if read_violation ''/'' s \<and> \<not> audit_mode e then [(SIGSTOP, sint (hdr_pid h))] else [])"
    by (rule file_read_timed [OF assms(1,2) x assms(5,7)])
  then show ?thesis using v assms(3) by simp
qed

theorem root_directory_read_stops_witness:
  "\<exists>e'. file_read quiet_env (sample_header FileRead) (read_details ''/'')
     (sample_engine read_config None (sample_process ''/bin/ls'' False)) = Some e' \<and>
     signals e' = [] @ [(SIGSTOP, sint (7 :: u32))]"
  using root_directory_read_stops [of "sample_engine read_config None (sample_process ''/bin/ls'' False)"
      "sample_header FileRead" sample_key "sample_process ''/bin/ls'' False" "read_details ''/''"
      "''home/u/.ssh/id_rsa''" "0x10" "[]" quiet_env]
  by (simp add: is_ascii_text_def read_config_def quiet_config_def)

text \<open>A tracked process that opens a file is killed (and marked as terminated) exactly when it
  runs in the context of a package installation and opens a container runtime socket or a
  credential; otherwise nothing changes.\<close>

theorem file_open_exact:
  assumes "timed e" "find_live (process_map e) (hdr_pid h) = Some (k, s)"
  shows "\<exists>e'. file_open w h d e = Some e' \<and>
    kill_if (is_install_context s \<and>
       (is_container_socket (to_lowercase (cstr (fo_file_path d))) \<or>
        is_credential_path (config_cell e) (cstr (fo_file_path d)))) w (hdr_pid h) e e'"
  using kill_if_fires [OF assms] kill_if_idle assms(2) by (auto simp: file_open_def Let_def)

definition open_details :: "string \<Rightarrow> file_open_details" where
  "open_details p = \<lparr>fo_file_path = pad_text 512 p, fo_flags = 0\<rparr>"

theorem file_open_exact_witness:
  "\<exists>e'. file_open quiet_env (sample_header FileOpen) (open_details ''/var/run/docker.sock'')
     (sample_engine quiet_config None (sample_process ''/usr/bin/node'' True)) = Some e' \<and>
     signals e' = [(SIGKILL, 7)]"
proof -
  have p: "cstr (fo_file_path (open_details ''/var/run/docker.sock'')) = ''/var/run/docker.sock''"
    unfolding open_details_def by (simp add: cstr_pad_text is_ascii_text_def)
  have "is_container_socket (to_lowercase ''/var/run/docker.sock'')" by code_simp
  then show ?thesis
    using file_open_exact [of "sample_engine quiet_config None (sample_process ''/usr/bin/node'' True)"
        "sample_header FileOpen" sample_key "sample_process ''/usr/bin/node'' True" quiet_env
        "open_details ''/var/run/docker.sock''"]
    unfolding p by (auto simp: kill_if_def)
qed

lemma kill_if_fires_on:
  assumes "timed e" "find_live (process_map e) pid = Some (k, s)"
  shows "\<exists>e'. terminate_threat_pkm w k reason cat r e = Some e' \<and>
    consumer_blocked e' = consumer_blocked e \<and> kill_if True w pid e e'"
  using kill_if_fires [OF assms] terminate_threat_blocked by metis

text \<open>C18. What a write of a tracked process leads to. Into a protected directory of another vendor: the
  process is killed (unless the agent only audits), and then the consumer thread blocks for ever on the
  entry it holds itself, so the process is neither marked as terminated nor reported. Otherwise it is
  killed and marked exactly when it is an install process that writes to a container runtime socket or
  to a persistence location, and the consumer goes on.\<close>

theorem file_write_exact:
  assumes "timed e" "find_live (process_map e) (hdr_pid h) = Some (k, s)"
  shows "\<exists>e'. file_write w h d e = Some e' \<and>
    (if is_directory_hijack (config_cell e) (image_path s) (cstr (fw_file_path d))
     then consumer_blocked e' \<and> process_map e' = process_map e \<and> alerts e' = alerts e \<and>
       signals e' = signals e @ (if audit_mode e then [] else [(SIGKILL, sint (hdr_pid h))])
     else consumer_blocked e' = consumer_blocked e \<and>
       kill_if (is_install_context s \<and>
           (is_container_socket (to_lowercase (cstr (fw_file_path d))) \<or>
            is_persistence_path (config_cell e) (cstr (fw_file_path d)))) w (hdr_pid h) e e')"
  using kill_if_fires_on [OF assms, of w] kill_if_idle [of w "hdr_pid h" e] terminate_holding_exact [OF assms, of w]
    assms(2)
  by (auto simp: file_write_def Let_def)

definition write_details :: "string \<Rightarrow> file_write_details" where
  "write_details p = \<lparr>fw_bytes_written = 0, fw_file_path = pad_text 512 p\<rparr>"

definition write_config :: config where
  "write_config = quiet_config\<lparr>persistence_paths := [''/etc/cron''], 
     protected_application_directories := [(''/opt/wallet/'', ''/opt/wallet/'')]\<rparr>"

theorem file_write_exact_witness:
  "(\<exists>e'. file_write quiet_env (sample_header FileWrite) (write_details ''/etc/cron.d/x'')
       (sample_engine write_config None (sample_process ''/usr/bin/node'' True)) = Some e' \<and>
     signals e' = [(SIGKILL, 7)] \<and> find_live (process_map e') 7 = None \<and> \<not> consumer_blocked e') \<and>
   (\<exists>e'. file_write quiet_env (sample_header FileWrite) (write_details ''/opt/wallet/keys'')
       (sample_engine write_config None (sample_process ''/usr/bin/node'' True)) = Some e' \<and>
     signals e' = [(SIGKILL, 7)] \<and> find_live (process_map e') 7 \<noteq> None \<and> consumer_blocked e')"
proof -
  let ?e = "sample_engine write_config None (sample_process ''/usr/bin/node'' True)"
  have p: "cstr (fw_file_path (write_details ''/etc/cron.d/x'')) = ''/etc/cron.d/x''"
    "cstr (fw_file_path (write_details ''/opt/wallet/keys'')) = ''/opt/wallet/keys''"
    unfolding write_details_def by (simp_all add: cstr_pad_text is_ascii_text_def)
  have "is_persistence_path write_config ''/etc/cron.d/x''"
    "\<not> is_directory_hijack write_config ''/usr/bin/node'' ''/etc/cron.d/x''"
    "is_directory_hijack write_config ''/usr/bin/node'' ''/opt/wallet/keys''" by code_simp+
  moreover have "\<not> consumer_blocked ?e" by (simp add: sample_engine_def new_engine_def)
  moreover have "find_live (mark_terminated now 7 [(sample_key, sample_process ''/usr/bin/node'' True)]) 7 = None" for now
    by (simp add: mark_terminated_def dm_alter_def find_live_def)
  ultimately show ?thesis
    using file_write_exact [of ?e "sample_header FileWrite" sample_key "sample_process ''/usr/bin/node'' True"
        quiet_env "write_details ''/etc/cron.d/x''"]
      file_write_exact [of ?e "sample_header FileWrite" sample_key "sample_process ''/usr/bin/node'' True"
        quiet_env "write_details ''/opt/wallet/keys''"]
    unfolding p by (auto simp: kill_if_def)
qed

end
