(* ===== verification/BehaviourRules.thy ===== *)
theory BehaviourRules
  imports Containment
begin

section \<open>Network, descriptor, registry, ptrace and memory events\<close>

text \<open>
  \<^verbatim>\<open>network_connect\<close>, \<^verbatim>\<open>dup2\<close>, \<^verbatim>\<open>registry_write\<close>,
  \<^verbatim>\<open>clipboard_write\<close>, \<^verbatim>\<open>ptrace_attach\<close>, \<^verbatim>\<open>memory_protect\<close> and
  \<^verbatim>\<open>image_load\<close> (Unix).
\<close>

subsection \<open>Outbound connections\<close>

definition connect_category_name :: "u32 \<Rightarrow> string" where
  "connect_category_name f =
     (if f AND 0x01 \<noteq> 0 then ''browser_db'' else if f AND 0x02 \<noteq> 0 then ''keyring''
      else if f AND 0x04 \<noteq> 0 then ''wallet'' else if f AND 0x08 \<noteq> 0 then ''app_data''
      else if f AND 0x10 \<noteq> 0 then ''ssh_keys'' else if f AND 0x20 \<noteq> 0 then ''user_keystores''
      else if f AND 0x40 \<noteq> 0 then ''ai_agents'' else if f AND 0x80 \<noteq> 0 then ''web_process''
      else if f AND 0x100 \<noteq> 0 then ''system_update''
      else if f AND 0x200 \<noteq> 0 then ''persistence_path''
      else if f AND 0x400 \<noteq> 0 then ''protected_binary'' else ''network'')"

definition note_connect :: "process_state \<Rightarrow> process_state" where
  "note_connect s = s\<lparr>pending_network_connect := True\<rparr>"

definition forward_path_reason :: string where
  "forward_path_reason =
     ''Forward Path: Outbound network connection after reading sensitive credentials''"

definition network_connect ::
  "env \<Rightarrow> telemetry_header \<Rightarrow> network_connect_details \<Rightarrow> engine \<Rightarrow> engine option" where
  "network_connect w h d e =
     (case find_live (process_map e) (hdr_pid h) of
        None \<Rightarrow> Some e
      | Some (key, state) \<Rightarrow>
          let e1 = e\<lparr>process_map := dm_alter key note_connect (process_map e)\<rparr> in
          if category_flags state \<noteq> 0 then
            suspend_process_tree w key forward_path_reason
              (connect_category_name (category_flags state)) '''' e1
          else Some e1)"

subsection \<open>Descriptor duplication\<close>

definition reverse_shell_reason :: string where
  "reverse_shell_reason =
     ''Package install process duplicated socket fd to stdin/stdout '' @ map char_of [0xE2, 0x80, 0x94 :: nat]
       @ '' classic reverse shell pattern. Terminated process tree.''"

definition old_fd_is_socket :: "env \<Rightarrow> u32 \<Rightarrow> u32 \<Rightarrow> engine \<Rightarrow> bool" where
  "old_fd_is_socket w pid old_fd e \<longleftrightarrow>
     (case proc_fd w pid (sint old_fd) of None \<Rightarrow> False | Some t \<Rightarrow> starts_with t ''socket:'') \<or>
     (case find_live (process_map e) pid of
        None \<Rightarrow> False | Some (_, s) \<Rightarrow> pending_network_connect s)"

definition dup2 :: "env \<Rightarrow> telemetry_header \<Rightarrow> dup2_details \<Rightarrow> engine \<Rightarrow> engine option" where
  "dup2 w h d e =
     (let new_fd = sint (du_new_fd d);
          redirects_to_stdio = (new_fd = 0 \<or> new_fd = 1 \<or> new_fd = 2)
      in if redirects_to_stdio \<and> old_fd_is_socket w (hdr_pid h) (du_old_fd d) e then
           (case find_live (process_map e) (hdr_pid h) of
              None \<Rightarrow> Some e
            | Some (key, state) \<Rightarrow>
                if is_install_context state then
                  terminate_threat_pkm w key reverse_shell_reason ''reverse_shell'' '''' e
                else Some e)
         else Some e)"

subsection \<open>Registry and clipboard\<close>

definition is_persistence_key :: "string \<Rightarrow> bool" where
  "is_persistence_key key_lower \<longleftrightarrow>
     contains key_lower (''microsoft'' @ [CHR 0x5C] @ ''windows'' @ [CHR 0x5C] @ ''currentversion''
       @ [CHR 0x5C] @ ''run'') \<or>
     contains key_lower (''system'' @ [CHR 0x5C] @ ''currentcontrolset'' @ [CHR 0x5C] @ ''services'')"

definition registry_write ::
  "env \<Rightarrow> telemetry_header \<Rightarrow> registry_write_details \<Rightarrow> engine \<Rightarrow> engine option" where
  "registry_write w h d e =
     (let key_path = cstr (rw_key_path d); value_name = cstr (rw_value_name d) in
      case find_live (process_map e) (hdr_pid h) of
        None \<Rightarrow> Some e
      | Some (key, state) \<Rightarrow>
          if is_install_context state \<and> is_persistence_key (to_lowercase key_path) then
            terminate_threat_pkm w key
              (''Package install process attempted to write to persistence registry key: ''
                @ key_path @ [CHR 0x5C] @ value_name) ''persistence_path'' key_path e
          else Some e)"

definition clipboard_write ::
  "env \<Rightarrow> telemetry_header \<Rightarrow> clipboard_write_details \<Rightarrow> engine \<Rightarrow> engine option" where
  "clipboard_write w h d e = Some e"

subsection \<open>Ptrace\<close>

definition high_value_targets :: "string list" where
  "high_value_targets = [''chrome'', ''firefox'', ''chromium'', ''brave'', ''opera'', ''ssh-agent'',
     ''gpg-agent'', ''gnome-keyring'', ''kwallet'', ''keepass'', ''1password'', ''bitwarden'']"

definition ptrace_reason :: "bool \<Rightarrow> bool \<Rightarrow> u32 \<Rightarrow> string \<Rightarrow> u32 \<Rightarrow> string" where
  "ptrace_reason high untrusted tracer exe tracee =
     (if high \<and> untrusted then
        ''Untrusted process PID '' @ show_nat (unat tracer) @
        '' is attaching via ptrace to high-value target '' @ [CHR 0x27] @ exe @ [CHR 0x27] @
        '' (PID '' @ show_nat (unat tracee) @ '')''
      else if high then
        ''PID '' @ show_nat (unat tracer) @
        '' is attaching via ptrace to high-value target '' @ [CHR 0x27] @ exe @ [CHR 0x27] @
        '' (PID '' @ show_nat (unat tracee) @
        ''). Possible credential theft or browser injection.''
      else
        ''Untrusted process PID '' @ show_nat (unat tracer) @
        '' is attaching via ptrace to PID '' @ show_nat (unat tracee))"

definition ptrace_attach ::
  "env \<Rightarrow> telemetry_header \<Rightarrow> bpf_ptrace_attach_details \<Rightarrow> engine \<Rightarrow> engine option" where
  "ptrace_attach w h d e =
     (let tracer = hdr_pid h; tracee = pt_tracee_pid d;
          exe = (case proc_exe w tracee of None \<Rightarrow> '''' | Some p \<Rightarrow> to_lowercase p);
          high = list_ex (contains exe) high_value_targets;
          untrusted = (case find_live (process_map e) tracer of
            None \<Rightarrow> False | Some (_, s) \<Rightarrow> is_untrusted s)
      in if high \<or> untrusted then
           let reason = ptrace_reason high untrusted tracer exe tracee;
               e1 = write_structured_alert w tracer (if untrusted then ''ALERT'' else ''WARN'')
                      ''ptrace_injection'' exe (if audit_mode e then ''LOGGED'' else ''ALERTED'')
                      reason e
           in if untrusted \<and> \<not> audit_mode e then
                (case find_live (process_map e1) tracer of
                   None \<Rightarrow> Some e1
                 | Some (key, _) \<Rightarrow>
                     suspend_process_tree w key reason ''ptrace_injection'' '''' e1)
              else Some e1
         else Some e)"

subsection \<open>Memory protection\<close>

definition stomping_reason :: "u32 \<Rightarrow> u64 \<Rightarrow> u64 \<Rightarrow> string" where
  "stomping_reason pid inode addr =
     ''PID '' @ show_nat (unat pid) @ '' applied PROT_EXEC to a file-backed VMA (inode='' @
     show_nat (unat inode) @ '') at address 0x'' @ show_base 16 (unat addr) @
     ''. Possible module stomping / DLL hollowing.''"

definition memory_protect ::
  "env \<Rightarrow> telemetry_header \<Rightarrow> memory_map_bpf_details \<Rightarrow> bool \<Rightarrow> engine \<Rightarrow> engine option" where
  "memory_protect w h d is_file_backed e =
     (if \<not> is_file_backed then Some e
      else (case find_live (process_map e) (hdr_pid h) of
              None \<Rightarrow> Some e
            | Some (key, state) \<Rightarrow>
                let reason = stomping_reason (hdr_pid h) (mm_file_inode d) (mm_addr d);
                    e1 = write_structured_alert w (hdr_pid h) ''ALERT'' ''module_stomping'' ''''
                           (if audit_mode e then ''LOGGED'' else ''ALERTED'') reason e
                in if is_untrusted state \<and> \<not> audit_mode e
                   then suspend_process_tree w key reason ''module_stomping'' '''' e1
                   else Some e1))"

subsection \<open>Module loads\<close>

definition sideload_reason :: "u32 \<Rightarrow> string \<Rightarrow> u64 \<Rightarrow> bool \<Rightarrow> bool \<Rightarrow> string" where
  "sideload_reason pid module_name inode untrusted install =
     ''PID '' @ show_nat (unat pid) @ '' loaded untrusted module '' @ [CHR 0x27] @ module_name @
     [CHR 0x27] @ '' (inode='' @ show_nat (unat inode) @ ''). '' @
     (if untrusted then ''Process is already Untrusted.''
      else if install then ''Process is in install context.''
      else ''Possible SO side-loading.'')"

definition image_load ::
  "env \<Rightarrow> telemetry_header \<Rightarrow> bpf_image_load_details \<Rightarrow> engine \<Rightarrow> engine option" where
  "image_load w h d e =
     (let module_name = cstr (il_module_path d) in
      case find_live (process_map e) (hdr_pid h) of
        None \<Rightarrow> Some e
      | Some (_, state) \<Rightarrow>
          if \<not> trusted_exec_inode w (il_file_inode d) \<and>
             (is_untrusted state \<or> contains (to_lowercase module_name) ''/tmp/'' \<or>
              contains (to_lowercase module_name) ''/dev/shm/'')
          then Some (write_structured_alert w (hdr_pid h) ''WARN'' ''so_sideload'' module_name
                 ''LOGGED''
                 (sideload_reason (hdr_pid h) module_name (il_file_inode d) (is_untrusted state)
                   (is_install_context state)) e)
          else Some e)"

subsection \<open>The handlers keep the contract\<close>

lemma note_connect_simps [simp]:
  "terminated (note_connect s) = terminated s" "category_flags (note_connect s) = category_flags s"
  "pending_network_connect (note_connect s)" "image_path (note_connect s) = image_path s"
  "unique_files_read (note_connect s) = unique_files_read s"
  by (simp_all add: note_connect_def)

lemma entry_ok_note_connect: "entry_ok k s \<Longrightarrow> entry_ok k (note_connect s)"
  by (simp add: entry_ok_def note_connect_def)

lemma note_connect_base: "base_ok e (e\<lparr>process_map := dm_alter k note_connect (process_map e)\<rparr>)"
  by (rule base_alter) (rule entry_ok_note_connect)

lemma note_connect_silent: "silent e (e\<lparr>process_map := dm_alter k note_connect (process_map e)\<rparr>)"
  by (rule silent_change) simp_all

lemma network_connect_lawful: "lawful e (network_connect w h d e)"
  by (auto simp: network_connect_def Let_def intro!: lawful_rules
      note_connect_base note_connect_silent split: option.split)

lemma network_connect_returns: "timed e \<Longrightarrow> returns (network_connect w h d e)"
  by (auto simp: network_connect_def Let_def intro!: returns_rules timed_alter dest: timed_live_key
      split: option.split)

interpretation network_connect: telemetry_op
  "\<lambda>(w, h, d). network_connect w h d" "\<lambda>(w, h, d). env_ok w" "\<lambda>_. True"
  using network_connect_lawful network_connect_returns by unfold_locales (auto simp: lawful_def returns_def)

lemma dup2_lawful: "lawful e (dup2 w h d e)"
  by (auto simp: dup2_def Let_def intro!: lawful_rules split: option.split)

lemma dup2_returns: "timed e \<Longrightarrow> returns (dup2 w h d e)"
  by (auto simp: dup2_def Let_def intro!: returns_rules dest: timed_live_key split: option.split)

interpretation dup2: telemetry_op
  "\<lambda>(w, h, d). dup2 w h d" "\<lambda>(w, h, d). env_ok w" "\<lambda>_. True"
  using dup2_lawful dup2_returns by unfold_locales (auto simp: lawful_def returns_def)

lemma registry_write_lawful: "lawful e (registry_write w h d e)"
  by (auto simp: registry_write_def Let_def intro!: lawful_rules split: option.split)

lemma registry_write_returns: "timed e \<Longrightarrow> returns (registry_write w h d e)"
  by (auto simp: registry_write_def Let_def intro!: returns_rules dest: timed_live_key split: option.split)

interpretation registry_write: telemetry_op
  "\<lambda>(w, h, d). registry_write w h d" "\<lambda>(w, h, d). env_ok w" "\<lambda>_. True"
  using registry_write_lawful registry_write_returns by unfold_locales (auto simp: lawful_def returns_def)

lemma ptrace_attach_lawful: "lawful e (ptrace_attach w h d e)"
  by (auto simp: ptrace_attach_def Let_def intro!: lawful_rules split: option.split)

lemma ptrace_attach_returns: "timed e \<Longrightarrow> returns (ptrace_attach w h d e)"
  by (auto simp: ptrace_attach_def Let_def intro!: returns_rules dest: timed_live_key split: option.split)

interpretation ptrace_attach: telemetry_op
  "\<lambda>(w, h, d). ptrace_attach w h d" "\<lambda>(w, h, d). env_ok w" "\<lambda>_. True"
  using ptrace_attach_lawful ptrace_attach_returns by unfold_locales (auto simp: lawful_def returns_def)

lemma memory_protect_lawful: "lawful e (memory_protect w h d b e)"
  by (auto simp: memory_protect_def Let_def intro!: lawful_rules split: option.split)

lemma memory_protect_returns: "timed e \<Longrightarrow> returns (memory_protect w h d b e)"
  by (auto simp: memory_protect_def Let_def intro!: returns_rules dest: timed_live_key split: option.split)

interpretation memory_protect: telemetry_op
  "\<lambda>(w, h, d, b). memory_protect w h d b" "\<lambda>(w, h, d, b). env_ok w" "\<lambda>_. True"
  using memory_protect_lawful memory_protect_returns by unfold_locales (auto simp: lawful_def returns_def)

lemma image_load_lawful: "lawful e (image_load w h d e)"
  by (auto simp: image_load_def Let_def intro!: lawful_rules split: option.split)

lemma image_load_returns: "timed e \<Longrightarrow> returns (image_load w h d e)"
  by (auto simp: image_load_def Let_def intro!: returns_rules dest: timed_live_key split: option.split)

interpretation image_load: telemetry_op
  "\<lambda>(w, h, d). image_load w h d" "\<lambda>(w, h, d). env_ok w" "\<lambda>_. True"
  using image_load_lawful image_load_returns by unfold_locales (auto simp: lawful_def returns_def)

interpretation clipboard_write: telemetry_op
  "\<lambda>(w, h, d). clipboard_write w h d" "\<lambda>(w, h, d). env_ok w" "\<lambda>_. True"
  by unfold_locales (auto simp: clipboard_write_def)

subsection \<open>What a connection leads to\<close>

lemma network_connect_timed:
  assumes "timed e" "find_live (process_map e) (hdr_pid h) = Some (k, s)"
  obtains e' where "network_connect w h d e = Some e'" "timed e'" "audit_mode e' = audit_mode e"
    "find_live (process_map e') (hdr_pid h) = Some (k, note_connect s)"
    "config_cell e' = config_cell e"
    "signals e' = signals e @
       (if category_flags s \<noteq> 0 \<and> \<not> audit_mode e then [(SIGSTOP, sint (hdr_pid h))] else [])"
proof -
  let ?e = "e\<lparr>process_map := dm_alter k note_connect (process_map e)\<rparr>"
  have pid: "pk_pid k = hdr_pid h" using find_live_SomeD [OF assms(2)] by simp
  have live: "find_live (process_map ?e) (hdr_pid h) = Some (k, note_connect s)"
    by (simp add: find_live_alter_same assms(2))
  have t: "timed ?e" using assms(1) by (rule timed_alter)
  have k: "pk_start_time k \<noteq> 0" using timed_live_key [OF assms] .
  show thesis
  proof (cases "category_flags s = 0")
    case True
    then show thesis
      using that t live assms(2) by (simp add: network_connect_def)
  next
    case False
    let ?c = "connect_category_name (category_flags s)"
    have r: "network_connect w h d e = suspend_process_tree w k forward_path_reason ?c '''' ?e"
      using False assms(2) by (simp add: network_connect_def)
    obtain e' where "suspend_process_tree w k forward_path_reason ?c '''' ?e = Some e'"
      "timed e'" "process_map e' = process_map ?e"
      "signals e' = signals ?e @ (if audit_mode ?e then [] else [(SIGSTOP, sint (pk_pid k))])"
      "audit_mode e' = audit_mode ?e" "config_cell e' = config_cell ?e"
      by (rule suspend_timed [OF t k]) (blast dest: suspend_base base_ok_audit suspend_frame)
    then show thesis using that r live pid False by auto
  qed
qed

text \<open>An outbound connection of a tracked process is recorded, and stops the process exactly when
  it has read a sensitive file before (and the agent enforces).\<close>

theorem network_connect_exact:
  assumes "timed e" "find_live (process_map e) (hdr_pid h) = Some (k, s)"
  shows "\<exists>e'. network_connect w h d e = Some e' \<and>
    find_live (process_map e') (hdr_pid h) = Some (k, s\<lparr>pending_network_connect := True\<rparr>) \<and>
    signals e' = signals e @
      (if category_flags s \<noteq> 0 \<and> \<not> audit_mode e then [(SIGSTOP, sint (hdr_pid h))] else [])"
  by (rule network_connect_timed [OF assms, of w d]) (unfold note_connect_def, blast)

definition connect_details :: network_connect_details where
  "connect_details = \<lparr>nc_destination_ip = pad_text 46 ''10.0.0.9'', nc_destination_port = 443,
     nc_protocol = pad_text 8 ''tcp''\<rparr>"

theorem network_connect_exact_witness:
  "\<exists>e'. network_connect quiet_env (sample_header NetworkConnect) connect_details
     (sample_engine quiet_config None ((sample_process ''/bin/x'' False)\<lparr>category_flags := 4\<rparr>)) = Some e' \<and>
     signals e' = [(SIGSTOP, 7)]"
  using network_connect_exact [of "sample_engine quiet_config None
        ((sample_process ''/bin/x'' False)\<lparr>category_flags := 4\<rparr>)"
      "sample_header NetworkConnect" sample_key "(sample_process ''/bin/x'' False)\<lparr>category_flags := 4\<rparr>"
      quiet_env connect_details]
  by auto

text \<open>C19. Reverse shell: once an install process has opened a connection, duplicating a descriptor kills it exactly
  when the target is its standard input, output or error. What \<^verbatim>\<open>/proc\<close> says about the
  duplicated descriptor makes no difference, also when it resolves to something that is not a socket; the
  comment in the source means the recorded connection to count only when the lookup in
  \<^verbatim>\<open>/proc\<close> fails.\<close>

theorem reverse_shell_killed:
  assumes "timed e" "find_live (process_map e) (hdr_pid h) = Some (k, s)" "is_install_context s"
    and "network_connect w h d e = Some e1" "hdr_pid h' = hdr_pid h"
  shows "\<exists>e'. dup2 w' h' d' e1 = Some e' \<and>
    kill_if (sint (du_new_fd d') \<in> {0, 1, 2}) w' (hdr_pid h) e1 e'"
proof -
  obtain e' where e': "network_connect w h d e = Some e'" "timed e'"
    "find_live (process_map e') (hdr_pid h) = Some (k, note_connect s)"
    by (rule network_connect_timed [OF assms(1,2)])
  then have e1: "timed e1" "find_live (process_map e1) (hdr_pid h) = Some (k, note_connect s)"
    using assms(4) by simp_all
  have "is_install_context (note_connect s)" using assms(3) by (simp add: note_connect_def)
  then show ?thesis
    using kill_if_fires [OF e1] e1(2) assms(5)
    by (cases "sint (du_new_fd d') \<in> {0, 1, 2}") (auto simp: dup2_def old_fd_is_socket_def Let_def kill_if_def)
qed

definition dup_details :: dup2_details where
  "dup_details = \<lparr>du_old_fd = 3, du_new_fd = 0, du_old_fd_type = 0\<rparr>"

text \<open>Here \<^verbatim>\<open>/proc\<close> shows a regular file behind the descriptor.\<close>

theorem reverse_shell_killed_witness:
  "\<exists>e1 e'. network_connect quiet_env (sample_header NetworkConnect) connect_details
      (sample_engine quiet_config None (sample_process ''/bin/sh'' True)) = Some e1 \<and>
    dup2 (quiet_env\<lparr>proc_fd := (\<lambda>_ _. Some ''/tmp/log'')\<rparr>) (sample_header Dup2) dup_details e1 = Some e' \<and>
    kill_if True quiet_env 7 e1 e'"
proof -
  obtain e1 where "network_connect quiet_env (sample_header NetworkConnect) connect_details
      (sample_engine quiet_config None (sample_process ''/bin/sh'' True)) = Some e1"
    by (rule network_connect_timed [of "sample_engine quiet_config None (sample_process ''/bin/sh'' True)"
        "sample_header NetworkConnect" sample_key "sample_process ''/bin/sh'' True" quiet_env
        connect_details]) simp_all
  then show ?thesis
    using reverse_shell_killed [of "sample_engine quiet_config None (sample_process ''/bin/sh'' True)"
        "sample_header NetworkConnect" sample_key "sample_process ''/bin/sh'' True" quiet_env
        connect_details e1 "sample_header Dup2" "quiet_env\<lparr>proc_fd := (\<lambda>_ _. Some ''/tmp/log'')\<rparr>" dup_details]
    by (auto simp: dup_details_def kill_if_def)
qed

end
