(* ===== verification/Lifecycle.thy ===== *)
theory Lifecycle
  imports Containment
begin

section \<open>The life of a process\<close>

text \<open>
  \<^verbatim>\<open>process_create\<close> (Unix), split at the source's steps: the trust verdict from the path,
  the configuration and the desktop session; the demotion of scripts; the install context inherited
  from the real parent; registration, with the alert for a spoofed parent; the YARA task and
  the Sigma check. Then \<^verbatim>\<open>process_stop\<close> with its delayed sweep, the periodic purge, and
  the background tasks.
\<close>

subsection \<open>Trust verdict\<close>

definition is_anonymous_exec :: "string \<Rightarrow> bool" where
  "is_anonymous_exec path \<longleftrightarrow>
     path = '''' \<or> starts_with path ''/proc/self/fd/'' \<or>
     (starts_with path ''/proc/'' \<and> contains path ''/fd/'') \<or> starts_with path ''memfd:''"

definition is_volatile_path :: "string \<Rightarrow> bool" where
  "is_volatile_path path \<longleftrightarrow> starts_with path ''/tmp/'' \<or> starts_with path ''/dev/shm/''"

text \<open>The signer is a constant of the source, not read from the executable.\<close>

definition assumed_signer :: signer_info where
  "assumed_signer = \<lparr>signer_name = ''Google LLC'', team_id = Some ''EQHXZ8M8AV'', is_signed = True\<rparr>"

definition path_untrusted :: "config \<Rightarrow> string \<Rightarrow> bool" where
  "path_untrusted cfg path =
     (let u0 = is_volatile_path path \<or> is_anonymous_exec path;
          u1 = (if is_path_excluded cfg path then False else u0)
      in if is_trusted_vendor cfg assumed_signer then False else u1)"

definition is_gui_app :: "config \<Rightarrow> string \<Rightarrow> bool" where
  "is_gui_app cfg path \<longleftrightarrow>
     list_ex (\<lambda>app. let app_lower = to_lowercase app in
        if starts_with app_lower ''/'' then ends_with path app_lower else contains path app_lower)
       (hvnc_monitored_gui_apps cfg)"

definition display_mismatch :: "string option \<Rightarrow> string option \<Rightarrow> bool" where
  "display_mismatch active child =
     (case (active, child) of
        (Some a, Some c) \<Rightarrow> a \<noteq> c
      | (None, Some c) \<Rightarrow> contains c ''99'' \<or> contains c ''1''
      | _ \<Rightarrow> False)"

definition wayland_mismatch :: "string option \<Rightarrow> string option \<Rightarrow> bool" where
  "wayland_mismatch active child =
     (case (active, child) of (Some a, Some c) \<Rightarrow> a \<noteq> c | _ \<Rightarrow> False)"

definition is_display_hijack :: "env \<Rightarrow> config \<Rightarrow> u32 \<Rightarrow> string \<Rightarrow> bool" where
  "is_display_hijack w cfg child_pid path \<longleftrightarrow>
     is_gui_app cfg path \<and>
     (let (active_display, active_wayland) =
            (case get_active_session_context w cfg of
               None \<Rightarrow> (None, None) | Some c \<Rightarrow> (sc_display c, sc_wayland_display c))
      in display_mismatch active_display (get_process_env w child_pid ''DISPLAY'') \<or>
         wayland_mismatch active_wayland (get_process_env w child_pid ''WAYLAND_DISPLAY''))"

subsection \<open>Scripts and shells\<close>

definition matches_interpreter :: "config \<Rightarrow> string \<Rightarrow> bool" where
  "matches_interpreter cfg path \<longleftrightarrow>
     list_ex (\<lambda>i. contains (to_lowercase path) (to_lowercase i)) (script_interpreters cfg)"

definition matches_shell :: "config \<Rightarrow> string \<Rightarrow> bool" where
  "matches_shell cfg path \<longleftrightarrow>
     list_ex (\<lambda>s. ends_with (to_lowercase path) (to_lowercase s) \<or>
        contains (to_lowercase path) ''powershell'' \<or> contains (to_lowercase path) ''pwsh'')
       (interactive_shells cfg)"

definition is_stdin_tty :: "env \<Rightarrow> u32 \<Rightarrow> bool" where
  "is_stdin_tty w pid =
     (case proc_fd w pid 0 of
        None \<Rightarrow> False | Some t \<Rightarrow> starts_with t ''/dev/pts/'' \<or> starts_with t ''/dev/tty'')"

definition has_inline_flags :: "string \<Rightarrow> bool" where
  "has_inline_flags cmd \<longleftrightarrow>
     contains cmd '' -c'' \<or> contains cmd '' -e'' \<or> contains cmd '' -r'' \<or>
     contains cmd '' --eval'' \<or> contains cmd '' -Command''"

definition is_demoted_script :: "env \<Rightarrow> config \<Rightarrow> u32 \<Rightarrow> string \<Rightarrow> string \<Rightarrow> bool" where
  "is_demoted_script w cfg pid path cmd \<longleftrightarrow>
     (matches_interpreter cfg path \<or> matches_shell cfg path) \<and>
     (has_inline_flags cmd \<or> \<not> is_stdin_tty w pid)"

definition naked_tty :: "env \<Rightarrow> config \<Rightarrow> u32 \<Rightarrow> string \<Rightarrow> string \<Rightarrow> bool" where
  "naked_tty w cfg pid path cmd \<longleftrightarrow>
     matches_shell cfg path \<and> is_stdin_tty w pid \<and> \<not> has_inline_flags cmd"

definition create_untrusted :: "env \<Rightarrow> config \<Rightarrow> u32 \<Rightarrow> string \<Rightarrow> string \<Rightarrow> bool" where
  "create_untrusted w cfg pid path cmd \<longleftrightarrow>
     path_untrusted cfg path \<or> is_display_hijack w cfg pid path \<or>
     is_demoted_script w cfg pid path cmd"

subsection \<open>Install context\<close>

text \<open>Is the live real parent in install context, under which root, and at what depth is the child?\<close>

definition parent_context :: "process_map \<Rightarrow> u32 \<Rightarrow> bool \<times> u32 \<times> u32" where
  "parent_context pm real_parent =
     (case find_live pm real_parent of
        None \<Rightarrow> (False, 0, 0)
      | Some (_, s) \<Rightarrow> (is_install_context s, install_root_pid s, depth s + 1))"

definition is_installer :: "config \<Rightarrow> string \<Rightarrow> bool" where
  "is_installer cfg path \<longleftrightarrow>
     list_ex (\<lambda>kw. let p = to_lowercase path; k = to_lowercase kw in
        p = k \<or> ends_with p (CHR ''/'' # k) \<or> ends_with p (CHR 0x5C # k))
       (installer_binaries cfg)"

definition new_process_state ::
  "env \<Rightarrow> config \<Rightarrow> process_map \<Rightarrow> telemetry_header \<Rightarrow> process_create_details \<Rightarrow> process_state" where
  "new_process_state w cfg pm h d =
     (let child_pid = pc_child_pid d;
          path = cstr (pc_child_image_path d);
          cmd = cstr (pc_child_command_line d);
          (is_parent_install, install_root, dep) = parent_context pm (pc_real_parent_pid d);
          is_child_install = is_installer cfg path;
          is_top_level = is_child_install \<and> \<not> is_parent_install
      in \<lparr>ps_key = \<lparr>pk_pid = child_pid, pk_start_time = timestamp_ns h\<rparr>,
          ppid = hdr_pid h,
          real_parent_pid = pc_real_parent_pid d,
          image_path = path,
          command_line = cmd,
          category_flags = 0,
          pending_network_connect = False,
          terminated = False,
          ttl_deadline = None,
          is_naked_tty = naked_tty w cfg child_pid path cmd,
          is_untrusted = create_untrusted w cfg child_pid path cmd,
          is_install_context = is_child_install \<or> is_parent_install,
          is_top_level_install = is_top_level,
          install_root_pid = (if is_top_level then child_pid else install_root),
          depth = dep,
          unique_files_read = []\<rparr>)"

subsection \<open>Registration\<close>

definition ghosting_message :: "u32 \<Rightarrow> string \<Rightarrow> string" where
  "ghosting_message pid path =
     ''Process PID '' @ show_nat (unat pid) @ '' executed from anonymous/memfd region '' @ [CHR 0x27] @
     path @ [CHR 0x27] @ '' '' @ map char_of [0xE2, 0x80, 0x94 :: nat] @ '' possible process ghosting''"

definition alert_anonymous_exec :: "env \<Rightarrow> u32 \<Rightarrow> string \<Rightarrow> engine \<Rightarrow> engine" where
  "alert_anonymous_exec w pid path e =
     (if is_anonymous_exec path then
        write_structured_alert w pid ''ALERT'' ''anonymous_exec'' path ''LOGGED''
          (ghosting_message pid path) e
      else e)"

definition spoof_message :: "process_state \<Rightarrow> string" where
  "spoof_message s =
     ''PPID spoofing detected: PID '' @ show_nat (unat (pk_pid (ps_key s))) @
     '' claims parent PID '' @ show_nat (unat (ppid s)) @
     '' but real kernel creator is PID '' @ show_nat (unat (real_parent_pid s))"

text \<open>A parent other than the real creator: demoted and reported (before the process is in the
  table).\<close>

definition is_spoofed :: "process_state \<Rightarrow> bool" where
  "is_spoofed s \<longleftrightarrow> real_parent_pid s \<noteq> ppid s"

definition check_spoof :: "env \<Rightarrow> process_state \<Rightarrow> engine \<Rightarrow> process_state \<times> engine" where
  "check_spoof w s e =
     (if is_spoofed s then
        (s\<lparr>is_untrusted := True\<rparr>,
         write_structured_alert w (pk_pid (ps_key s)) ''ALERT'' ''ppid_spoof'' ''''
           (if audit_mode e then ''LOGGED'' else ''CONTAINED'') (spoof_message s) e)
      else (s, e))"

definition add_child :: "process_key \<Rightarrow> process_key \<Rightarrow> children_map \<Rightarrow> children_map" where
  "add_child parent child cm = dm_put parent (hs_insert child (children_of cm parent)) cm"

lemma children_grow_add [simp]: "children_grow cm (add_child p c cm)"
  by (auto simp: children_grow_def add_child_def children_of_def dm.get_put split: option.split)

definition register_process :: "env \<Rightarrow> u32 \<Rightarrow> process_state \<Rightarrow> engine \<Rightarrow> engine" where
  "register_process w parent_pid s e =
     e\<lparr>process_map := rehash w (dm_put (ps_key s) s (process_map e)),
       children_map := add_child \<lparr>pk_pid = parent_pid, pk_start_time = 0\<rparr> (ps_key s)
         (children_map e)\<rparr>"

definition creation_event :: "env \<Rightarrow> u32 \<Rightarrow> string \<Rightarrow> string \<Rightarrow> sigma_event" where
  "creation_event w parent_pid path cmd =
     \<lparr>ev_category = ''process_creation'',
      ev_fields = (''Image'', path) # (''CommandLine'', cmd) #
        (case proc_exe w parent_pid of None \<Rightarrow> [] | Some p \<Rightarrow> [(''ParentImage'', p)])\<rparr>"

definition sigma_check :: "env \<Rightarrow> u32 \<Rightarrow> process_key \<Rightarrow> string \<Rightarrow> string \<Rightarrow> engine \<Rightarrow> engine option" where
  "sigma_check w parent_pid key path cmd e =
     (case evaluate (sigma_rules e) (creation_event w parent_pid path cmd) of
        None \<Rightarrow> Some e
      | Some rule \<Rightarrow>
          suspend_process_tree w key (''Sigma correlation matched: '' @ rule_title rule)
            ''sigma_alert'' path e)"

definition process_create ::
  "env \<Rightarrow> telemetry_header \<Rightarrow> process_create_details \<Rightarrow> engine \<Rightarrow> engine option" where
  "process_create w h d e =
     (let path = cstr (pc_child_image_path d);
          cmd = cstr (pc_child_command_line d);
          e1 = alert_anonymous_exec w (pc_child_pid d) path e;
          s = new_process_state w (config_cell e1) (process_map e1) h d;
          e2 = e1\<lparr>ffi_log := ffi_log e1 @ [UpdateProcessThreshold (pc_child_pid d) (timestamp_ns h) 1]\<rparr>;
          (s', e3) = check_spoof w s e2;
          e4 = register_process w (hdr_pid h) s' e3;
          e5 = (if is_untrusted s then e4\<lparr>tasks := tasks e4 @ [YaraScan (ps_key s) path]\<rparr> else e4)
      in sigma_check w (hdr_pid h) (ps_key s) path cmd e5)"

subsection \<open>Stopping\<close>

definition stop_all :: "int \<Rightarrow> u32 \<Rightarrow> process_map \<Rightarrow> process_map" where
  "stop_all now pid pm =
     map (\<lambda>(k, s). (k, if pk_pid k = pid \<and> \<not> terminated s then stop_entry now s else s)) pm"

text \<open>The loop that marks the entries changes the table it iterates over: \<^verbatim>\<open>drop(entry)\<close>, then
  \<^verbatim>\<open>get_mut\<close>. An iterator that clings to the shard of the entry makes the first such call wait
  for the thread itself.\<close>

definition process_stop :: "env \<Rightarrow> telemetry_header \<Rightarrow> engine \<Rightarrow> engine option" where
  "process_stop w h e =
     (case find_live (process_map e) (hdr_pid h) of
        Some (key, s) \<Rightarrow>
          if is_top_level_install s then Some (spawn_task w (OrphanSweep key) e)
          else if iterator_clings w then Some (e\<lparr>consumer_blocked := True\<rparr>)
          else Some (e\<lparr>process_map := stop_all (clock w) (hdr_pid h) (process_map e)\<rparr>)
      | None \<Rightarrow> Some e)"

definition orphan_message :: string where
  "orphan_message =
     ''Process continued running after package installation completed. Terminated process.''"

definition sweep_child :: "env \<Rightarrow> u32 \<Rightarrow> engine \<Rightarrow> engine" where
  "sweep_child w child_pid e =
     (case find_live (process_map e) child_pid of
        None \<Rightarrow> e
      | Some (ck, s) \<Rightarrow>
          let e1 = e\<lparr>process_map := dm_alter ck (stop_entry (clock w)) (process_map e)\<rparr> in
          if image_path s = '''' then e1
          else
            let e2 = (if audit_mode e1 then e1 else terminate_process child_pid e1) in
            e2\<lparr>alerts := alerts e2 @ [\<lparr>
               al_ts = clock w, al_severity = ''CRITICAL'', al_category = ''persistence_path'',
               al_rule_path = '''',
               al_process = \<lparr>pi_pid = child_pid, pi_ppid = ppid s, pi_exe = image_path s,
                 pi_cmdline = command_line s, pi_env = []\<rparr>,
               al_action = ''TERMINATED'', al_message = orphan_message\<rparr>]\<rparr>)"

definition orphan_sweep :: "env \<Rightarrow> process_key \<Rightarrow> engine \<Rightarrow> engine option" where
  "orphan_sweep w key e =
     (case collect_descendants_static (children_map e) key of
        None \<Rightarrow> None
      | Some pids_to_kill \<Rightarrow>
          let e1 = fold (sweep_child w) pids_to_kill e
          in Some (e1\<lparr>process_map := dm_alter key (stop_entry (clock w)) (process_map e1)\<rparr>))"

definition purge_expired_states :: "env \<Rightarrow> engine \<Rightarrow> engine" where
  "purge_expired_states w e =
     e\<lparr>process_map := dm_retain
         (\<lambda>s. case ttl_deadline s of None \<Rightarrow> True | Some deadline \<Rightarrow> \<not> deadline < clock w)
         (process_map e)\<rparr>"

subsection \<open>Background tasks\<close>

definition yara_task :: "env \<Rightarrow> process_key \<Rightarrow> string \<Rightarrow> engine \<Rightarrow> engine option" where
  "yara_task w key path e =
     (let (bad, y) = scan_file w path (yara e); e1 = e\<lparr>yara := y\<rparr>
      in if bad then
           suspend_process_tree w key ''YARA rule matched on execution'' ''malware_pattern'' path e1
         else Some e1)"

fun run_task :: "env \<Rightarrow> task \<Rightarrow> engine \<Rightarrow> engine option" where
  "run_task w (YaraScan key path) e = yara_task w key path e"
| "run_task w (DesktopPrompt key path reason) e = run_desktop_prompt w key path reason e"
| "run_task w (OrphanSweep key) e = orphan_sweep w key e"

subsection \<open>The operations keep the contract\<close>

lemma new_process_state_simps [simp]:
  "ps_key (new_process_state w cfg pm h d) =
     \<lparr>pk_pid = pc_child_pid d, pk_start_time = timestamp_ns h\<rparr>"
  "ppid (new_process_state w cfg pm h d) = hdr_pid h"
  "real_parent_pid (new_process_state w cfg pm h d) = pc_real_parent_pid d"
  "image_path (new_process_state w cfg pm h d) = cstr (pc_child_image_path d)"
  "command_line (new_process_state w cfg pm h d) = cstr (pc_child_command_line d)"
  "category_flags (new_process_state w cfg pm h d) = 0"
  "\<not> pending_network_connect (new_process_state w cfg pm h d)"
  "\<not> terminated (new_process_state w cfg pm h d)"
  "ttl_deadline (new_process_state w cfg pm h d) = None"
  "is_untrusted (new_process_state w cfg pm h d) =
     create_untrusted w cfg (pc_child_pid d) (cstr (pc_child_image_path d))
       (cstr (pc_child_command_line d))"
  "unique_files_read (new_process_state w cfg pm h d) = []"
  by (simp_all add: new_process_state_def Let_def split: prod.split)

lemma new_process_install:
  "parent_context pm (pc_real_parent_pid d) = (parent_install, root, dep) \<Longrightarrow>
   is_install_context (new_process_state w cfg pm h d) =
     (is_installer cfg (cstr (pc_child_image_path d)) \<or> parent_install) \<and>
   is_top_level_install (new_process_state w cfg pm h d) =
     (is_installer cfg (cstr (pc_child_image_path d)) \<and> \<not> parent_install) \<and>
   install_root_pid (new_process_state w cfg pm h d) =
     (if is_installer cfg (cstr (pc_child_image_path d)) \<and> \<not> parent_install
      then pc_child_pid d else root) \<and>
   depth (new_process_state w cfg pm h d) = dep"
  by (simp add: new_process_state_def Let_def)

lemma entry_ok_new:
  "entry_ok \<lparr>pk_pid = pc_child_pid d, pk_start_time = timestamp_ns h\<rparr>
     (new_process_state w cfg pm h d)"
  by (simp add: entry_ok_def) (simp add: new_process_state_def Let_def split: prod.split)

lemma entry_ok_demote: "entry_ok k (s\<lparr>is_untrusted := b\<rparr>) = entry_ok k s"
  by (simp add: entry_ok_def)

lemma check_spoof_eq:
  "check_spoof w s e =
     (if is_spoofed s then s\<lparr>is_untrusted := True\<rparr> else s,
      if is_spoofed s then write_structured_alert w (pk_pid (ps_key s)) ''ALERT'' ''ppid_spoof'' ''''
        (if audit_mode e then ''LOGGED'' else ''CONTAINED'') (spoof_message s) e else e)"
  by (simp add: check_spoof_def)

lemma alert_anonymous_simps [simp]:
  "process_map (alert_anonymous_exec w pid path e) = process_map e"
  "children_map (alert_anonymous_exec w pid path e) = children_map e"
  "config_cell (alert_anonymous_exec w pid path e) = config_cell e"
  "audit_mode (alert_anonymous_exec w pid path e) = audit_mode e"
  "sigma_rules (alert_anonymous_exec w pid path e) = sigma_rules e"
  "tasks (alert_anonymous_exec w pid path e) = tasks e"
  "signals (alert_anonymous_exec w pid path e) = signals e"
  "ffi_log (alert_anonymous_exec w pid path e) = ffi_log e"
  "consumer_panicked (alert_anonymous_exec w pid path e) = consumer_panicked e"
  "consumer_blocked (alert_anonymous_exec w pid path e) = consumer_blocked e"
  by (simp_all add: alert_anonymous_exec_def)

lemma entries_ok_put:
  "entries_ok pm \<Longrightarrow> entry_ok k s \<Longrightarrow> entries_ok (dm_put k s pm)"
  by (auto simp: entries_ok_def dm.ok_put dest!: set_mp [OF set_dm_put_subset])

lemma entries_ok_rehash: "env_ok w \<Longrightarrow> entries_ok (rehash w pm) = entries_ok pm"
  by (simp add: entries_ok_def dm_ok_rehash set_rehash)

lemma children_of_mem: "c \<in> set (children_of cm k) \<Longrightarrow> (k, children_of cm k) \<in> set cm"
  by (auto simp: children_of_def dest!: dm_get_mem split: option.splits)

lemma children_ok_add:
  assumes "children_ok cm" "pk_start_time k = 0"
  shows "children_ok (add_child k c cm)"
proof -
  have "distinct (children_of cm k)"
    using assms by (auto simp: children_of_def children_ok_def dest!: dm_get_mem split: option.splits)
  then show ?thesis
    using assms unfolding add_child_def children_ok_def
    by (auto simp: dm.ok_put dest!: set_mp [OF set_dm_put_subset])
qed

text \<open>The state as \<^verbatim>\<open>process_create\<close> leaves it before the Sigma check: alert, threshold,
  parent check, registration and the scan task; and the entry it stores.\<close>

definition created_state :: "env \<Rightarrow> telemetry_header \<Rightarrow> process_create_details \<Rightarrow> engine \<Rightarrow> process_state" where
  "created_state w h d e = new_process_state w (config_cell e) (process_map e) h d"

definition stored_state :: "env \<Rightarrow> telemetry_header \<Rightarrow> process_create_details \<Rightarrow> engine \<Rightarrow> process_state" where
  "stored_state w h d e =
     (let s = created_state w h d e in if is_spoofed s then s\<lparr>is_untrusted := True\<rparr> else s)"

definition create_entry :: "env \<Rightarrow> telemetry_header \<Rightarrow> process_create_details \<Rightarrow> engine \<Rightarrow> engine" where
  "create_entry w h d e =
     (let path = cstr (pc_child_image_path d);
          e1 = alert_anonymous_exec w (pc_child_pid d) path e;
          s = created_state w h d e;
          e2 = e1\<lparr>ffi_log := ffi_log e1 @ [UpdateProcessThreshold (pc_child_pid d) (timestamp_ns h) 1]\<rparr>;
          (s', e3) = check_spoof w s e2;
          e4 = register_process w (hdr_pid h) s' e3
      in if is_untrusted s then e4\<lparr>tasks := tasks e4 @ [YaraScan (ps_key s) path]\<rparr> else e4)"

lemma created_state_simps [simp]:
  "ps_key (created_state w h d e) = \<lparr>pk_pid = pc_child_pid d, pk_start_time = timestamp_ns h\<rparr>"
  by (simp add: created_state_def)

lemma process_create_eq:
  "process_create w h d e =
     sigma_check w (hdr_pid h) \<lparr>pk_pid = pc_child_pid d, pk_start_time = timestamp_ns h\<rparr>
       (cstr (pc_child_image_path d)) (cstr (pc_child_command_line d)) (create_entry w h d e)"
  by (simp add: process_create_def create_entry_def created_state_def check_spoof_eq Let_def)

lemma create_entry_simps [simp]:
  "process_map (create_entry w h d e) =
     rehash w (dm_put \<lparr>pk_pid = pc_child_pid d, pk_start_time = timestamp_ns h\<rparr>
       (stored_state w h d e) (process_map e))"
  "children_map (create_entry w h d e) =
     add_child \<lparr>pk_pid = hdr_pid h, pk_start_time = 0\<rparr>
       \<lparr>pk_pid = pc_child_pid d, pk_start_time = timestamp_ns h\<rparr> (children_map e)"
  "config_cell (create_entry w h d e) = config_cell e"
  "audit_mode (create_entry w h d e) = audit_mode e"
  "sigma_rules (create_entry w h d e) = sigma_rules e"
  "signals (create_entry w h d e) = signals e"
  "tasks (create_entry w h d e) = tasks e @
     (if is_untrusted (created_state w h d e)
      then [YaraScan \<lparr>pk_pid = pc_child_pid d, pk_start_time = timestamp_ns h\<rparr>
              (cstr (pc_child_image_path d))] else [])"
  "consumer_panicked (create_entry w h d e) = consumer_panicked e"
  "consumer_blocked (create_entry w h d e) = consumer_blocked e"
  "ffi_log (create_entry w h d e) =
     ffi_log e @ [UpdateProcessThreshold (pc_child_pid d) (timestamp_ns h) 1]"
  by (simp_all add: create_entry_def stored_state_def check_spoof_eq register_process_def Let_def)

lemma create_entry_alerts: "prefix (alerts e) (alerts (create_entry w h d e))"
  by (simp add: create_entry_def check_spoof_eq register_process_def Let_def alert_anonymous_exec_def)

lemma entry_ok_stored:
  "entry_ok \<lparr>pk_pid = pc_child_pid d, pk_start_time = timestamp_ns h\<rparr> (stored_state w h d e)"
  by (simp add: stored_state_def created_state_def entry_ok_new entry_ok_demote Let_def)

lemma create_entry_base: "env_ok w \<Longrightarrow> base_ok e (create_entry w h d e)"
  by (simp add: contract_defs entries_ok_rehash entries_ok_put entry_ok_stored children_ok_add
      create_entry_alerts)

lemma create_entry_silent: "silent e (create_entry w h d e)"
  by (auto simp: contract_defs)

lemma timed_add_child:
  assumes "\<forall>(k, cs) \<in> set cm. pk_start_time k = 0 \<and> (\<forall>c \<in> set cs. pk_start_time c \<noteq> 0)"
    and "pk_start_time k = 0" "pk_start_time c \<noteq> 0"
  shows "\<forall>(k, cs) \<in> set (add_child k c cm). pk_start_time k = 0 \<and> (\<forall>c \<in> set cs. pk_start_time c \<noteq> 0)"
proof -
  have "\<forall>c \<in> set (children_of cm k). pk_start_time c \<noteq> 0"
    using assms(1) by (auto dest: children_of_mem)
  then show ?thesis
    using assms unfolding add_child_def
    by (auto dest!: set_mp [OF set_dm_put_subset])
qed

lemma create_entry_timed:
  assumes "env_ok w" "timestamp_ns h \<noteq> 0" "timed e"
  shows "timed (create_entry w h d e)"
  unfolding timed_def
proof (intro conjI)
  show "\<forall>(k, s) \<in> set (process_map (create_entry w h d e)). pk_start_time k \<noteq> 0"
    using assms by (auto simp: set_rehash timed_def dest!: set_mp [OF set_dm_put_subset])
  show "\<forall>(k, cs) \<in> set (children_map (create_entry w h d e)).
      pk_start_time k = 0 \<and> (\<forall>c \<in> set cs. pk_start_time c \<noteq> 0)"
    unfolding create_entry_simps
    by (rule timed_add_child) (use assms in \<open>simp_all add: timed_def\<close>)
  show "\<forall>t \<in> set (tasks (create_entry w h d e)). pk_start_time (task_key t) \<noteq> 0"
    using assms by (auto simp: timed_def)
qed

lemma process_create_lawful: "env_ok w \<Longrightarrow> lawful e (process_create w h d e)"
  by (auto simp: process_create_eq sigma_check_def create_entry_base create_entry_silent
      intro!: lawful_suspend_after lawful_Some split: option.split)

lemma process_create_returns:
  "env_ok w \<Longrightarrow> timestamp_ns h \<noteq> 0 \<Longrightarrow> timed e \<Longrightarrow> returns (process_create w h d e)"
  by (auto simp: process_create_eq sigma_check_def create_entry_timed intro!: returns_suspend
      split: option.split)

interpretation process_create: telemetry_op
  "\<lambda>(w, h, d). process_create w h d" "\<lambda>(w, h, d). env_ok w" "\<lambda>(w, h, d). timestamp_ns h \<noteq> 0"
  using process_create_lawful process_create_returns
  by unfold_locales (auto simp: lawful_def returns_def)

subsection \<open>Stopping, sweeping and purging keep the contract\<close>

lemma keys_stop_all [simp]: "map fst (stop_all now pid pm) = map fst pm"
  by (simp add: stop_all_def comp_def case_prod_beta)

lemma entries_ok_stop_all: "entries_ok pm \<Longrightarrow> entries_ok (stop_all now pid pm)"
  unfolding entries_ok_def dm_ok_def keys_stop_all by (auto simp: stop_all_def)

lemma base_stop_all: "base_ok e (e\<lparr>process_map := stop_all now pid (process_map e)\<rparr>)"
  by (simp add: contract_defs entries_ok_stop_all)

lemma timed_stop_all: "timed e \<Longrightarrow> timed (e\<lparr>process_map := stop_all now pid (process_map e)\<rparr>)"
  by (simp add: timed_change_map)

lemma process_stop_lawful: "lawful e (process_stop w h e)"
  by (auto simp: process_stop_def base_stop_all silent_change intro!: lawful_Some
      split: option.split) (auto simp: contract_defs)

lemma process_stop_returns: "timed e \<Longrightarrow> returns (process_stop w h e)"
  by (auto simp: process_stop_def timed_stop_all dest: timed_live_key split: option.split)
    (auto simp: timed_def dest!: find_live_SomeD)

interpretation process_stop: telemetry_op
  "\<lambda>(w, h). process_stop w h" "\<lambda>(w, h). env_ok w" "\<lambda>_. True"
  using process_stop_lawful process_stop_returns
  by unfold_locales (auto simp: lawful_def returns_def)

lemma sweep_child_base: "base_ok e (sweep_child w pid e)"
  by (auto simp: sweep_child_def Let_def contract_defs terminate_process_def entries_ok_alter
      split: option.splits)

lemma sweep_child_silent: "silent e (sweep_child w pid e)"
  by (auto simp: sweep_child_def Let_def contract_defs split: option.splits)

lemma fold_sweep: "base_ok e (fold (sweep_child w) pids e) \<and> silent e (fold (sweep_child w) pids e)"
proof (induction pids arbitrary: e)
  case (Cons p pids)
  let ?f = "sweep_child w p e"
  have f: "base_ok e ?f" "silent e ?f" by (rule sweep_child_base, rule sweep_child_silent)
  with Cons.IH [of ?f] show ?case
    by (auto simp: base_ok_audit intro: base_ok_trans silent_trans)
qed simp

lemma orphan_sweep_lawful: "lawful e (orphan_sweep w key e)"
proof (cases "collect_descendants_static (children_map e) key")
  case (Some pids)
  let ?f = "fold (sweep_child w) pids e"
  have f: "base_ok e ?f" "silent e ?f" by (simp_all add: fold_sweep)
  moreover have "base_ok ?f (?f\<lparr>process_map := dm_alter key (stop_entry (clock w)) (process_map ?f)\<rparr>)"
    by (rule base_alter) simp
  ultimately show ?thesis
    unfolding orphan_sweep_def Some Let_def option.case
    by (intro lawful_trans [OF f] lawful_Some silent_change) simp_all
qed (simp add: orphan_sweep_def lawful_def)

lemma orphan_sweep_returns: "timed e \<Longrightarrow> pk_start_time key \<noteq> 0 \<Longrightarrow> returns (orphan_sweep w key e)"
  by (simp add: orphan_sweep_def collect_static_eq timed_collect)

lemma entries_ok_retain: "entries_ok pm \<Longrightarrow> entries_ok (dm_retain p pm)"
  by (auto simp: entries_ok_def dm.ok_retain)

lemma purge_base: "base_ok e (purge_expired_states w e)"
  by (simp add: purge_expired_states_def contract_defs entries_ok_retain)

lemma purge_silent: "silent e (purge_expired_states w e)"
  by (simp add: purge_expired_states_def silent_change)

lemma purge_timed: "timed e \<Longrightarrow> timed (purge_expired_states w e)"
  by (auto simp: purge_expired_states_def timed_def)

subsection \<open>Background tasks keep the contract\<close>

lemma yara_task_lawful: "lawful e (yara_task w key path e)"
  by (auto simp: yara_task_def Let_def contract_defs split: prod.split
      intro!: lawful_suspend_after lawful_Some)

lemma yara_task_returns: "timed e \<Longrightarrow> pk_start_time key \<noteq> 0 \<Longrightarrow> returns (yara_task w key path e)"
  by (auto simp: yara_task_def Let_def timed_def split: prod.split intro!: returns_suspend)

lemma run_desktop_prompt_returns:
  "timed e \<Longrightarrow> pk_start_time key \<noteq> 0 \<Longrightarrow> returns (run_desktop_prompt w key path reason e)"
  by (simp add: run_desktop_prompt_def collect_static_eq timed_collect engine_simps Let_def
      timed_def timed_process_keys split: option.split)

interpretation run_task: engine_op "\<lambda>(w, t). run_task w t" "\<lambda>(w, t). env_ok w"
proof
  fix i e e' assume "case i of (w, t) \<Rightarrow> env_ok w" "(case i of (w, t) \<Rightarrow> run_task w t) e = Some e'"
  then show "base_ok e e'"
    using yara_task_lawful orphan_sweep_lawful
    by (cases i; cases "snd i") (auto simp: lawful_def dest: run_desktop_prompt_base)
qed

lemma run_task_lawful: "\<not> is_prompt t \<Longrightarrow> lawful e (run_task w t e)"
  by (cases t) (simp_all add: yara_task_lawful orphan_sweep_lawful)

lemma run_task_returns:
  "timed e \<Longrightarrow> pk_start_time (task_key t) \<noteq> 0 \<Longrightarrow> returns (run_task w t e)"
  by (cases t) (simp_all add: yara_task_returns orphan_sweep_returns run_desktop_prompt_returns)

interpretation scan_task: telemetry_op "\<lambda>(w, t). run_task w t"
  "\<lambda>(w, t). env_ok w \<and> \<not> is_prompt t" "\<lambda>(w, t). pk_start_time (task_key t) \<noteq> 0"
proof
  fix i e e' assume "case i of (w, t) \<Rightarrow> env_ok w \<and> \<not> is_prompt t"
    and "(case i of (w, t) \<Rightarrow> run_task w t) e = Some e'"
  then show "base_ok e e'" "silent e e'"
    by (auto split: prod.splits dest!: run_task_lawful [of _ e] simp: lawful_def)
next
  fix i e assume "case i of (w, t) \<Rightarrow> env_ok w \<and> \<not> is_prompt t"
    and "case i of (w, t) \<Rightarrow> pk_start_time (task_key t) \<noteq> 0" "timed e"
  then show "\<exists>e'. (case i of (w, t) \<Rightarrow> run_task w t) e = Some e' \<and> timed e'"
    using run_task_returns by (auto simp: returns_def split: prod.splits)
qed

subsection \<open>Properties of creation\<close>

abbreviation new_key :: "telemetry_header \<Rightarrow> process_create_details \<Rightarrow> process_key" where
  "new_key h d \<equiv> \<lparr>pk_pid = pc_child_pid d, pk_start_time = timestamp_ns h\<rparr>"

lemma sigma_check_frame:
  "sigma_check w p k path cmd e = Some e' \<Longrightarrow>
     process_map e' = process_map e \<and> children_map e' = children_map e"
  by (auto simp: sigma_check_def dest: suspend_frame split: option.splits)

lemma process_create_stores:
  assumes "env_ok w" "engine_inv e" "process_create w h d e = Some e'"
  shows "dm_get (process_map e') (new_key h d) = Some (stored_state w h d e)"
    and "k \<noteq> new_key h d \<Longrightarrow> dm_get (process_map e') k = dm_get (process_map e) k"
proof -
  have pm: "process_map e' = rehash w (dm_put (new_key h d) (stored_state w h d e) (process_map e))"
    using assms(3) by (auto simp: process_create_eq dest!: sigma_check_frame)
  have "dm_ok (dm_put (new_key h d) (stored_state w h d e) (process_map e))"
    using assms(2) by (simp add: engine_inv_def entries_ok_def dm.ok_put)
  then show "dm_get (process_map e') (new_key h d) = Some (stored_state w h d e)"
    and "k \<noteq> new_key h d \<Longrightarrow> dm_get (process_map e') k = dm_get (process_map e) k"
    by (simp_all add: pm dm_get_rehash [OF assms(1)] dm.get_put)
qed

lemma stored_state_install [simp]:
  "is_install_context (stored_state w h d e) = is_install_context (created_state w h d e)"
  "is_top_level_install (stored_state w h d e) = is_top_level_install (created_state w h d e)"
  "install_root_pid (stored_state w h d e) = install_root_pid (created_state w h d e)"
  "depth (stored_state w h d e) = depth (created_state w h d e)"
  "ps_key (stored_state w h d e) = new_key h d"
  by (simp_all add: stored_state_def Let_def)

lemma stored_untrusted:
  "is_untrusted (stored_state w h d e) \<longleftrightarrow>
     create_untrusted w (config_cell e) (pc_child_pid d) (cstr (pc_child_image_path d))
       (cstr (pc_child_command_line d)) \<or> pc_real_parent_pid d \<noteq> hdr_pid h"
  by (auto simp: stored_state_def created_state_def is_spoofed_def Let_def)

text \<open>C20. A process whose real creator is a live install process joins its installation whatever it
  runs: it is in install context, never a top-level installer, has the creator's root and
  is one level deeper (modulo the width of the counter). The claimed parent plays no part.\<close>

theorem install_context_inherited:
  assumes "env_ok w" "engine_inv e" "process_create w h d e = Some e'"
    and "find_live (process_map e) (pc_real_parent_pid d) = Some (k, s)" "is_install_context s"
  shows "\<exists>c. dm_get (process_map e') \<lparr>pk_pid = pc_child_pid d, pk_start_time = timestamp_ns h\<rparr> = Some c \<and>
    is_install_context c \<and> \<not> is_top_level_install c \<and>
    install_root_pid c = install_root_pid s \<and> depth c = depth s + 1"
proof -
  have "parent_context (process_map e) (pc_real_parent_pid d) =
      (True, install_root_pid s, depth s + 1)"
    using assms(4,5) by (simp add: parent_context_def)
  from new_process_install [OF this] show ?thesis
    using process_create_stores(1) [OF assms(1-3)] by (simp add: created_state_def)
qed

definition create_details :: "u32 \<Rightarrow> u32 \<Rightarrow> string \<Rightarrow> process_create_details" where
  "create_details child creator path =
     \<lparr>pc_child_pid = child, pc_real_parent_pid = creator, pc_child_image_path = pad_text 512 path,
      pc_child_command_line = pad_text 1024 path\<rparr>"

lemma create_details_simps [simp]:
  "pc_child_pid (create_details c r p) = c" "pc_real_parent_pid (create_details c r p) = r"
  "is_ascii_text p \<Longrightarrow> cstr (pc_child_image_path (create_details c r p)) = p"
  "is_ascii_text p \<Longrightarrow> cstr (pc_child_command_line (create_details c r p)) = p"
  by (simp_all add: create_details_def cstr_pad_text)

lemma process_create_sample:
  "\<exists>e'. process_create quiet_env (sample_header ProcessCreate) d (sample_engine cfg a s) = Some e'"
  using process_create_returns [of quiet_env "sample_header ProcessCreate" "sample_engine cfg a s" d]
  by (auto simp: returns_def)

theorem install_context_inherited_witness:
  "\<exists>e' c. process_create quiet_env (sample_header ProcessCreate) (create_details 8 7 ''/bin/sh'')
      (sample_engine quiet_config None (sample_process ''/usr/bin/npm'' True)) = Some e' \<and>
    dm_get (process_map e') \<lparr>pk_pid = 8, pk_start_time = 9\<rparr> = Some c \<and>
    install_root_pid c = 3 \<and> depth c = 2"
proof -
  obtain e' where e': "process_create quiet_env (sample_header ProcessCreate)
      (create_details 8 7 ''/bin/sh'')
      (sample_engine quiet_config None (sample_process ''/usr/bin/npm'' True)) = Some e'"
    using process_create_sample by blast
  from install_context_inherited [OF env_ok_quiet engine_inv_sample e', of sample_key
      "sample_process ''/usr/bin/npm'' True"] show ?thesis
    using e' by auto
qed

lemma find_pid_None_register:
  "find_pid (process_map e) pid = None \<Longrightarrow> 
     alert_process w pid e = \<lparr>pi_pid = pid, pi_ppid = 0, pi_exe = '''', pi_cmdline = '''', pi_env = []\<rparr>"
  by (simp add: alert_process_def)

lemma create_entry_spoof_alert:
  assumes "pc_real_parent_pid d \<noteq> hdr_pid h"
  shows "\<exists>a \<in> set (alerts (create_entry w h d e)).
    al_category a = ''ppid_spoof'' \<and>
    al_action a = (if audit_mode e then ''LOGGED'' else ''CONTAINED'') \<and>
    al_process a = alert_process w (pc_child_pid d) e"
proof -
  let ?s = "created_state w h d e"
  have sp: "is_spoofed ?s" using assms by (simp add: is_spoofed_def created_state_def)
  let ?e1 = "alert_anonymous_exec w (pc_child_pid d) (cstr (pc_child_image_path d)) e"
  let ?e2 = "?e1\<lparr>ffi_log := ffi_log ?e1 @ [UpdateProcessThreshold (pc_child_pid d) (timestamp_ns h) 1]\<rparr>"
  let ?e3 = "write_structured_alert w (pc_child_pid d) ''ALERT'' ''ppid_spoof'' ''''
    (if audit_mode ?e2 then ''LOGGED'' else ''CONTAINED'') (spoof_message ?s) ?e2"
  have "alerts (create_entry w h d e) = alerts ?e3"
    by (simp add: create_entry_def check_spoof_eq sp register_process_def Let_def)
  moreover have "alert_process w (pc_child_pid d) ?e2 = alert_process w (pc_child_pid d) e"
    by (simp add: alert_process_def)
  ultimately show ?thesis by (simp add: alerts_write_alert)
qed

text \<open>C23. A spoofed parent is reported before the process is in the table, and only reported: unless a
  Sigma rule fires, the alert says \<open>CONTAINED\<close> when the agent enforces, carries no path and
  no command line of the new process, and no process is stopped.\<close>

theorem spoof_alert_contains_nothing:
  assumes "env_ok w" "process_create w h d e = Some e'"
    and "pc_real_parent_pid d \<noteq> hdr_pid h" "\<not> audit_mode e" "find_pid (process_map e) (pc_child_pid d) = None"
    and "evaluate (sigma_rules e) (creation_event w (hdr_pid h) (cstr (pc_child_image_path d))
           (cstr (pc_child_command_line d))) = None"
  shows "signals e' = signals e \<and>
    (\<exists>a \<in> set (alerts e'). al_category a = ''ppid_spoof'' \<and> al_action a = ''CONTAINED'' \<and>
       pi_pid (al_process a) = pc_child_pid d \<and>
       pi_exe (al_process a) = '''' \<and> pi_cmdline (al_process a) = '''')"
proof -
  have e': "e' = create_entry w h d e"
    using assms(2,6) by (simp add: process_create_eq sigma_check_def)
  show ?thesis
    using create_entry_spoof_alert [OF assms(3), of w e] assms(4) find_pid_None_register [OF assms(5)]
    unfolding e' by auto
qed

theorem spoof_alert_contains_nothing_witness:
  "\<exists>e'. process_create quiet_env (sample_header ProcessCreate) (create_details 8 2 ''/bin/sh'')
      (sample_engine quiet_config None (sample_process ''/bin/bash'' False)) = Some e' \<and>
    signals e' = [] \<and> (\<exists>a \<in> set (alerts e'). al_action a = ''CONTAINED'' \<and> pi_exe (al_process a) = '''')"
proof -
  obtain e' where e': "process_create quiet_env (sample_header ProcessCreate)
      (create_details 8 2 ''/bin/sh'')
      (sample_engine quiet_config None (sample_process ''/bin/bash'' False)) = Some e'"
    using process_create_sample by blast
  from spoof_alert_contains_nothing [OF env_ok_quiet e'] show ?thesis
    using e' by (auto simp: find_pid_def)
qed

text \<open>The demotion of a spoofed process comes after the decision to scan it: the table holds it as
  untrusted, yet no scan is started unless its path or command line already made it untrusted.\<close>

theorem spoofed_process_not_scanned:
  assumes "env_ok w" "engine_inv e" "process_create w h d e = Some e'" "pc_real_parent_pid d \<noteq> hdr_pid h"
    and "\<not> create_untrusted w (config_cell e) (pc_child_pid d) (cstr (pc_child_image_path d))
           (cstr (pc_child_command_line d))"
  shows "(\<exists>c. dm_get (process_map e') \<lparr>pk_pid = pc_child_pid d, pk_start_time = timestamp_ns h\<rparr> = Some c \<and>
      is_untrusted c) \<and> (\<forall>k path. YaraScan k path \<in> set (tasks e') \<longrightarrow> YaraScan k path \<in> set (tasks e))"
proof -
  have "tasks (create_entry w h d e) = tasks e"
    using assms(5) by (simp add: created_state_def)
  then have "YaraScan k path \<in> set (tasks e') \<longrightarrow> YaraScan k path \<in> set (tasks e)" for k path
    using assms(3) by (auto simp: process_create_eq sigma_check_def suspend_process_tree_def
        Let_def engine_simps split: option.splits if_splits)
  then show ?thesis
    using process_create_stores(1) [OF assms(1-3)] assms(4) by (simp add: stored_untrusted)
qed

theorem spoofed_process_not_scanned_witness:
  "\<exists>e'. process_create quiet_env (sample_header ProcessCreate) (create_details 8 2 ''/bin/sh'')
      (sample_engine quiet_config None (sample_process ''/bin/bash'' False)) = Some e' \<and>
    (\<forall>k path. YaraScan k path \<notin> set (tasks e'))"
proof -
  obtain e' where e': "process_create quiet_env (sample_header ProcessCreate)
      (create_details 8 2 ''/bin/sh'')
      (sample_engine quiet_config None (sample_process ''/bin/bash'' False)) = Some e'"
    using process_create_sample by blast
  have "\<not> create_untrusted quiet_env quiet_config 8 ''/bin/sh'' ''/bin/sh''" by code_simp
  then have "\<not> create_untrusted quiet_env quiet_config 8
      (cstr (pc_child_image_path (create_details 8 2 ''/bin/sh'')))
      (cstr (pc_child_command_line (create_details 8 2 ''/bin/sh'')))"
    by (simp add: is_ascii_text_def)
  with spoofed_process_not_scanned [OF env_ok_quiet engine_inv_sample e'] show ?thesis
    using e' by auto
qed

text \<open>The signer is a constant of the code. If the rules trust that vendor, no path makes a process
  untrusted any more, a memory-only executable included: unless its display or its script
  form gives it away, it is neither scanned nor marked.\<close>

theorem trusted_vendor_hides_path:
  assumes "env_ok w" "engine_inv e" "process_create w h d e = Some e'"
    and "is_trusted_vendor (config_cell e) assumed_signer" "pc_real_parent_pid d = hdr_pid h"
    and "\<not> is_display_hijack w (config_cell e) (pc_child_pid d) (cstr (pc_child_image_path d))"
    and "\<not> is_demoted_script w (config_cell e) (pc_child_pid d) (cstr (pc_child_image_path d))
           (cstr (pc_child_command_line d))"
  shows "(\<exists>c. dm_get (process_map e') \<lparr>pk_pid = pc_child_pid d, pk_start_time = timestamp_ns h\<rparr> = Some c \<and>
      \<not> is_untrusted c) \<and> (\<forall>k path. YaraScan k path \<in> set (tasks e') \<longrightarrow> YaraScan k path \<in> set (tasks e))"
proof -
  have u: "\<not> create_untrusted w (config_cell e) (pc_child_pid d) (cstr (pc_child_image_path d))
      (cstr (pc_child_command_line d))"
    using assms(4,6,7) by (simp add: create_untrusted_def path_untrusted_def Let_def)
  then have "tasks (create_entry w h d e) = tasks e"
    by (simp add: created_state_def)
  then have "YaraScan k path \<in> set (tasks e') \<longrightarrow> YaraScan k path \<in> set (tasks e)" for k path
    using assms(3) by (auto simp: process_create_eq sigma_check_def suspend_process_tree_def
        Let_def engine_simps split: option.splits if_splits)
  then show ?thesis
    using process_create_stores(1) [OF assms(1-3)] u assms(5) by (simp add: stored_untrusted)
qed

definition vendor_config :: config where
  "vendor_config = quiet_config\<lparr>is_trusted_vendor := (\<lambda>s. signer_name s = ''Google LLC'')\<rparr>"

theorem trusted_vendor_hides_path_witness:
  "path_untrusted quiet_config ''memfd:x'' \<and>
   (\<exists>e'. process_create quiet_env (sample_header ProcessCreate) (create_details 8 7 ''memfd:x'')
      (sample_engine vendor_config None (sample_process ''/bin/bash'' False)) = Some e' \<and>
    (\<forall>k path. YaraScan k path \<notin> set (tasks e')))"
proof -
  obtain e' where e': "process_create quiet_env (sample_header ProcessCreate)
      (create_details 8 7 ''memfd:x'')
      (sample_engine vendor_config None (sample_process ''/bin/bash'' False)) = Some e'"
    using process_create_sample by blast
  have "path_untrusted quiet_config ''memfd:x''" by code_simp
  moreover have "is_trusted_vendor vendor_config assumed_signer" by code_simp
  moreover have "\<not> is_display_hijack quiet_env vendor_config 8 ''memfd:x''" by code_simp
  moreover have "\<not> is_demoted_script quiet_env vendor_config 8 ''memfd:x'' ''memfd:x''" by code_simp
  ultimately show ?thesis
    using trusted_vendor_hides_path [OF env_ok_quiet engine_inv_sample e'] e'
    by (auto simp: is_ascii_text_def)
qed

text \<open>A Sigma rule that matches the creation of a process stops the new process (with non-zero
  time stamps, and unless the agent only audits).\<close>

theorem sigma_match_stops:
  assumes "env_ok w" "timed e" "timestamp_ns h \<noteq> 0" "\<not> audit_mode e"
    and "evaluate (sigma_rules e) (creation_event w (hdr_pid h) (cstr (pc_child_image_path d))
           (cstr (pc_child_command_line d))) = Some rule"
  shows "\<exists>e'. process_create w h d e = Some e' \<and>
    signals e' = signals e @ [(SIGSTOP, sint (pc_child_pid d))]"
proof -
  have t: "timed (create_entry w h d e)" using assms(1-3) by (intro create_entry_timed)
  have k: "pk_start_time (new_key h d) \<noteq> 0" using assms(3) by simp
  show ?thesis
    by (rule suspend_timed [OF t k, of w "''Sigma correlation matched: '' @ rule_title rule"
          "''sigma_alert''" "cstr (pc_child_image_path d)"])
      (use assms(4,5) in \<open>simp add: process_create_eq sigma_check_def\<close>)
qed

subsection \<open>Properties of stopping, sweeping and purging\<close>

text \<open>The periodic purge removes exactly the terminated entries whose deadline has passed, and
  never changes what is found for a live process.\<close>

theorem purge_exact:
  assumes "engine_inv e"
  shows "dm_get (process_map (purge_expired_states w e)) k =
      (case dm_get (process_map e) k of None \<Rightarrow> None
       | Some s \<Rightarrow> if terminated s \<and> the (ttl_deadline s) < clock w then None else Some s) \<and>
    find_live (process_map (purge_expired_states w e)) pid = find_live (process_map e) pid"
proof -
  have ok: "entry_ok k s" if "(k, s) \<in> set (process_map e)" for k s
    using assms that by (auto simp: engine_inv_def entries_ok_def)
  have dm: "dm_ok (process_map e)" using assms by (simp add: engine_inv_def entries_ok_def)
  have pm: "process_map (purge_expired_states w e) =
      dm_retain (\<lambda>s. case ttl_deadline s of None \<Rightarrow> True | Some t \<Rightarrow> \<not> t < clock w) (process_map e)"
    by (simp add: purge_expired_states_def)
  have "find_live (process_map (purge_expired_states w e)) pid = find_live (process_map e) pid"
    unfolding pm by (rule find_live_retain) (auto dest: ok simp: entry_ok_def)
  moreover have "dm_get (process_map (purge_expired_states w e)) k =
      (case dm_get (process_map e) k of None \<Rightarrow> None
       | Some s \<Rightarrow> if terminated s \<and> the (ttl_deadline s) < clock w then None else Some s)"
  proof (cases "dm_get (process_map e) k")
    case None
    then show ?thesis by (simp add: purge_expired_states_def dm.get_retain [OF dm])
  next
    case (Some s)
    have "terminated s \<longleftrightarrow> ttl_deadline s \<noteq> None"
      using ok [OF dm_get_mem [OF Some]] by (simp add: entry_ok_def)
    then show ?thesis
      by (auto simp: purge_expired_states_def dm.get_retain [OF dm] Some split: option.splits)
  qed
  ultimately show ?thesis by simp
qed

theorem purge_exact_witness:
  "find_live (process_map (purge_expired_states quiet_env
      (sample_engine quiet_config None (sample_process ''/bin/sh'' False)))) 7 =
   Some (sample_key, sample_process ''/bin/sh'' False)"
  using purge_exact [OF engine_inv_sample [OF entry_ok_sample], of quiet_env quiet_config None
      "''/bin/sh''" False sample_key 7]
  by simp

lemma dm_get_stop_all:
  "dm_get (stop_all now pid pm) k =
     map_option (\<lambda>s. if pk_pid k = pid \<and> \<not> terminated s then stop_entry now s else s) (dm_get pm k)"
  by (induction pm) (auto simp: stop_all_def dm_get_def)

text \<open>Where an iterator gives up the shard of a dropped entry, the exit of a process that is no top-level
  installer marks every live entry of its PID as terminated; a purge drops the entry as soon as five
  minutes have passed, and not earlier.\<close>

theorem stop_then_purge:
  assumes "engine_inv e" "find_live (process_map e) (hdr_pid h) = Some (k, s)" "\<not> is_top_level_install s"
    and "\<not> iterator_clings w"
  shows "\<exists>e'. process_stop w h e = Some e' \<and> find_live (process_map e') (hdr_pid h) = None \<and>
    dm_get (process_map (purge_expired_states w' e')) k =
      (if clock w + five_minutes < clock w' then None else Some (stop_entry (clock w) s))"
proof -
  let ?e = "e\<lparr>process_map := stop_all (clock w) (hdr_pid h) (process_map e)\<rparr>"
  have dm: "dm_ok (process_map e)" using assms(1) by (simp add: engine_inv_def entries_ok_def)
  have r: "process_stop w h e = Some ?e" using assms(2-4) by (simp add: process_stop_def)
  have "dm_ok (process_map ?e)"
    using assms(1) entries_ok_stop_all by (auto simp: engine_inv_def entries_ok_def)
  moreover have "dm_get (process_map ?e) k = Some (stop_entry (clock w) s)"
    using find_live_get [OF dm assms(2)] find_live_SomeD [OF assms(2)]
    by (simp add: dm_get_stop_all)
  moreover have "find_live (process_map ?e) (hdr_pid h) = None"
    by (auto simp: find_live_None live_pids_def stop_all_def split: if_splits)
  ultimately show ?thesis
    using r by (auto simp: purge_expired_states_def dm.get_retain)
qed

theorem stop_then_purge_witness:
  "\<exists>e'. process_stop (quiet_env\<lparr>iterator_clings := False\<rparr>) (sample_header ProcessStop)
      (sample_engine quiet_config None (sample_process ''/bin/sh'' False)) = Some e' \<and>
    find_live (process_map e') 7 = None \<and>
    dm_get (process_map (purge_expired_states (quiet_env\<lparr>clock := 300000000001\<rparr>) e')) sample_key = None"
  using stop_then_purge [where e = "sample_engine quiet_config None (sample_process ''/bin/sh'' False)"
      and h = "sample_header ProcessStop" and k = sample_key
      and s = "sample_process ''/bin/sh'' False" and w = "quiet_env\<lparr>iterator_clings := False\<rparr>"
      and w' = "quiet_env\<lparr>clock := 300000000001\<rparr>"]
  by (auto simp: engine_inv_sample quiet_env_def five_minutes_def)

text \<open>The sweep after an installation kills nothing: with non-zero time stamps it only marks the
  installer itself as terminated, whatever its children still do.\<close>

theorem orphan_sweep_kills_nothing:
  assumes "timed e" "pk_start_time key \<noteq> 0"
  shows "orphan_sweep w key e =
    Some (e\<lparr>process_map := dm_alter key (stop_entry (clock w)) (process_map e)\<rparr>)"
  using assms by (simp add: orphan_sweep_def collect_static_eq timed_collect)

definition sample_family :: engine where
  "sample_family = (sample_engine quiet_config None (sample_process ''/usr/bin/npm'' True))\<lparr>
     children_map := [(\<lparr>pk_pid = 7, pk_start_time = 0\<rparr>, [\<lparr>pk_pid = 8, pk_start_time = 6\<rparr>])]\<rparr>"

lemma timed_family: "timed sample_family"
  by (simp add: sample_family_def timed_def)

subsection \<open>The desktop prompt\<close>

text \<open>A prompt that nobody can answer is a denial: when no dialog tool is installed, or the built-in
  default rules see no desktop session, the suspended process is killed, although the
  message of the code says it stays suspended.\<close>

theorem prompt_without_dialog_kills:
  assumes "timed e" "pk_start_time key \<noteq> 0"
    and "(\<forall>t \<in> set prompt_tools. \<not> tool_installed w t) \<or>
         get_active_session_context w (default_config w) = None"
  shows "run_desktop_prompt w key path reason e =
    Some (e\<lparr>signals := signals e @ [(SIGKILL, sint (pk_pid key))]\<rparr>)"
proof -
  have "\<not> trigger_desktop_prompt w (pk_pid key) path reason"
    using assms(3) by (auto simp: trigger_desktop_prompt_def split: option.splits dest: find_Some_mem)
  then show ?thesis
    using assms(1,2)
    by (simp add: run_desktop_prompt_def collect_static_eq timed_collect engine_simps signalled_def
        Let_def)
qed

theorem prompt_without_dialog_kills_witness:
  "\<exists>e'. run_desktop_prompt quiet_env sample_key ''/bin/x'' '''' sample_family = Some e' \<and>
     signals e' = [(SIGKILL, 7)]"
  using prompt_without_dialog_kills [OF timed_family, of sample_key quiet_env "''/bin/x''"]
  by (simp add: quiet_env_def sample_family_def)

text \<open>An allowed prompt resumes the process and forgets its threat: flags and recorded connection
  are cleared, and an executable that exists is registered as trusted.\<close>

theorem prompt_allowed_resumes:
  assumes "timed e" "pk_start_time key \<noteq> 0" "trigger_desktop_prompt w (pk_pid key) path reason" "dm_get (process_map e) key = Some s"
  shows "\<exists>e'. run_desktop_prompt w key path reason e = Some e' \<and>
    signals e' = signals e @ [(SIGCONT, sint (pk_pid key))] \<and>
    dm_get (process_map e') key = Some (s\<lparr>category_flags := 0, pending_network_connect := False\<rparr>) \<and>
    ffi_log e' = ffi_log e @
      (case file_inode w path of None \<Rightarrow> [] | Some ino \<Rightarrow> [AddTrustedExecInode ino 2])"
  using assms
  by (auto simp: run_desktop_prompt_def collect_static_eq timed_collect engine_simps signalled_def
      Let_def dm.get_alter clear_threat_def split: option.split)

end
