(* ===== verification/Dispatch.thy ===== *)
theory Dispatch
  imports FileRules BehaviourRules Lifecycle
begin

section \<open>Dispatching an event\<close>

text \<open>
  \<^verbatim>\<open>handle_event\<close>: the details buffer is reinterpreted by the event's kind and handed to
  the kind's handler. Kinds without a handler are ignored.
\<close>

definition handle_event :: "env \<Rightarrow> telemetry_event_raw \<Rightarrow> engine \<Rightarrow> engine option" where
  "handle_event w raw e =
     (let h = header raw; buf = details_buffer raw in
      case hdr_event_type h of
        ProcessCreate \<Rightarrow> process_create w h (dec_process_create_details buf) e
      | ProcessStop \<Rightarrow> process_stop w h e
      | FileRead \<Rightarrow> file_read w h (dec_file_read_details buf) e
      | FileWrite \<Rightarrow> file_write w h (dec_file_write_details buf) e
      | NetworkConnect \<Rightarrow> network_connect w h (dec_network_connect_details buf) e
      | FileOpen \<Rightarrow> file_open w h (dec_file_open_details buf) e
      | Dup2 \<Rightarrow> dup2 w h (dec_dup2_details buf) e
      | RegistryWrite \<Rightarrow> registry_write w h (dec_registry_write_details buf) e
      | ClipboardWrite \<Rightarrow> clipboard_write w h (dec_clipboard_write_details buf) e
      | PtraceAttach \<Rightarrow> ptrace_attach w h (dec_bpf_ptrace_attach_details buf) e
      | MemoryMap \<Rightarrow> memory_protect w h (dec_memory_map_bpf_details buf) False e
      | MemoryProtect \<Rightarrow> memory_protect w h (dec_memory_map_bpf_details buf) True e
      | ImageLoad \<Rightarrow> image_load w h (dec_bpf_image_load_details buf) e
      | _ \<Rightarrow> Some e)"

lemmas handlers_lawful = process_create_lawful process_stop_lawful file_read_lawful
  file_write_lawful network_connect_lawful file_open_lawful dup2_lawful registry_write_lawful
  ptrace_attach_lawful memory_protect_lawful image_load_lawful

lemmas handlers_returns = process_create_returns process_stop_returns file_read_returns
  file_write_returns network_connect_returns file_open_returns dup2_returns registry_write_returns
  ptrace_attach_returns memory_protect_returns image_load_returns

lemma handle_event_lawful: "env_ok w \<Longrightarrow> lawful e (handle_event w raw e)"
  by (cases "hdr_event_type (header raw)")
    (simp_all add: handle_event_def Let_def clipboard_write_def handlers_lawful)

lemma handle_event_returns:
  "env_ok w \<Longrightarrow> timestamp_ns (header raw) \<noteq> 0 \<Longrightarrow> timed e \<Longrightarrow> returns (handle_event w raw e)"
  by (cases "hdr_event_type (header raw)")
    (simp_all add: handle_event_def Let_def clipboard_write_def handlers_returns)

interpretation event: telemetry_op
  "\<lambda>(w, raw). handle_event w raw" "\<lambda>(w, raw). env_ok w" "\<lambda>(w, raw). timestamp_ns (header raw) \<noteq> 0"
  using handle_event_lawful handle_event_returns
  by unfold_locales (auto simp: lawful_def returns_def)

end
