(* ===== verification/Ipc.thy ===== *)
theory Ipc
  imports Wire DashMap
begin

section \<open>The telemetry and TTY sockets\<close>

text \<open>
  \<^verbatim>\<open>ipc.rs\<close> and the connection loop of \<^verbatim>\<open>tty_listener.rs\<close> (Unix). A connection is the
  bytes its peer sends until it closes the stream or the stream breaks. The telemetry connection
  authenticates with a length-prefixed token and then carries packed event frames, each passed to
  the event queue; \<open>room\<close> says how many events the queue's receiver still takes before it goes away
  (\<^term>\<open>None\<close>: it stays). \<open>Undefined\<close> is the behaviour of reading an enum from a byte that is
  none of its discriminants. Opening the socket is in \<open>Sockets\<close>, the queue in \<open>Ingestion\<close>.
\<close>

subsection \<open>Streams\<close>

datatype io_error = UnexpectedEof | ConnectionError

record stream =
  incoming :: bytes
  closes_cleanly :: bool
  accepts_writes :: bool

definition read_exact :: "nat \<Rightarrow> stream \<Rightarrow> io_error + bytes \<times> stream" where
  "read_exact n s =
     (if n \<le> length (incoming s) then Inr (take n (incoming s), s\<lparr>incoming := drop n (incoming s)\<rparr>)
      else Inl (if closes_cleanly s then UnexpectedEof else ConnectionError))"

lemma read_exact_shorter [termination_simp]:
  "read_exact n s = Inr (b, s') \<Longrightarrow> 0 < n \<Longrightarrow> length (incoming s') < length (incoming s)"
  by (auto simp: read_exact_def split: if_splits)

lemma read_exact_InrD:
  "read_exact n s = Inr (b, s') \<Longrightarrow>
     incoming s = b @ incoming s' \<and> length b = n \<and> closes_cleanly s' = closes_cleanly s \<and>
     accepts_writes s' = accepts_writes s"
  by (auto simp: read_exact_def split: if_splits)

lemma read_exact_append:
  "length b = n \<Longrightarrow> incoming s = b @ rest \<Longrightarrow> read_exact n s = Inr (b, s\<lparr>incoming := rest\<rparr>)"
  by (simp add: read_exact_def)

lemma size_pos [simp]: "0 < RAW_EVENT_SIZE" "0 < RAW_TTY_EVENT_SIZE"
  by (simp_all add: RAW_EVENT_SIZE_def RAW_TTY_EVENT_SIZE_def)

subsection \<open>Ingestion of telemetry\<close>

datatype ipc_error = Io io_error | TokenTooLong | TokenNotUtf8

datatype ipc_end = Finished | Failed ipc_error | Undefined

record ipc_result =
  written :: bytes
  sent :: "telemetry_event_raw list"
  ipc_outcome :: ipc_end

function ingest :: "nat option \<Rightarrow> stream \<Rightarrow> telemetry_event_raw list \<times> ipc_end" where
  "ingest room s =
     (case read_exact RAW_EVENT_SIZE s of
        Inl e \<Rightarrow> ([], if e = UnexpectedEof then Finished else Failed (Io e))
      | Inr (buffer, s') \<Rightarrow>
          (case dec_event buffer of
             None \<Rightarrow> ([], Undefined)
           | Some raw_event \<Rightarrow>
               if room = Some 0 then ([], Finished)
               else let (evs, r) = ingest (map_option (\<lambda>n. n - 1) room) s'
                    in (raw_event # evs, r)))"
  by pat_completeness auto
termination
  by (relation "measure (\<lambda>(room, s). length (incoming s))") (auto simp: read_exact_shorter)

declare ingest.simps [simp del]

definition handle_connection :: "string \<Rightarrow> nat option \<Rightarrow> stream \<Rightarrow> ipc_result" where
  "handle_connection auth_token room s =
     (case read_exact 4 s of
        Inl e \<Rightarrow> \<lparr>written = [], sent = [], ipc_outcome = Failed (Io e)\<rparr>
      | Inr (len_buf, s1) \<Rightarrow>
          let len = unat (read_word 0 4 len_buf :: u32) in
          if 256 < len then
            if accepts_writes s1
            then \<lparr>written = [0], sent = [], ipc_outcome = Failed TokenTooLong\<rparr>
            else \<lparr>written = [], sent = [], ipc_outcome = Failed (Io ConnectionError)\<rparr>
          else (case read_exact len s1 of
             Inl e \<Rightarrow> \<lparr>written = [], sent = [], ipc_outcome = Failed (Io e)\<rparr>
           | Inr (token_bytes, s2) \<Rightarrow>
               if \<not> utf8_valid token_bytes then
                 \<lparr>written = [], sent = [], ipc_outcome = Failed TokenNotUtf8\<rparr>
               else if \<not> accepts_writes s2 then
                 \<lparr>written = [], sent = [], ipc_outcome = Failed (Io ConnectionError)\<rparr>
               else if map byte_char token_bytes \<noteq> auth_token then
                 \<lparr>written = [0], sent = [], ipc_outcome = Finished\<rparr>
               else let (evs, r) = ingest room s2
                    in \<lparr>written = [1], sent = evs, ipc_outcome = r\<rparr>))"

text \<open>What a client of the socket sends: its token, then events.\<close>

definition hello :: "string \<Rightarrow> bytes" where
  "hello token = put_word 4 (of_nat (length token) :: u32) @ map char_byte token"

lemma read_word_put_word_u32: "read_word 0 4 (put_word 4 (w :: u32)) = w"
  using read_word_here [where w = w and n = 4 and b = "[]"] by simp

lemma le_bytes_le_val: "le_bytes (length bs) (le_val bs) = bs"
proof (induction bs)
  case (Cons b bs)
  have "unat b < 256" using unsigned_less [of b, where 'a = nat] by simp
  then show ?case using Cons by simp
qed simp

lemma put_word_read_word_u32:
  assumes "length bs = 4"
  shows "put_word 4 (read_word 0 4 bs :: u32) = bs"
proof -
  have "le_val bs < 2 ^ 32" using le_val_bound [of bs] assms by simp
  then have "unat (read_word 0 4 bs :: u32) = le_val bs"
    using assms by (simp add: read_word_def slice_def unat_of_nat)
  then show ?thesis using le_bytes_le_val [of bs] assms by (simp add: put_word_def)
qed

lemma byte_char_token: "map byte_char bs = token \<longleftrightarrow> bs = map char_byte token"
  by (auto simp: comp_def)

lemma handle_connection_admits:
  assumes "length token \<le> 256" "utf8_valid (map char_byte token)" "accepts_writes s"
    and "incoming s = hello token @ rest"
  shows "handle_connection token room s =
    (let (evs, r) = ingest room (s\<lparr>incoming := rest\<rparr>)
     in \<lparr>written = [1], sent = evs, ipc_outcome = r\<rparr>)"
proof -
  have 1: "read_exact 4 s =
      Inr (put_word 4 (of_nat (length token) :: u32), s\<lparr>incoming := map char_byte token @ rest\<rparr>)"
    by (rule read_exact_append) (simp_all add: assms(4) hello_def)
  have len: "unat (of_nat (length token) :: u32) = length token"
    using assms(1) by (simp add: unat_of_nat)
  have 2: "read_exact (length token) (s\<lparr>incoming := map char_byte token @ rest\<rparr>) =
      Inr (map char_byte token, s\<lparr>incoming := rest\<rparr>)"
    by (subst read_exact_append [where b = "map char_byte token" and rest = rest]) simp_all
  show ?thesis
    using assms(1-3) by (simp add: handle_connection_def 1 2 read_word_put_word_u32 len comp_def)
qed

lemma ingest_frames:
  assumes "\<forall>ev \<in> set evs. wf_event ev" "length junk < RAW_EVENT_SIZE" "closes_cleanly s"
    and "incoming s = concat (map enc_event evs) @ junk"
  shows "ingest None s = (evs, Finished)"
  using assms
proof (induction evs arbitrary: s)
  case Nil
  then show ?case by (subst ingest.simps) (simp add: read_exact_def)
next
  case (Cons ev evs)
  let ?rest = "concat (map enc_event evs) @ junk"
  have "read_exact RAW_EVENT_SIZE s = Inr (enc_event ev, s\<lparr>incoming := ?rest\<rparr>)"
    by (rule read_exact_append) (use Cons.prems event_codec.length_enc in simp_all)
  moreover have "dec_event (enc_event ev) = Some ev"
    using Cons.prems(1) by (simp add: event_codec.dec_exact)
  moreover have "ingest None (s\<lparr>incoming := ?rest\<rparr>) = (evs, Finished)"
    by (rule Cons.IH) (use Cons.prems in simp_all)
  ultimately show ?case by (subst ingest.simps) simp
qed

text \<open>C28. No event reaches the engine, and no peer is told it is authenticated, unless the
  connection opens with the length and the bytes of the configured token.\<close>

theorem ipc_needs_token:
  "sent (handle_connection token room s) \<noteq> [] \<or> 1 \<in> set (written (handle_connection token room s))
   \<Longrightarrow> \<exists>rest. incoming s = hello token @ rest \<and> length token \<le> 256"
proof -
  assume "sent (handle_connection token room s) \<noteq> [] \<or>
    1 \<in> set (written (handle_connection token room s))"
  then obtain len_buf s1 token_bytes s2 where r:
    "read_exact 4 s = Inr (len_buf, s1)"
    "read_exact (unat (read_word 0 4 len_buf :: u32)) s1 = Inr (token_bytes, s2)"
    and le: "unat (read_word 0 4 len_buf :: u32) \<le> 256" and eq: "map byte_char token_bytes = token"
    by (auto simp: handle_connection_def Let_def split: sum.splits if_splits)
  note d = read_exact_InrD [OF r(1)] read_exact_InrD [OF r(2)]
  have len: "length token = unat (read_word 0 4 len_buf :: u32)" using d eq by auto
  have "len_buf = put_word 4 (of_nat (length token) :: u32)"
    using d put_word_read_word_u32 [of len_buf] by (simp add: len)
  then have "incoming s = hello token @ incoming s2"
    using d eq by (simp add: hello_def byte_char_token)
  then show ?thesis using le len by auto
qed

lemma handle_connection_delivers:
  assumes "length token \<le> 256" "utf8_valid (map char_byte token)"
    and "\<forall>ev \<in> set evs. wf_event ev" "length partial < RAW_EVENT_SIZE"
    and "accepts_writes s" "closes_cleanly s"
    and "incoming s = hello token @ concat (map enc_event evs) @ partial"
  shows "handle_connection token None s = \<lparr>written = [1], sent = evs, ipc_outcome = Finished\<rparr>"
proof -
  have "ingest None (s\<lparr>incoming := concat (map enc_event evs) @ partial\<rparr>) = (evs, Finished)"
    by (rule ingest_frames) (use assms in simp_all)
  then show ?thesis
    using handle_connection_admits [OF assms(1,2,5,7)] by simp
qed

text \<open>An authenticated client delivers exactly the events it sends, in order; a partial frame
  at the end of the stream is dropped and the connection ends without an error.\<close>

theorem ipc_delivers_events:
  assumes "length token \<le> 256" "utf8_valid (map char_byte token)"
    and "\<forall>ev \<in> set evs. wf_event ev" "length partial < RAW_EVENT_SIZE"
    and "accepts_writes s" "closes_cleanly s"
    and "incoming s = hello token @ concat (map enc_event evs) @ partial"
  shows "handle_connection token None s = \<lparr>written = [1], sent = evs, ipc_outcome = Finished\<rparr>"
  using assms by (rule handle_connection_delivers)

definition sample_event :: telemetry_event_raw where
  "sample_event = \<lparr>header = \<lparr>sequence_number = 1, timestamp_ns = 5, hdr_pid = 7,
       hdr_event_type = FileRead, hdr_source = EBPF\<rparr>, details_buffer = replicate 1544 0\<rparr>"

definition sample_stream :: stream where
  "sample_stream = \<lparr>incoming = hello ''key'' @ enc_event sample_event @ [1, 2],
     closes_cleanly = True, accepts_writes = True\<rparr>"

lemma sample_token: "utf8_valid (map char_byte ''key'')"
  by code_simp

theorem ipc_delivers_events_witness:
  "handle_connection ''key'' None sample_stream =
     \<lparr>written = [1], sent = [sample_event], ipc_outcome = Finished\<rparr>"
  by (rule ipc_delivers_events [where partial = "[1, 2]", OF _ sample_token])
    (simp_all add: sample_stream_def sample_event_def wf_event_def RAW_EVENT_SIZE_def)

theorem ipc_needs_token_witness:
  "\<exists>rest. incoming sample_stream = hello ''key'' @ rest \<and> length ''key'' \<le> 256"
proof (rule ipc_needs_token [of _ None])
  have "ingest None (sample_stream\<lparr>incoming := enc_event sample_event @ [1, 2]\<rparr>) =
      ([sample_event], Finished)"
    by (rule ingest_frames [where junk = "[1, 2]"])
      (simp_all add: sample_stream_def sample_event_def wf_event_def RAW_EVENT_SIZE_def)
  then show "sent (handle_connection ''key'' None sample_stream) \<noteq> [] \<or>
      1 \<in> set (written (handle_connection ''key'' None sample_stream))"
    using handle_connection_admits [OF _ sample_token, of sample_stream "enc_event sample_event @ [1, 2]" None]
    by (simp add: sample_stream_def)
qed

definition frame :: "bytes \<Rightarrow> nat \<Rightarrow> bytes" where
  "frame bs k = slice (k * RAW_EVENT_SIZE) RAW_EVENT_SIZE bs"

lemma dec_event_None: "dec_event bs = None \<longleftrightarrow> dec_header bs = None"
  by (simp add: dec_event_def)

lemma frame_0: "frame bs 0 = take RAW_EVENT_SIZE bs"
  by (simp add: frame_def slice_def)

lemma frame_Suc: "frame bs (Suc k) = frame (drop RAW_EVENT_SIZE bs) k"
  by (simp add: frame_def slice_def add.commute)

text \<open>Ingestion runs into undefined behaviour exactly when one of the complete frames of the
  stream has, in the byte of its event kind or of its source, a value outside the enum: neither
  byte is checked.\<close>

theorem ingest_undefined_iff:
  "snd (ingest None s) = Undefined \<longleftrightarrow>
     (\<exists>k. Suc k * RAW_EVENT_SIZE \<le> length (incoming s) \<and>
       (event_of_code (byte_at (frame (incoming s) k) 20) = None \<or>
        source_of_code (byte_at (frame (incoming s) k) 21) = None))"
proof (induction "length (incoming s)" arbitrary: s rule: less_induct)
  case less
  let ?bad = "\<lambda>bs k. Suc k * RAW_EVENT_SIZE \<le> length bs \<and> dec_event (frame bs k) = None"
  have bad: "?bad bs k \<longleftrightarrow> Suc k * RAW_EVENT_SIZE \<le> length bs \<and>
      (event_of_code (byte_at (frame bs k) 20) = None \<or> source_of_code (byte_at (frame bs k) 21) = None)"
    for bs k by (simp add: dec_event_None dec_header_None)
  have "snd (ingest None s) = Undefined \<longleftrightarrow> (\<exists>k. ?bad (incoming s) k)"
  proof (cases "RAW_EVENT_SIZE \<le> length (incoming s)")
    case False
    then have "\<not> ?bad (incoming s) k" for k by simp
    then show ?thesis using False by (subst ingest.simps) (simp add: read_exact_def)
  next
    case True
    let ?s = "s\<lparr>incoming := drop RAW_EVENT_SIZE (incoming s)\<rparr>"
    have r: "read_exact RAW_EVENT_SIZE s = Inr (frame (incoming s) 0, ?s)"
      using True by (simp add: read_exact_def frame_0)
    have "(\<exists>k. ?bad (incoming s) k) \<longleftrightarrow> ?bad (incoming s) 0 \<or> (\<exists>k. ?bad (incoming s) (Suc k))"
      by (metis not0_implies_Suc)
    moreover have "?bad (incoming s) (Suc k) = ?bad (incoming ?s) k" for k
      using True by (auto simp: frame_Suc)
    moreover have "?bad (incoming s) 0 \<longleftrightarrow> dec_event (frame (incoming s) 0) = None"
      using True by simp
    ultimately have ex: "(\<exists>k. ?bad (incoming s) k) \<longleftrightarrow>
        dec_event (frame (incoming s) 0) = None \<or> (\<exists>k. ?bad (incoming ?s) k)" by presburger
    have "snd (ingest None ?s) = Undefined \<longleftrightarrow> (\<exists>k. ?bad (incoming ?s) k)"
      unfolding bad by (rule less) (use True size_pos(1) in \<open>simp del: size_pos\<close>)
    then show ?thesis
      unfolding ex by (subst ingest.simps) (auto simp: r Let_def split: option.split prod.split)
  qed
  then show ?case unfolding bad .
qed

subsection \<open>TTY activity\<close>

text \<open>Each frame marks its process as active now.\<close>

function tty_connection :: "int \<Rightarrow> stream \<Rightarrow> (u32, int) dmap \<Rightarrow> (u32, int) dmap" where
  "tty_connection now s m =
     (case read_exact RAW_TTY_EVENT_SIZE s of
        Inl _ \<Rightarrow> m
      | Inr (buf, s') \<Rightarrow> tty_connection now s' (dm_put (tty_pid (dec_tty_event_raw buf)) now m))"
  by pat_completeness auto
termination
  by (relation "measure (\<lambda>(now, s, m). length (incoming s))") (auto simp: read_exact_shorter)

declare tty_connection.simps [simp del]

text \<open>After a TTY connection exactly the processes named by its frames have been marked active;
  the others keep their time stamp, and a partial frame at the end marks nobody.\<close>

theorem tty_connection_marks:
  assumes "\<forall>ev \<in> set evs. wf_tty_event_raw ev" "length partial < RAW_TTY_EVENT_SIZE"
    and "incoming s = concat (map enc_tty_event_raw evs) @ partial"
  shows "dm_get (tty_connection now s m) pid =
    (if pid \<in> tty_pid ` set evs then Some now else dm_get m pid)"
  using assms
proof (induction evs arbitrary: s m)
  case Nil
  then show ?case by (subst tty_connection.simps) (simp add: read_exact_def)
next
  case (Cons ev evs)
  let ?s = "s\<lparr>incoming := concat (map enc_tty_event_raw evs) @ partial\<rparr>"
  have wf: "wf_tty_event_raw ev" using Cons.prems(1) by simp
  have "read_exact RAW_TTY_EVENT_SIZE s = Inr (enc_tty_event_raw ev, ?s)"
    by (rule read_exact_append)
      (use Cons.prems tty_event_raw_codec.length_enc [OF wf] in
        \<open>simp_all add: RAW_TTY_EVENT_SIZE_def\<close>)
  moreover have "dec_tty_event_raw (enc_tty_event_raw ev) = ev"
    using tty_event_raw_codec.dec_exact [OF wf] by simp
  moreover have "dm_get (tty_connection now ?s m') pid =
      (if pid \<in> tty_pid ` set evs then Some now else dm_get m' pid)" for m'
    by (rule Cons.IH) (use Cons.prems in simp_all)
  ultimately show ?case
    by (subst tty_connection.simps) (auto simp: dm.get_put)
qed

end
