(* ===== verification/Control.thy ===== *)
theory Control
  imports Lifecycle Ipc
begin

section \<open>The control socket\<close>

text \<open>
  \<^verbatim>\<open>control.rs\<close>: one request per connection, read until the bytes parse, answered from
  the engine. The JSON parser of \<^verbatim>\<open>serde_json\<close> is a parameter (\<open>parse\<close>: an error text or
  a request); responses stay structured values. A connection is the list of its \<^verbatim>\<open>read\<close>
  results: a chunk (empty at the end of the stream), or \<^term>\<open>None\<close> for an error.
\<close>

datatype cli_request =
    Status
  | ReloadRules
  | ReleaseContainment u32
  | ListProcesses
  | ListRules
  | TrustOnce u32
  | AllowProcessTree u32
  | KillProcessTree u32
  | DenyProcessTree u32
  | Subscribe

datatype json =
    JBool bool
  | JInt int
  | JString string
  | JArray "json list"
  | JObject "(string \<times> json) list"

datatype cli_response = Success json | Error string

definition message :: "string \<Rightarrow> json" where
  "message m = JObject [(''message'', JString m)]"

definition inactive :: "u32 \<Rightarrow> string" where
  "inactive pid = ''PID '' @ show_nat (unat pid) @ '' not found in active telemetry state''"

subsection \<open>Queries\<close>

definition active_processes :: "process_map \<Rightarrow> nat" where
  "active_processes pm = length (filter (\<lambda>(_, s). \<not> terminated s) pm)"

definition status_report :: "env \<Rightarrow> engine \<Rightarrow> json" where
  "status_report w e =
     JObject [(''running'', JBool True),
       (''daemon_version'', JString ''0.1.0''),
       (''rules_version'', JString (cfg_version (config_cell e))),
       (''rules_timestamp'', JInt (uint (epoch_timestamp (config_cell e)))),
       (''active_processes'', JInt (int (active_processes (process_map e)))),
       (''lsm_active'', JBool (lsm_active w))]"

definition count_ones :: "u32 \<Rightarrow> nat" where
  "count_ones x = length (filter (bit x) [0..<32])"

definition is_contained :: "process_state \<Rightarrow> bool" where
  "is_contained s \<longleftrightarrow>
     pending_network_connect s \<or>
     (is_untrusted s \<and> category_flags s \<noteq> 0) \<or>
     (is_naked_tty s \<and> 3 \<le> count_ones (category_flags s)) \<or>
     2 \<le> count_ones (category_flags s)"

definition process_json :: "env \<Rightarrow> process_state \<Rightarrow> json" where
  "process_json w s =
     JObject [(''pid'', JInt (uint (pk_pid (ps_key s)))),
       (''ppid'', JInt (uint (ppid s))),
       (''exe'', JString (image_path s)),
       (''cmdline'', JString (command_line s)),
       (''category_flags'', JInt (uint (category_flags s))),
       (''contained'', JBool (is_contained s)),
       (''untrusted'', JBool (is_untrusted s)),
       (''naked_tty'', JBool (is_naked_tty s)),
       (''env'', JObject (map (\<lambda>(k, v). (k, JString v))
          (get_process_env_all w (pk_pid (ps_key s)))))]"

definition list_processes :: "env \<Rightarrow> engine \<Rightarrow> json list" where
  "list_processes w e =
     map (\<lambda>(_, s). process_json w s) (filter (\<lambda>(_, s). \<not> terminated s) (process_map e))"

definition list_rules :: "config \<Rightarrow> json list" where
  "list_rules cfg =
     map (\<lambda>(p, c). JObject [(''path'', JString p), (''category_flags'', JInt (uint c))])
       (sensitive_files cfg)"

subsection \<open>Rules\<close>

text \<open>Registering what a rules database names: sensitive files with their category, protected
  directories as application data (0x08); paths without metadata are skipped.\<close>

definition register_sensitive :: "env \<Rightarrow> config \<Rightarrow> ffi_call list" where
  "register_sensitive w cfg =
     concat (map (\<lambda>(p, c). case file_inode w p of None \<Rightarrow> [] | Some ino \<Rightarrow> [AddSensitiveInode ino c])
       (sensitive_files cfg))"

definition register_protected :: "env \<Rightarrow> config \<Rightarrow> ffi_call list" where
  "register_protected w cfg =
     concat (map (\<lambda>(p, _). case file_inode w p of None \<Rightarrow> [] | Some ino \<Rightarrow> [AddSensitiveInode ino 0x08])
       (protected_application_directories cfg))"

definition reload_rules :: "env \<Rightarrow> engine \<Rightarrow> string + engine" where
  "reload_rules w e =
     (case load_rules_db w of
        Inl err \<Rightarrow> Inl (''Failed to load new rules database: '' @ err)
      | Inr cfg \<Rightarrow> Inr (e\<lparr>config_cell := cfg,
          ffi_log := ffi_log e @ register_sensitive w cfg @ register_protected w cfg\<rparr>))"

subsection \<open>Commands on processes\<close>

definition trust_entry_once :: "process_state \<Rightarrow> process_state" where
  "trust_entry_once s =
     s\<lparr>category_flags := 0, pending_network_connect := False, is_untrusted := False\<rparr>"

definition trust_once :: "u32 \<Rightarrow> engine \<Rightarrow> string + engine" where
  "trust_once pid e =
     (case find_pid (process_map e) pid of
        None \<Rightarrow> Inl (inactive pid)
      | Some (key, _) \<Rightarrow> Inr (e\<lparr>process_map := dm_alter key trust_entry_once (process_map e)\<rparr>))"

text \<open>The answer to a command and the state it leaves; an error of the engine leaves the state the
  command was passed on with.\<close>

definition reply :: "string \<Rightarrow> engine \<Rightarrow> string + engine \<Rightarrow> cli_response \<times> engine" where
  "reply ok e r =
     (case r of Inl err \<Rightarrow> (Error err, e) | Inr e' \<Rightarrow> (Success (message ok), e'))"

definition tree_message :: "u32 \<Rightarrow> string \<Rightarrow> string" where
  "tree_message pid what = ''Process tree starting at PID '' @ show_nat (unat pid) @ what"

text \<open>Recording the verdict on an executable: trusted in the kernel map and on the allowlist when it
  exists; on the denylist.\<close>

definition allow_image :: "env \<Rightarrow> string \<Rightarrow> engine \<Rightarrow> engine" where
  "allow_image w path e =
     (case file_inode w path of
        None \<Rightarrow> e
      | Some ino \<Rightarrow> e\<lparr>ffi_log := ffi_log e @ [AddTrustedExecInode ino 2],
                      trust := add_to_user_allowlist w path (trust e)\<rparr>)"

definition deny_image :: "env \<Rightarrow> string \<Rightarrow> engine \<Rightarrow> engine" where
  "deny_image w path e = e\<lparr>trust := add_to_user_denylist w path (trust e)\<rparr>"

text \<open>Both commands look the process up twice: for its executable, and again in the engine's operation.
  \<open>meanwhile\<close> is what the other threads do to the engine between the two.\<close>

definition allow_process_tree ::
  "(engine \<Rightarrow> engine) \<Rightarrow> env \<Rightarrow> u32 \<Rightarrow> engine \<Rightarrow> (cli_response \<times> engine) option" where
  "allow_process_tree meanwhile w pid e =
     (case find_live (process_map e) pid of
        None \<Rightarrow> Some (Error (inactive pid), e)
      | Some (_, s) \<Rightarrow>
          let e1 = meanwhile (allow_image w (image_path s) e)
          in map_option (reply (tree_message pid '' permanently allowed and resumed'') e1)
               (release_process_tree w pid e1))"

definition deny_process_tree ::
  "(engine \<Rightarrow> engine) \<Rightarrow> env \<Rightarrow> u32 \<Rightarrow> engine \<Rightarrow> (cli_response \<times> engine) option" where
  "deny_process_tree meanwhile w pid e =
     (case find_live (process_map e) pid of
        None \<Rightarrow> Some (Error (inactive pid), e)
      | Some (_, s) \<Rightarrow>
          let e1 = meanwhile (deny_image w (image_path s) e)
          in map_option (reply (tree_message pid
               '' registered in persistent user denylist and terminated'') e1)
               (kill_process_tree w pid e1))"

fun serve_request ::
  "(engine \<Rightarrow> engine) \<Rightarrow> env \<Rightarrow> cli_request \<Rightarrow> engine \<Rightarrow> (cli_response \<times> engine) option" where
  "serve_request mw w Status e = Some (Success (status_report w e), e)"
| "serve_request mw w ReloadRules e =
     Some (reply ''Rules database reloaded successfully'' e (reload_rules w e))"
| "serve_request mw w (ReleaseContainment pid) e =
     map_option (reply (tree_message pid '' resumed'') e) (release_process_tree w pid e)"
| "serve_request mw w ListProcesses e =
     Some (Success (JObject [(''processes'', JArray (list_processes w e))]), e)"
| "serve_request mw w ListRules e =
     Some (Success (JObject [(''rules'', JArray (list_rules (config_cell e)))]), e)"
| "serve_request mw w (TrustOnce pid) e =
     Some (reply (''Temporary trust bypass granted for PID '' @ show_nat (unat pid)) e
       (trust_once pid e))"
| "serve_request mw w (AllowProcessTree pid) e = allow_process_tree mw w pid e"
| "serve_request mw w (KillProcessTree pid) e =
     map_option (reply (tree_message pid '' terminated'') e) (kill_process_tree w pid e)"
| "serve_request mw w (DenyProcessTree pid) e = deny_process_tree mw w pid e"
| "serve_request mw w Subscribe e = Some (Success (message ''Subscription active''), e)"

text \<open>A request nobody interferes with: the atomic step of \<open>Agent\<close>.\<close>

abbreviation handle_request :: "env \<Rightarrow> cli_request \<Rightarrow> engine \<Rightarrow> (cli_response \<times> engine) option" where
  "handle_request \<equiv> serve_request (\<lambda>e. e)"

subsection \<open>The connection\<close>

fun read_request :: "(bytes \<Rightarrow> string + cli_request) \<Rightarrow> bytes \<Rightarrow> bytes option list \<Rightarrow> bytes option" where
  "read_request parse buffer [] = Some buffer"
| "read_request parse buffer (None # _) = None"
| "read_request parse buffer (Some chunk # reads) =
     (if chunk = [] then Some buffer
      else case parse (buffer @ chunk) of
             Inr _ \<Rightarrow> Some (buffer @ chunk)
           | Inl _ \<Rightarrow> read_request parse (buffer @ chunk) reads)"

text \<open>The answer, if any, and the state.\<close>

definition handle_control ::
  "(engine \<Rightarrow> engine) \<Rightarrow> env \<Rightarrow> (bytes \<Rightarrow> string + cli_request) \<Rightarrow> bytes option list \<Rightarrow> engine \<Rightarrow>
     (cli_response option \<times> engine) option" where
  "handle_control meanwhile w parse reads e =
     (case read_request parse [] reads of
        None \<Rightarrow> Some (None, e)
      | Some buffer \<Rightarrow>
          if buffer = [] then Some (None, e)
          else (case parse buffer of
             Inl err \<Rightarrow> Some (Some (Error (''Invalid request format: '' @ err)), e)
           | Inr request \<Rightarrow> map_option (\<lambda>(r, e'). (Some r, e')) (serve_request meanwhile w request e)))"

subsection \<open>The commands keep the contract\<close>

lemma trust_entry_once_simps [simp]:
  "terminated (trust_entry_once s) = terminated s" "ps_key (trust_entry_once s) = ps_key s"
  "category_flags (trust_entry_once s) = 0" "\<not> pending_network_connect (trust_entry_once s)"
  "\<not> is_untrusted (trust_entry_once s)"
  by (simp_all add: trust_entry_once_def)

lemma entry_ok_trust_once: "entry_ok k s \<Longrightarrow> entry_ok k (trust_entry_once s)"
  by (simp add: entry_ok_def trust_entry_once_def)

lemma reload_base: "reload_rules w e = Inr e' \<Longrightarrow> base_ok e e'"
  by (auto simp: reload_rules_def contract_defs split: sum.splits)

lemma trust_once_base: "trust_once pid e = Inr e' \<Longrightarrow> base_ok e e'"
  by (auto simp: trust_once_def contract_defs entries_ok_alter entry_ok_trust_once
      split: option.splits)

lemma base_allow_image: "base_ok e (allow_image w path e)"
  by (simp add: allow_image_def contract_defs split: option.split)

lemma base_deny_image: "base_ok e (deny_image w path e)"
  by (simp add: deny_image_def contract_defs)

lemma reply_base:
  "base_ok e f \<Longrightarrow> (\<And>e'. r = Inr e' \<Longrightarrow> base_ok f e') \<Longrightarrow> base_ok e (snd (reply ok f r))"
  by (cases r) (auto simp: reply_def intro: base_ok_trans)

lemma allow_base:
  assumes "\<forall>f. base_ok f (mw f)" "allow_process_tree mw w pid e = Some r"
  shows "base_ok e (snd r)"
proof -
  have "base_ok e (mw (allow_image w p e))" for p
    using base_ok_trans [OF base_allow_image] assms(1) by blast
  then show ?thesis
    using assms(2)
    by (auto simp: allow_process_tree_def Let_def split: option.splits intro!: reply_base dest: release_base)
qed

lemma deny_base:
  assumes "\<forall>f. base_ok f (mw f)" "deny_process_tree mw w pid e = Some r"
  shows "base_ok e (snd r)"
proof -
  have "base_ok e (mw (deny_image w p e))" for p
    using base_ok_trans [OF base_deny_image] assms(1) by blast
  then show ?thesis
    using assms(2)
    by (auto simp: deny_process_tree_def Let_def split: option.splits intro!: reply_base dest: kill_base)
qed

lemma serve_request_base:
  assumes "\<forall>f. base_ok f (mw f)" "serve_request mw w request e = Some r"
  shows "base_ok e (snd r)"
proof (cases request)
  case (AllowProcessTree pid)
  then show ?thesis using assms by (simp add: allow_base)
next
  case (DenyProcessTree pid)
  then show ?thesis using assms by (simp add: deny_base)
qed (use assms in \<open>auto intro!: reply_base dest: reload_base trust_once_base release_base kill_base\<close>)

lemma handle_request_base: "handle_request w request e = Some r \<Longrightarrow> base_ok e (snd r)"
  by (rule serve_request_base) simp_all

interpretation request: engine_op
  "\<lambda>(mw, w, r) e. map_option snd (serve_request mw w r e)" "\<lambda>(mw, w, r). env_ok w \<and> (\<forall>f. base_ok f (mw f))"
  by unfold_locales (auto dest!: serve_request_base)

subsection \<open>Properties of the commands\<close>

lemma allow_image_simps [simp]:
  "process_map (allow_image w path e) = process_map e"
  "children_map (allow_image w path e) = children_map e"
  "signals (allow_image w path e) = signals e" "tasks (allow_image w path e) = tasks e"
  by (simp_all add: allow_image_def split: option.split)

lemma deny_image_simps [simp]:
  "process_map (deny_image w path e) = process_map e"
  "children_map (deny_image w path e) = children_map e"
  "signals (deny_image w path e) = signals e" "tasks (deny_image w path e) = tasks e"
  by (simp_all add: deny_image_def)

lemma release_live:
  "find_live (process_map e) pid = Some (k, s) \<Longrightarrow> release_process_tree w pid e \<noteq> Some (Inl err)"
  by (simp add: release_process_tree_def Let_def split: option.split)

lemma kill_live:
  "find_live (process_map e) pid = Some (k, s) \<Longrightarrow> kill_process_tree w pid e \<noteq> Some (Inl err)"
  by (simp add: kill_process_tree_def Let_def split: option.split)

lemma reply_Error: "reply ok f r = (Error err, e') \<longleftrightarrow> r = Inl err \<and> e' = f"
  by (auto simp: reply_def split: sum.splits)

lemma reply_Success: "reply ok f r = (Success m, e') \<longleftrightarrow> r = Inr e' \<and> m = message ok"
  by (auto simp: reply_def split: sum.splits)

lemma release_error: "release_process_tree w pid e = Some (Inl err) \<Longrightarrow> find_live (process_map e) pid = None"
  using release_live by (cases "find_live (process_map e) pid") fastforce+

lemma kill_error: "kill_process_tree w pid e = Some (Inl err) \<Longrightarrow> find_live (process_map e) pid = None"
  using kill_live by (cases "find_live (process_map e) pid") fastforce+

lemma allow_error:
  "allow_process_tree mw w pid e = Some (Error err, e') \<Longrightarrow> e' = e \<or>
     (\<exists>k s. find_live (process_map e) pid = Some (k, s) \<and> e' = mw (allow_image w (image_path s) e) \<and>
       find_live (process_map e') pid = None)"
  by (auto simp: allow_process_tree_def Let_def reply_Error dest!: release_error split: option.splits)

lemma deny_error:
  "deny_process_tree mw w pid e = Some (Error err, e') \<Longrightarrow> e' = e \<or>
     (\<exists>k s. find_live (process_map e) pid = Some (k, s) \<and> e' = mw (deny_image w (image_path s) e) \<and>
       find_live (process_map e') pid = None)"
  by (auto simp: deny_process_tree_def Let_def reply_Error dest!: kill_error split: option.splits)

text \<open>C30. What a command that is answered with an error leaves behind. Mostly nothing: the state is the one it
  found. The exception are the allow and deny commands: they record their verdict on the executable
  (kernel map and allowlist, or denylist) first and look the process up again afterwards, so if it ends in
  between they fail with the verdict in force. Undisturbed, no failed command changes anything.\<close>

theorem failed_command_leaves:
  assumes "serve_request meanwhile w request e = Some (Error err, e')"
  shows "(e' = e \<or> (\<exists>pid k s. find_live (process_map e) pid = Some (k, s) \<and> find_live (process_map e') pid = None \<and>
        (request = AllowProcessTree pid \<and> e' = meanwhile (allow_image w (image_path s) e) \<or>
         request = DenyProcessTree pid \<and> e' = meanwhile (deny_image w (image_path s) e)))) \<and>
    ((\<forall>f. meanwhile f = f) \<longrightarrow> e' = e)"
proof -
  have 1: "e' = e \<or> (\<exists>pid k s. find_live (process_map e) pid = Some (k, s) \<and> find_live (process_map e') pid = None \<and>
      (request = AllowProcessTree pid \<and> e' = meanwhile (allow_image w (image_path s) e) \<or>
       request = DenyProcessTree pid \<and> e' = meanwhile (deny_image w (image_path s) e)))"
  proof (cases request)
    case (AllowProcessTree pid)
    then show ?thesis using assms allow_error [of meanwhile w pid e err e'] by auto
  next
    case (DenyProcessTree pid)
    then show ?thesis using assms deny_error [of meanwhile w pid e err e'] by auto
  qed (use assms in \<open>auto simp: reply_Error\<close>)
  moreover have "e' = e" if "\<forall>f. meanwhile f = f"
    using 1 that by (auto simp del: not_None_eq)
  ultimately show ?thesis by blast
qed

text \<open>A process that ends while its denial is being recorded.\<close>

theorem failed_command_leaves_witness:
  "\<exists>e'. serve_request (\<lambda>f. f\<lparr>process_map := []\<rparr>) sample_env (DenyProcessTree 7)
      (sample_engine quiet_config None (sample_process ''/bin/x'' False)) = Some (Error (not_found 7), e') \<and>
    has_path ''/bin/x'' (deny_file (trust e'))"
proof -
  let ?mw = "\<lambda>f. f\<lparr>process_map := []\<rparr>"
  let ?e = "sample_engine quiet_config None (sample_process ''/bin/x'' False)"
  let ?e' = "?mw (deny_image sample_env ''/bin/x'' ?e)"
  have r: "serve_request ?mw sample_env (DenyProcessTree 7) ?e = Some (Error (not_found 7), ?e')"
    by (simp add: deny_process_tree_def kill_process_tree_def find_live_def reply_def Let_def)
  have "process_map ?e' \<noteq> process_map ?e" by simp
  then have "?e' \<noteq> ?e" by (metis (no_types))
  then have "\<exists>pid s. ?e' = ?mw (deny_image sample_env (image_path s) ?e) \<and> find_live (process_map ?e) pid = Some (sample_key, s)"
    using failed_command_leaves [OF r] by (auto simp: find_live_def split: if_splits)
  moreover have "has_path ''/bin/x'' (deny_file (trust ?e'))"
    by (simp add: deny_image_def add_to_user_denylist_def sample_env_sha has_path_iff Let_def)
      (simp add: sample_env_def quiet_env_def)
  ultimately show ?thesis using r by blast
qed

text \<open>However the peer's bytes are cut into chunks, the request read is the whole message, as
  long as no proper prefix of the message parses on its own (a strict prefix of a JSON object is
  never a JSON value).\<close>

theorem request_chunking:
  assumes "\<And>a b. concat chunks = a @ b \<Longrightarrow> b \<noteq> [] \<Longrightarrow> \<exists>err. parse a = Inl err"
    and "chunks \<noteq> []" "\<forall>c \<in> set chunks. c \<noteq> []" "parse (concat chunks) = Inr request"
  shows "read_request parse [] (map Some chunks @ later) = Some (concat chunks)"
proof -
  have "read_request parse buf (map Some cs @ later) = Some (buf @ concat cs)"
    if "buf @ concat cs = concat chunks" "\<forall>c \<in> set cs. c \<noteq> []" "cs \<noteq> []" for buf cs
    using that
  proof (induction cs arbitrary: buf)
    case (Cons c cs)
    show ?case
    proof (cases "cs = []")
      case True
      then show ?thesis using Cons.prems assms(4) by simp
    next
      case False
      then have "concat cs \<noteq> []" using Cons.prems(2) by (cases cs) auto
      then obtain err where "parse (buf @ c) = Inl err"
        using assms(1) [of "buf @ c" "concat cs"] Cons.prems(1) by auto
      then show ?thesis using Cons.IH [of "buf @ c"] Cons.prems False by simp
    qed
  qed simp
  from this [of "[]" chunks] show ?thesis
    using assms by auto
qed

text \<open>A parser that knows one message.\<close>

definition sample_parse :: "bytes \<Rightarrow> string + cli_request" where
  "sample_parse bs = (if bs = [1, 2, 3] then Inr Status else Inl ''EOF'')"

theorem request_chunking_witness:
  "read_request sample_parse [] (map Some [[1], [2, 3]] @ [None]) = Some (concat [[1], [2, 3]])"
  by (rule request_chunking [where request = Status]) (auto simp: sample_parse_def)

text \<open>Killing a tree signals its descendants and then its root, and leaves the table alone: the
  killed process stays live for the agent until its exit is reported, so the command can be
  repeated.\<close>

theorem kill_tree_exact:
  assumes "kill_process_tree w pid e = Some (Inr e')"
  shows "\<exists>k s below. find_live (process_map e) pid = Some (k, s) \<and>
    collect_descendants (children_map e) k = Some below \<and>
    signals e' = signals e @ map (\<lambda>p. (SIGKILL, sint p)) (below @ [pid]) \<and>
    process_map e' = process_map e \<and> children_map e' = children_map e"
proof -
  obtain k s where f: "find_live (process_map e) pid = Some (k, s)"
    using assms by (cases "find_live (process_map e) pid") (auto simp: kill_process_tree_def)
  have pid: "pk_pid k = pid" using find_live_SomeD [OF f] by simp
  show ?thesis
    using assms
    by (auto simp: f pid kill_process_tree_def engine_simps signalled_def Let_def split: option.splits)
qed

theorem kill_tree_exact_witness:
  "\<exists>e'. kill_process_tree quiet_env 7 (sample_engine quiet_config None (sample_process ''/bin/sh'' False)) =
      Some (Inr e') \<and> signals e' = [(SIGKILL, 7)]"
proof -
  let ?e = "sample_engine quiet_config None (sample_process ''/bin/sh'' False)"
  have c: "collect_descendants (children_map ?e) sample_key = Some []"
    by (simp add: collect_no_entry)
  then obtain e' where e': "kill_process_tree quiet_env 7 ?e = Some (Inr e')"
    by (simp add: kill_process_tree_def Let_def)
  from kill_tree_exact [OF this] c show ?thesis using e' by auto
qed

text \<open>The one-time trust command takes the first entry of the PID, terminated or not. If that is a
  dead entry of a reused PID, the command reports success and the live process keeps its flags.\<close>

theorem trust_once_stale:
  assumes "engine_inv e" "find_pid (process_map e) pid = Some (k, s)" "terminated s"
  shows "\<exists>e'. handle_request w (TrustOnce pid) e =
      Some (Success (message (''Temporary trust bypass granted for PID '' @ show_nat (unat pid))), e') \<and>
    find_live (process_map e') pid = find_live (process_map e) pid"
proof -
  have "dm_ok (process_map e)" using assms(1) by (simp add: engine_inv_def entries_ok_def)
  then have "find_live (dm_alter k trust_entry_once (process_map e)) pid = find_live (process_map e) pid"
    using find_pid_SomeD [OF assms(2)] assms(3) by (intro find_live_alter_dead [where s = s]) simp_all
  then show ?thesis using assms(2) by (simp add: trust_once_def reply_def)
qed

definition reused_pid :: engine where
  "reused_pid = (sample_engine quiet_config None (sample_process ''/bin/sh'' False))\<lparr>
     process_map := [(sample_key, stop_entry 0 (sample_process ''/bin/old'' False)),
       (\<lparr>pk_pid = 7, pk_start_time = 6\<rparr>, (sample_process ''/bin/sh'' False)\<lparr>
          ps_key := \<lparr>pk_pid = 7, pk_start_time = 6\<rparr>, category_flags := 4\<rparr>)]\<rparr>"

theorem trust_once_stale_witness:
  "\<exists>e' k s. handle_request quiet_env (TrustOnce 7) reused_pid =
      Some (Success (message (''Temporary trust bypass granted for PID '' @ show_nat (unat (7 :: u32)))), e') \<and>
    find_live (process_map e') 7 = Some (k, s) \<and> category_flags s = 4"
proof -
  have "engine_inv reused_pid"
    by (simp add: reused_pid_def engine_inv_def entries_ok_def children_ok_def dm_ok_def
        entry_ok_def sample_key_def)
  moreover have "find_pid (process_map reused_pid) 7 =
      Some (sample_key, stop_entry 0 (sample_process ''/bin/old'' False))"
    by (simp add: reused_pid_def find_pid_def)
  moreover have "\<exists>k s. find_live (process_map reused_pid) 7 = Some (k, s) \<and> category_flags s = 4"
    by (simp add: reused_pid_def find_live_def)
  ultimately show ?thesis using trust_once_stale [of reused_pid 7 _ _ quiet_env] by fastforce
qed

lemma allow_image_trust:
  "file_inode w path = Some ino \<Longrightarrow> trust (allow_image w path e) = add_to_user_allowlist w path (trust e)"
  by (simp add: allow_image_def)

lemma release_trust: "release_process_tree w pid e = Some (Inr e') \<Longrightarrow> trust e' = trust e"
  by (auto simp: release_process_tree_def engine_simps Let_def write_structured_alert_def
      split: option.splits)

text \<open>Allowing a process tree lasts: when its executable can be hashed and was not on the allowlist,
  the next start of the agent registers the executable as trusted while it is unchanged.\<close>

theorem allow_survives_restart:
  assumes "allow_process_tree (\<lambda>e. e) w pid e = Some (Success m, e')"
    and "find_live (process_map e) pid = Some (k, s)" "file_inode w (image_path s) = Some ino"
    and "get_file_sha256 w (image_path s) = Some h" "db_writable w"
    and "\<not> has_path (image_path s) (allow_file (trust e))"
    and "file_inode w' (image_path s) = Some ino'" "get_file_sha256 w' (image_path s) = Some h"
  shows "AddTrustedExecInode ino' 2 \<in> set (initialize_trust_cache w' cfg (trust e'))"
proof -
  have "release_process_tree w pid (allow_image w (image_path s) e) = Some (Inr e')"
    using assms(1,2) by (auto simp: allow_process_tree_def Let_def reply_Success)
  then have t: "trust e' = add_to_user_allowlist w (image_path s) (trust e)"
    using release_trust allow_image_trust [OF assms(3)] by metis
  have "ino' \<in> allow_inodes w' \<lparr>te_path = image_path s, te_sha256 = h\<rparr>"
    using assms(7,8) by (simp add: allow_inodes_def)
  then show ?thesis
    using add_allow_entry [OF assms(4-6)] unfolding t
    by (auto simp: initialize_calls startup_inodes_def)
qed

theorem allow_survives_restart_witness:
  "\<exists>m e'. allow_process_tree (\<lambda>e. e) sample_env 7
      (sample_engine quiet_config None (sample_process ''/bin/x'' False)) = Some (Success m, e') \<and>
    AddTrustedExecInode 7 2 \<in> set (initialize_trust_cache sample_env quiet_config (trust e'))"
proof -
  let ?e = "sample_engine quiet_config None (sample_process ''/bin/x'' False)"
  have "collect_descendants (children_map (allow_image sample_env ''/bin/x'' ?e)) sample_key = Some []"
    by (simp add: collect_no_entry)
  then obtain m e' where r: "allow_process_tree (\<lambda>e. e) sample_env 7 ?e = Some (Success m, e')"
    by (simp add: allow_process_tree_def release_process_tree_def reply_def Let_def)
  have "file_inode sample_env ''/bin/x'' = Some 7" "db_writable sample_env"
    by (simp_all add: sample_env_def quiet_env_def)
  moreover have "\<not> has_path ''/bin/x'' (allow_file (trust ?e))"
    by (simp add: sample_engine_def new_engine_def trust_at_start_def has_path_def)
  ultimately show ?thesis
    using allow_survives_restart [OF r, of sample_key "sample_process ''/bin/x'' False" 7 "''abc''"
        sample_env 7 quiet_config] r sample_env_sha
    by auto
qed

end
