(* ===== verification/Agent.thy ===== *)
theory Agent
  imports Dispatch Control
begin

section \<open>The agent as a transition system\<close>

text \<open>
  \<^verbatim>\<open>run_agent\<close> of \<^verbatim>\<open>lib.rs\<close>: start-up, then an endless interleaving of the
  consumer of the event queue, the purge loop, the control socket, the watcher of the rules
  database and the background tasks. Each of these is one atomic step (\<open>agent_exec\<close>) with its own
  environment; \<open>reachable\<close> is what any interleaving of admissible steps can produce.
\<close>

subsection \<open>The watcher of the rules database\<close>

datatype fs_event_kind = ModifyEvent | CreateEvent | OtherEvent

fun split_slash :: "string \<Rightarrow> string list" where
  "split_slash [] = [[]]"
| "split_slash (c # cs) =
     (if c = CHR ''/'' then [] # split_slash cs
      else (case split_slash cs of [] \<Rightarrow> [[c]] | p # ps \<Rightarrow> (c # p) # ps))"

text \<open>\<^verbatim>\<open>Path::file_name\<close>: the last component unless it is \<open>..\<close>.\<close>

definition file_name :: "string \<Rightarrow> string option" where
  "file_name path =
     (case rev (filter (\<lambda>p. p \<noteq> '''' \<and> p \<noteq> ''.'') (split_slash path)) of
        [] \<Rightarrow> None
      | p # _ \<Rightarrow> if p = ''..'' then None else Some p)"

definition should_reload :: "string list \<Rightarrow> fs_event_kind \<Rightarrow> bool" where
  "should_reload paths kind \<longleftrightarrow>
     list_ex (\<lambda>p. file_name p = Some ''rules.db'' \<and> (kind = ModifyEvent \<or> kind = CreateEvent)) paths"

text \<open>Unlike the reload of the control socket, the watcher registers no protected directory.\<close>

definition hot_reload :: "env \<Rightarrow> engine \<Rightarrow> engine" where
  "hot_reload w e =
     (case load_rules_db w of
        Inl _ \<Rightarrow> e
      | Inr cfg \<Rightarrow> e\<lparr>config_cell := cfg, ffi_log := ffi_log e @ register_sensitive w cfg\<rparr>)"

definition on_fs_event :: "env \<Rightarrow> string list \<Rightarrow> fs_event_kind \<Rightarrow> engine \<Rightarrow> engine" where
  "on_fs_event w paths kind e = (if should_reload paths kind then hot_reload w e else e)"

text \<open>Setting the watcher up, once, at start: creating it and watching the rules directory may fail,
  and then the task ends. Errors the watcher reports are dropped, events are handled in order.\<close>

record watcher_setup =
  watcher_created :: bool
  directory_watched :: bool

fun watch_loop :: "(env \<times> string list \<times> fs_event_kind) option list \<Rightarrow> engine \<Rightarrow> engine" where
  "watch_loop [] e = e"
| "watch_loop (None # evs) e = watch_loop evs e"
| "watch_loop (Some (w, paths, kind) # evs) e = watch_loop evs (on_fs_event w paths kind e)"

definition start_watcher ::
  "watcher_setup \<Rightarrow> (env \<times> string list \<times> fs_event_kind) option list \<Rightarrow> engine \<Rightarrow> engine" where
  "start_watcher s evs e =
     (if \<not> watcher_created s then e else if \<not> directory_watched s then e else watch_loop evs e)"

text \<open>While events are handled the rules in force are those of the last reload that loaded.\<close>

fun last_loaded :: "config \<Rightarrow> (env \<times> string list \<times> fs_event_kind) option list \<Rightarrow> config" where
  "last_loaded cfg [] = cfg"
| "last_loaded cfg (None # evs) = last_loaded cfg evs"
| "last_loaded cfg (Some (w, paths, kind) # evs) =
     last_loaded (if should_reload paths kind
       then (case load_rules_db w of Inl _ \<Rightarrow> cfg | Inr new \<Rightarrow> new) else cfg) evs"

lemma start_watcher_config:
  "config_cell (start_watcher s evs e) =
     (if watcher_created s \<and> directory_watched s then last_loaded (config_cell e) evs else config_cell e)"
proof -
  have "config_cell (watch_loop evs e) = last_loaded (config_cell e) evs"
    by (induction evs e rule: watch_loop.induct)
      (auto simp: on_fs_event_def hot_reload_def split: sum.split)
  then show ?thesis by (simp add: start_watcher_def)
qed

subsection \<open>Start-up\<close>

record startup_env =
  st_env :: env
  audit_var :: "string option"
  st_rules :: "sigma_rule list"
  st_scanner :: yara_scanner
  st_trust :: trust_state
  ffi_initialises :: bool
  ffi_starts :: bool

text \<open>The rules database, or the built-in rules if it cannot be loaded.\<close>

definition startup_config :: "env \<Rightarrow> config" where
  "startup_config w = (case load_rules_db w of Inl _ \<Rightarrow> default_config w | Inr c \<Rightarrow> c)"

definition register_startup :: "env \<Rightarrow> config \<Rightarrow> ffi_call list" where
  "register_startup w cfg = register_sensitive w cfg @ register_protected w cfg"

declare startup_config_def [simp] register_startup_def [simp]

definition run_agent :: "startup_env \<Rightarrow> string + engine" where
  "run_agent s =
     (let w = st_env s;
          cfg = startup_config w;
          e0 = new_engine cfg (audit_var s) (st_rules s) (st_scanner s) (st_trust s)
      in if \<not> ffi_initialises s then Inl ''Telemetry FFI init failed''
         else
           let e1 = e0\<lparr>ffi_log := InitializeTelemetryEngine # initialize_trust_cache w cfg (st_trust s)\<rparr>
           in if \<not> ffi_starts s then Inl ''Telemetry FFI start failed''
              else Inr (e1\<lparr>ffi_log := ffi_log e1 @ StartTelemetryEngine # register_startup w cfg\<rparr>))"

subsection \<open>Steps\<close>

datatype input =
    Telemetry telemetry_event_raw
  | PurgeTick
  | FsEvent "string list" fs_event_kind
  | Request cli_request
  | RunTask nat

text \<open>Task \<open>n\<close> of the queue is removed and runs; tasks are independent threads, so any may be next.\<close>

definition run_queued :: "env \<Rightarrow> nat \<Rightarrow> engine \<Rightarrow> engine option" where
  "run_queued w n e =
     (if n < length (tasks e)
      then run_task w (tasks e ! n) (e\<lparr>tasks := take n (tasks e) @ drop (Suc n) (tasks e)\<rparr>)
      else Some e)"

text \<open>The consumer of the event queue is the one thread outside the runtime; when it has panicked or
  blocked no event is handled any more. Everything else runs on the runtime. A blocked consumer keeps
  its locks, so some of the other steps would wait for ever as well: the agent makes no step that is
  not one here.\<close>

fun agent_exec :: "env \<times> input \<Rightarrow> engine \<Rightarrow> engine option" where
  "agent_exec (w, Telemetry raw) e =
     (if consumer_ended e then Some e else handle_event (w\<lparr>on_runtime := False\<rparr>) raw e)"
| "agent_exec (w, PurgeTick) e = Some (purge_expired_states w e)"
| "agent_exec (w, FsEvent paths kind) e = Some (on_fs_event w paths kind e)"
| "agent_exec (w, Request r) e = map_option snd (handle_request w r e)"
| "agent_exec (w, RunTask n) e = run_queued (w\<lparr>on_runtime := True\<rparr>) n e"

inductive reachable :: "(env \<times> input \<Rightarrow> bool) \<Rightarrow> engine \<Rightarrow> engine \<Rightarrow> bool" for adm e0 where
  start: "reachable adm e0 e0"
| step: "reachable adm e0 e \<Longrightarrow> adm i \<Longrightarrow> agent_exec i e = Some e' \<Longrightarrow> reachable adm e0 e'"

inductive_cases agent_stepE: "reachable adm e0 e"

text \<open>Admissible inputs: any environment; with non-zero time stamps; without commands.\<close>

definition any_input :: "env \<times> input \<Rightarrow> bool" where
  "any_input i \<longleftrightarrow> env_ok (fst i)"

fun stamped :: "input \<Rightarrow> bool" where
  "stamped (Telemetry raw) = (timestamp_ns (header raw) \<noteq> 0)"
| "stamped _ = True"

definition stamped_input :: "env \<times> input \<Rightarrow> bool" where
  "stamped_input i \<longleftrightarrow> env_ok (fst i) \<and> stamped (snd i)"

fun is_request :: "input \<Rightarrow> bool" where
  "is_request (Request _) = True"
| "is_request _ = False"

definition unattended_input :: "env \<times> input \<Rightarrow> bool" where
  "unattended_input i \<longleftrightarrow> env_ok (fst i) \<and> \<not> is_request (snd i)"

subsection \<open>Every step keeps the contract\<close>

lemma on_fs_event_base: "base_ok e (on_fs_event w paths kind e)"
  by (simp add: on_fs_event_def hot_reload_def contract_defs split: sum.split)

lemma on_fs_event_silent: "silent e (on_fs_event w paths kind e)"
  by (simp add: on_fs_event_def hot_reload_def contract_defs split: sum.split)

lemma base_tasks: "base_ok e (e\<lparr>tasks := ts\<rparr>)"
  by (simp add: contract_defs)

lemma run_queued_base: 
  assumes "env_ok w" "run_queued w n e = Some e'"
  shows "base_ok e e'"
proof (cases "n < length (tasks e)")
  case True
  then have "run_task w (tasks e ! n) (e\<lparr>tasks := take n (tasks e) @ drop (Suc n) (tasks e)\<rparr>) = Some e'"
    using assms(2) by (simp add: run_queued_def)
  then show ?thesis
    using base_ok_trans [OF base_tasks run_task.op_base [of "(w, tasks e ! n)"]] assms(1) by simp
qed (use assms in \<open>simp add: run_queued_def\<close>)

interpretation agent: engine_op agent_exec any_input
proof
  fix i e e' assume i: "any_input i" and r: "agent_exec i e = Some e'"
  obtain w inp where wi: "i = (w, inp)" by (cases i)
  then have w: "env_ok w" using i by (simp add: any_input_def)
  show "base_ok e e'"
  proof (cases inp)
    case (Telemetry raw)
    then show ?thesis
      using r w event.op_base [of "(w\<lparr>on_runtime := False\<rparr>, raw)" e e'] by (auto simp: wi split: if_splits)
  next
    case (RunTask n)
    then show ?thesis
      using r w run_queued_base [of "w\<lparr>on_runtime := True\<rparr>" n e e'] by (simp add: wi)
  qed (use r purge_base on_fs_event_base handle_request_base in \<open>auto simp: wi\<close>)
qed

lemma reachable_base: "reachable adm e0 e \<Longrightarrow> (\<And>i. adm i \<Longrightarrow> any_input i) \<Longrightarrow> base_ok e0 e"
proof (induction rule: reachable.induct)
  case (step e i e')
  then show ?case using agent.op_base base_ok_trans by metis
qed simp

lemma engine_inv_new [simp]: "engine_inv (new_engine cfg a rules sc t)"
  by (simp add: new_engine_def engine_inv_def entries_ok_def children_ok_def)

lemma run_agent_inv: "run_agent s = Inr e \<Longrightarrow> engine_inv e \<and> tasks e = [] \<and> signals e = [] \<and>
    process_map e = [] \<and> children_map e = []"
  by (auto simp: run_agent_def Let_def new_engine_def engine_inv_def entries_ok_def children_ok_def
      split: if_splits)

lemma timed_start: "run_agent s = Inr e \<Longrightarrow> timed e"
  using run_agent_inv [of s e] by (simp add: timed_def)

subsection \<open>With non-zero time stamps every step returns\<close>

lemma timed_drop_task:
  assumes "timed e" "n < length (tasks e)"
  shows "timed (e\<lparr>tasks := take n (tasks e) @ drop (Suc n) (tasks e)\<rparr>)"
proof -
  have "set (take n (tasks e) @ drop (Suc n) (tasks e)) \<subseteq> set (tasks e)"
    by (simp add: set_take_subset set_drop_subset)
  then show ?thesis using assms(1) by (auto simp: timed_def)
qed

lemma run_queued_returns: "timed e \<Longrightarrow> returns (run_queued w n e)"
  by (auto simp: run_queued_def timed_drop_task intro!: run_task_returns)
    (simp add: timed_def)

lemma timed_cong:
  "timed e \<Longrightarrow> process_map f = process_map e \<Longrightarrow> children_map f = children_map e \<Longrightarrow>
     tasks f = tasks e \<Longrightarrow> timed f"
  by (simp add: timed_def)

lemma release_timed:
  assumes "timed e" "find_live (process_map e) pid = Some (k, s)"
  obtains e' where "release_process_tree w pid e = Some (Inr e')" "timed e'"
    "signals e' = signals e @ [(SIGCONT, sint (pk_pid k))]"
    "audit_mode e' = audit_mode e" "config_cell e' = config_cell e"
    "process_map e' = dm_alter k clear_threat (process_map e)"
  using assms timed_collect [OF assms(1) timed_live_key [OF assms]]
  by (auto simp: release_process_tree_def engine_simps signalled_def Let_def timed_def
      timed_process_keys)

lemma kill_timed:
  assumes "timed e" "find_live (process_map e) pid = Some (k, s)"
  obtains e' where "kill_process_tree w pid e = Some (Inr e')" "timed e'"
    "signals e' = signals e @ [(SIGKILL, sint (pk_pid k))]" "process_map e' = process_map e"
  using assms timed_collect [OF assms(1) timed_live_key [OF assms]]
  by (auto simp: kill_process_tree_def engine_simps signalled_def Let_def timed_def)

lemma release_returns: "timed e \<Longrightarrow> \<exists>r. release_process_tree w pid e = Some r \<and> (\<forall>e'. r = Inr e' \<longrightarrow> timed e')"
  by (cases "find_live (process_map e) pid")
    (auto simp: release_process_tree_def [of w pid e] elim: release_timed [of e pid _ _ w])

lemma kill_returns: "timed e \<Longrightarrow> \<exists>r. kill_process_tree w pid e = Some r \<and> (\<forall>e'. r = Inr e' \<longrightarrow> timed e')"
  by (cases "find_live (process_map e) pid")
    (auto simp: kill_process_tree_def [of w pid e] elim: kill_timed [of e pid _ _ w])

lemma reply_timed: "timed f \<Longrightarrow> (\<forall>e'. r = Inr e' \<longrightarrow> timed e') \<Longrightarrow> timed (snd (reply ok f r))"
  by (cases r) (simp_all add: reply_def)

lemma returns_reply:
  "timed f \<Longrightarrow> \<exists>r. x = Some r \<and> (\<forall>e'. r = Inr e' \<longrightarrow> timed e') \<Longrightarrow>
     returns (map_option snd (map_option (reply ok f) x))"
  by (auto simp: reply_timed)

lemma timed_allow_image: "timed e \<Longrightarrow> timed (allow_image w path e)"
  by (rule timed_cong) simp_all

lemma timed_deny_image: "timed e \<Longrightarrow> timed (deny_image w path e)"
  by (rule timed_cong) simp_all

lemma handle_request_returns: "timed e \<Longrightarrow> returns (map_option snd (handle_request w r e))"
proof (cases r)
  case (TrustOnce pid)
  then show "timed e \<Longrightarrow> ?thesis"
    by (auto simp: trust_once_def intro!: reply_timed split: option.split)
next
  case ReloadRules
  then show "timed e \<Longrightarrow> ?thesis"
    by (auto simp: reload_rules_def intro!: reply_timed split: sum.split) (simp add: timed_def)
next
  case (ReleaseContainment pid)
  then show "timed e \<Longrightarrow> ?thesis"
    by (simp only: serve_request.simps) (intro returns_reply release_returns)
next
  case (KillProcessTree pid)
  then show "timed e \<Longrightarrow> ?thesis"
    by (simp only: serve_request.simps) (intro returns_reply kill_returns)
next
  case (AllowProcessTree pid)
  then show "timed e \<Longrightarrow> ?thesis"
    by (auto simp only: serve_request.simps allow_process_tree_def Let_def option.map returns_Some
        snd_conv intro!: returns_reply release_returns timed_allow_image split: option.split prod.split)
next
  case (DenyProcessTree pid)
  then show "timed e \<Longrightarrow> ?thesis"
    by (auto simp only: serve_request.simps deny_process_tree_def Let_def option.map returns_Some
        snd_conv intro!: returns_reply kill_returns timed_deny_image split: option.split prod.split)
qed simp_all

lemma agent_returns: "stamped_input i \<Longrightarrow> timed e \<Longrightarrow> returns (agent_exec i e)"
proof (cases i)
  case (Pair w inp)
  assume i: "stamped_input i" and t: "timed e"
  show ?thesis
  proof (cases inp)
    case (Telemetry raw)
    then show ?thesis using i t handle_event_returns by (simp add: Pair stamped_input_def)
  next
    case (FsEvent paths kind)
    have "timed (on_fs_event w paths kind e)"
      using t by (auto simp: on_fs_event_def hot_reload_def split: sum.split intro: timed_cong)
    then show ?thesis by (simp add: Pair FsEvent)
  qed (use t in \<open>simp_all add: Pair purge_timed handle_request_returns run_queued_returns\<close>)
qed

lemma reachable_timed: "reachable adm e0 e \<Longrightarrow> timed e0 \<Longrightarrow> (\<And>i. adm i \<Longrightarrow> stamped_input i) \<Longrightarrow> timed e"
proof (induction rule: reachable.induct)
  case (step e i e')
  then have "returns (agent_exec i e)" by (intro agent_returns) simp_all
  then show ?case using step by (simp add: returns_def)
qed

subsection \<open>Audit mode\<close>

definition audited :: "engine \<Rightarrow> bool" where
  "audited e \<longleftrightarrow> audit_mode e \<and> no_prompt e"

lemma run_queued_silent:
  assumes "run_queued w n e = Some e'" "audited e"
  shows "silent e e'"
proof (cases "n < length (tasks e)")
  case True
  let ?e = "e\<lparr>tasks := take n (tasks e) @ drop (Suc n) (tasks e)\<rparr>"
  have sub: "set (tasks ?e) \<subseteq> set (tasks e)"
    by (simp add: set_take_subset set_drop_subset)
  have np: "\<not> is_prompt (tasks e ! n)" using assms(2) True by (auto simp: audited_def no_prompt_def)
  have r: "silent ?e e'"
    using run_task_lawful [OF np, of ?e w] assms(1) True by (simp add: lawful_def run_queued_def)
  have "silent e ?e"
    using sub by (auto simp: silent_def no_prompt_def)
  then show ?thesis by (rule silent_trans [OF _ r]) simp
qed (use assms in \<open>simp add: run_queued_def\<close>)

lemma agent_step_silent:
  assumes "unattended_input i" "agent_exec i e = Some e'" "audited e"
  shows "signals e' = signals e \<and> audited e'"
proof -
  obtain w inp where i: "i = (w, inp)" by (cases i)
  have "silent e e'"
  proof (cases inp)
    case (Telemetry raw)
    then show ?thesis
      using assms handle_event_lawful [of "w\<lparr>on_runtime := False\<rparr>" e raw]
      by (auto simp: i unattended_input_def lawful_def split: if_splits)
  next
    case (RunTask n)
    then show ?thesis using assms run_queued_silent by (auto simp: i)
  qed (use assms in \<open>auto simp: i unattended_input_def purge_silent on_fs_event_silent\<close>)
  moreover have "audit_mode e' = audit_mode e"
    using assms agent.op_base [of i e e'] by (simp add: unattended_input_def any_input_def base_ok_audit)
  ultimately show ?thesis using assms(3) by (simp add: silent_def audited_def)
qed

lemma reachable_silent:
  "reachable unattended_input e0 e \<Longrightarrow> audited e0 \<Longrightarrow> signals e = signals e0 \<and> audited e"
proof (induction rule: reachable.induct)
  case (step e i e')
  then show ?case using agent_step_silent [of i e e'] by simp
qed simp

end
