(* ===== verification/Runs.thy ===== *)
theory Runs
  imports Agent
begin

section \<open>Concrete runs of the agent\<close>

text \<open>
  A start of the agent in the quiet environment, creation events, and the run of two creations:
  the inputs at which the properties of runs are exhibited.
\<close>

text \<open>A start of the agent in the quiet environment, and the event of a process creation.\<close>

definition sample_startup :: "string option \<Rightarrow> config \<Rightarrow> startup_env" where
  "sample_startup audit cfg =
     \<lparr>st_env = quiet_env\<lparr>load_rules_db := Inr cfg\<rparr>, audit_var = audit, st_rules = [],
      st_scanner = \<lparr>yara_rules = None, scan_cache = []\<rparr>, st_trust = trust_at_start Absent Absent,
      ffi_initialises = True, ffi_starts = True\<rparr>"

definition create_event :: "u64 \<Rightarrow> u32 \<Rightarrow> process_create_details \<Rightarrow> telemetry_event_raw" where
  "create_event ts parent d =
     \<lparr>header = \<lparr>sequence_number = 0, timestamp_ns = ts, hdr_pid = parent,
        hdr_event_type = ProcessCreate, hdr_source = EBPF\<rparr>,
      details_buffer = enc_process_create_details d\<rparr>"

lemma wf_create_details:
  "length p \<le> 512 \<Longrightarrow> wf_process_create_details (create_details c r p)"
  by (simp add: wf_process_create_details_def create_details_def length_pad_text)

lemma wf_create_event:
  "wf_process_create_details d \<Longrightarrow> wf_event (create_event ts parent d)"
  using process_create_details_codec.length_enc by (simp add: wf_event_def create_event_def)

lemma create_event_simps [simp]:
  "timestamp_ns (header (create_event ts parent d)) = ts"
  "hdr_pid (header (create_event ts parent d)) = parent"
  by (simp_all add: create_event_def)

lemma handle_create_event:
  assumes "wf_process_create_details d"
  shows "handle_event w (create_event ts parent d) e =
    process_create w (header (create_event ts parent d)) d e"
  using process_create_details_codec.dec_exact [OF assms]
  by (simp add: handle_event_def create_event_def Let_def)

lemma start_sample:
  "\<exists>e. run_agent (sample_startup audit cfg) = Inr e \<and> config_cell e = cfg \<and>
     audit_mode e = (audit = Some ''true'' \<or> audit = Some ''1'') \<and> sigma_rules e = [] \<and> \<not> consumer_ended e"
  by (auto simp: run_agent_def sample_startup_def Let_def new_engine_def split: option.splits)

text \<open>A process and its child, created by two events.\<close>

definition parent_event :: telemetry_event_raw where
  "parent_event = create_event 5 1 (create_details 7 1 ''/usr/bin/npm'')"

definition child_event :: telemetry_event_raw where
  "child_event = create_event 6 7 (create_details 8 7 ''/bin/sh'')"

definition connect_event :: telemetry_event_raw where
  "connect_event = \<lparr>header = sample_header NetworkConnect,
     details_buffer = enc_network_connect_details connect_details\<rparr>"

abbreviation consumer_env :: env where
  "consumer_env \<equiv> quiet_env\<lparr>on_runtime := False\<rparr>"

lemma create_step:
  assumes "wf_process_create_details d" "sigma_rules e = []" "\<not> consumer_ended e"
  shows "agent_exec (quiet_env, Telemetry (create_event ts parent d)) e =
    Some (create_entry consumer_env (header (create_event ts parent d)) d e)"
  using assms by (simp add: handle_create_event process_create_eq sigma_check_def)

lemma family_run:
  "\<exists>e0 e k s. run_agent (sample_startup audit cfg) = Inr e0 \<and> reachable stamped_input e0 e \<and>
     find_live (process_map e) 7 = Some (k, s) \<and> find_live (process_map e) 8 \<noteq> None \<and>
     children_of (children_map e) \<lparr>pk_pid = 7, pk_start_time = 0\<rparr> = [\<lparr>pk_pid = 8, pk_start_time = 6\<rparr>]"
proof -
  obtain e0 where e0: "run_agent (sample_startup audit cfg) = Inr e0" "sigma_rules e0 = []" "\<not> consumer_ended e0"
    using start_sample by blast
  have empty: "process_map e0 = []" "children_map e0 = []" using run_agent_inv [OF e0(1)] by simp_all
  have ok: "stamped_input (quiet_env, Telemetry parent_event)"
    "stamped_input (quiet_env, Telemetry child_event)"
    by (simp_all add: stamped_input_def parent_event_def child_event_def)
  define e1 where "e1 = create_entry consumer_env (header parent_event) (create_details 7 1 ''/usr/bin/npm'') e0"
  define e2 where "e2 = create_entry consumer_env (header child_event) (create_details 8 7 ''/bin/sh'') e1"
  have r1: "agent_exec (quiet_env, Telemetry parent_event) e0 = Some e1"
    unfolding parent_event_def e1_def by (rule create_step) (simp_all add: wf_create_details e0)
  have r2: "agent_exec (quiet_env, Telemetry child_event) e1 = Some e2"
    unfolding child_event_def e2_def by (rule create_step) (simp_all add: wf_create_details e0 e1_def)
  have "reachable stamped_input e0 e1"
    using reachable.start ok(1) r1 by (rule reachable.step)
  then have reach: "reachable stamped_input e0 e2"
    using ok(2) r2 by (rule reachable.step)
  let ?k = "\<lparr>pk_pid = 7, pk_start_time = 5\<rparr>" and ?c = "\<lparr>pk_pid = 8, pk_start_time = 6\<rparr>"
  obtain s where pm1: "process_map e1 = [(?k, s)]" and s: "\<not> terminated s"
    by (simp add: e1_def empty parent_event_def quiet_env_def dm_put_def stored_state_def
        created_state_def Let_def)
  obtain s' where pm2: "process_map e2 = [(?k, s), (?c, s')]" and s': "\<not> terminated s'"
    by (simp add: e2_def pm1 child_event_def quiet_env_def dm_put_def stored_state_def
        created_state_def Let_def)
  have "children_of (children_map e2) \<lparr>pk_pid = 7, pk_start_time = 0\<rparr> = [?c]"
    by (simp add: e2_def e1_def empty child_event_def parent_event_def add_child_def dm_put_def
        children_of_def dm_get_def hs_insert_def)
  moreover have "find_live (process_map e2) 7 = Some (?k, s)" "find_live (process_map e2) 8 \<noteq> None"
    by (simp_all add: pm2 find_live_def s s')
  ultimately show ?thesis using e0(1) reach by blast
qed

lemma stamped_any: "stamped_input i \<Longrightarrow> any_input i"
  by (simp add: stamped_input_def any_input_def)

lemma reachable_any:
  "reachable adm e0 e \<Longrightarrow> (\<And>i. adm i \<Longrightarrow> any_input i) \<Longrightarrow> reachable any_input e0 e"
  by (induction rule: reachable.induct) (auto intro: reachable.start reachable.step)

lemma started_timed:
  "run_agent s = Inr e0 \<Longrightarrow> reachable stamped_input e0 e \<Longrightarrow> timed e"
  by (rule reachable_timed [OF _ timed_start])

end
