(* ===== verification/Lives.thy ===== *)
theory Lives
  imports Runs
begin

section \<open>Refinement: the life of every process\<close>

text \<open>
  The abstract system keeps one automaton per process key: \<open>Absent\<close>, \<open>Running\<close>, \<open>Exited\<close>
  with the time its record expires. The whole agent refines it: the abstraction \<open>life\<close> reads the
  process table, and every step of the agent, whichever handler, command or task it runs, moves
  each key along an edge of the automaton that the step's input allows.
\<close>

subsection \<open>The abstract system\<close>

datatype life = Absent | Running | Exited "int option"

text \<open>The labels of the abstract steps: the creation of a process, the sweep after the installer of
  this key, the purge, and everything else.\<close>

datatype life_label = Creation process_key | Sweep process_key | Purge | Activity

inductive life_step :: "int \<Rightarrow> life_label \<Rightarrow> process_key \<Rightarrow> life \<Rightarrow> life \<Rightarrow> bool"
  for now label k where
  stays: "life_step now label k l l"
| starts: "label = Creation k \<Longrightarrow> life_step now label k l Running"
| ends: "life_step now label k Running (Exited (Some (now + five_minutes)))"
| renewed: "label = Sweep k \<Longrightarrow> life_step now label k (Exited d) (Exited (Some (now + five_minutes)))"
| forgotten: "label = Purge \<Longrightarrow> d < now \<Longrightarrow> life_step now label k (Exited (Some d)) Absent"

inductive_simps life_step_Exited: "life_step now label k (Exited d) l"
inductive_simps life_step_Absent: "life_step now label k Absent l"

code_pred life_step .

subsection \<open>The abstraction\<close>

definition life_of :: "process_state option \<Rightarrow> life" where
  "life_of v =
     (case v of
        None \<Rightarrow> Absent
      | Some s \<Rightarrow> if terminated s then Exited (ttl_deadline s) else Running)"

definition life :: "engine \<Rightarrow> process_key \<Rightarrow> life" where
  "life e k = life_of (dm_get (process_map e) k)"

definition created_key :: "telemetry_event_raw \<Rightarrow> process_key" where
  "created_key raw =
     \<lparr>pk_pid = pc_child_pid (dec_process_create_details (details_buffer raw)),
      pk_start_time = timestamp_ns (header raw)\<rparr>"

fun task_label :: "task \<Rightarrow> life_label" where
  "task_label (OrphanSweep k) = Sweep k"
| "task_label _ = Activity"

fun label_of :: "engine \<Rightarrow> input \<Rightarrow> life_label" where
  "label_of e (Telemetry raw) =
     (if hdr_event_type (header raw) = ProcessCreate \<and> \<not> consumer_ended e
      then Creation (created_key raw) else Activity)"
| "label_of e PurgeTick = Purge"
| "label_of e (RunTask n) = (if n < length (tasks e) then task_label (tasks e ! n) else Activity)"
| "label_of e _ = Activity"

subsection \<open>Steps that at most end processes\<close>

definition only_ends :: "int \<Rightarrow> process_map \<Rightarrow> process_map \<Rightarrow> bool" where
  "only_ends now pm pm' \<longleftrightarrow>
     (dm_ok pm \<longrightarrow> dm_ok pm' \<and>
       (\<forall>k. life_step now Activity k (life_of (dm_get pm k)) (life_of (dm_get pm' k))))"

lemma life_of_simps [simp]:
  "life_of None = Absent" "life_of (Some s) = Absent \<longleftrightarrow> False"
  "life_of (Some s) = Running \<longleftrightarrow> \<not> terminated s"
  "life_of (Some s) = Exited d \<longleftrightarrow> terminated s \<and> ttl_deadline s = d"
  by (auto simp: life_of_def)

lemma life_of_stop [simp]: "life_of (Some (stop_entry now s)) = Exited (Some (now + five_minutes))"
  by simp

lemma life_step_plain:
  "life_step now Activity k l l' \<longleftrightarrow>
     l' = l \<or> l = Running \<and> l' = Exited (Some (now + five_minutes))"
  by (auto simp: life_step.simps)

lemma life_step_plain_mono: "life_step now Activity k l l' \<Longrightarrow> life_step now label k l l'"
  by (auto simp: life_step_plain intro: life_step.intros)

lemma only_ends_refl [simp]: "only_ends now pm pm"
  by (simp add: only_ends_def stays)

lemma only_ends_trans: "only_ends now pm pm' \<Longrightarrow> only_ends now pm' pm'' \<Longrightarrow> only_ends now pm pm''"
  unfolding only_ends_def life_step_plain by (metis life.distinct(5))

lemma only_ends_alter:
  assumes "\<And>s. terminated (f s) = terminated s" "\<And>s. ttl_deadline (f s) = ttl_deadline s"
  shows "only_ends now pm (dm_alter k f pm)"
  unfolding only_ends_def life_step_plain
  by (auto simp: dm.ok_alter dm.get_alter life_of_def assms split: option.split)

lemma only_ends_stop:
  assumes "(k, s) \<in> set pm" "\<not> terminated s"
  shows "only_ends now pm (dm_alter k (stop_entry now) pm)"
  using assms unfolding only_ends_def life_step_plain
  by (auto simp: dm.ok_alter dm.get_alter simp flip: dm_get_iff)

lemma only_ends_mark: "only_ends now pm (mark_terminated now pid pm)"
  by (auto simp: mark_terminated_def dest: find_live_SomeD intro!: only_ends_stop split: option.split)

lemma only_ends_fold_mark: "only_ends now pm (fold (mark_terminated now) pids pm)"
proof (induction pids arbitrary: pm)
  case (Cons p ps)
  show ?case
    using only_ends_trans [OF only_ends_mark [of now pm p] Cons.IH] by simp
qed simp

lemma only_ends_stop_all: "only_ends now pm (stop_all now pid pm)"
  unfolding only_ends_def life_step_plain
proof (intro impI conjI allI)
  assume "dm_ok pm"
  then show "dm_ok (stop_all now pid pm)" by (simp add: dm_ok_def)
  fix k show "life_of (dm_get (stop_all now pid pm) k) = life_of (dm_get pm k) \<or>
      life_of (dm_get pm k) = Running \<and>
      life_of (dm_get (stop_all now pid pm) k) = Exited (Some (now + five_minutes))"
    by (cases "dm_get pm k") (auto simp: dm_get_stop_all)
qed

definition ends_only :: "env \<Rightarrow> engine \<Rightarrow> engine option \<Rightarrow> bool" where
  "ends_only w e r \<longleftrightarrow> (\<forall>e'. r = Some e' \<longrightarrow> only_ends (clock w) (process_map e) (process_map e'))"

lemma ends_only_Some [simp]:
  "ends_only w e (Some e') = only_ends (clock w) (process_map e) (process_map e')"
  by (simp add: ends_only_def)

lemma ends_only_suspend:
  "process_map f = pm \<Longrightarrow> only_ends (clock w) (process_map e) pm \<Longrightarrow>
     ends_only w e (suspend_process_tree w k reason cat r f)"
  by (auto simp: ends_only_def dest: suspend_frame)

lemma ends_only_terminate: "ends_only w e (terminate_threat_pkm w k reason cat r e)"
  unfolding ends_only_def terminate_threat_pkm_def Let_def
  by (auto simp: engine_simps only_ends_fold_mark only_ends_trans [OF only_ends_fold_mark only_ends_mark]
      split: option.splits if_splits)

lemma only_ends_mark_around: "only_ends now pm (fst (mark_around held now pids pm))"
proof (induction pids arbitrary: pm)
  case (Cons p ps)
  have "only_ends now pm (fst (mark_around held now ps (dm_alter k (stop_entry now) pm)))"
    if "find_live pm p = Some (k, s)" for k s
  proof (rule only_ends_trans [OF _ Cons.IH])
    show "only_ends now pm (dm_alter k (stop_entry now) pm)"
      using find_live_SomeD [OF that] only_ends_stop by blast
  qed
  then show ?case using Cons.IH by (auto split: option.split)
qed simp

lemma ends_only_terminate_holding: "ends_only w e (terminate_holding w k reason cat r e)"
  by (auto simp: ends_only_def terminate_holding_def engine_simps only_ends_mark_around Let_def case_prod_beta
      simp del: mark_around.simps split: option.split)

lemmas ends_rules = ends_only_suspend [OF refl] ends_only_terminate ends_only_terminate_holding only_ends_alter

subsection \<open>The handlers\<close>

lemma file_read_ends: "ends_only w e (file_read w h d e)"
  by (auto simp: file_read_cases Let_def record_read_def intro!: ends_rules split: option.split)

lemma file_write_ends: "ends_only w e (file_write w h d e)"
  by (auto simp: file_write_def Let_def intro!: ends_rules split: option.split)

lemma file_open_ends: "ends_only w e (file_open w h d e)"
  by (auto simp: file_open_def Let_def intro!: ends_rules split: option.split)

lemma network_connect_ends: "ends_only w e (network_connect w h d e)"
  by (auto simp: network_connect_def Let_def note_connect_def intro!: ends_rules split: option.split)

lemma dup2_ends: "ends_only w e (dup2 w h d e)"
  by (auto simp: dup2_def Let_def intro!: ends_rules split: option.split)

lemma registry_write_ends: "ends_only w e (registry_write w h d e)"
  by (auto simp: registry_write_def Let_def intro!: ends_rules split: option.split)

lemma ptrace_attach_ends: "ends_only w e (ptrace_attach w h d e)"
  by (auto simp: ptrace_attach_def Let_def intro!: ends_rules split: option.split)

lemma memory_protect_ends: "ends_only w e (memory_protect w h d b e)"
  by (auto simp: memory_protect_def Let_def intro!: ends_rules split: option.split)

lemma image_load_ends: "ends_only w e (image_load w h d e)"
  by (auto simp: image_load_def Let_def split: option.split)

lemma process_stop_ends: "ends_only w e (process_stop w h e)"
  by (auto simp: process_stop_def only_ends_stop_all split: option.split)

lemmas handlers_end = file_read_ends file_write_ends file_open_ends network_connect_ends dup2_ends
  registry_write_ends ptrace_attach_ends memory_protect_ends image_load_ends process_stop_ends

lemma handle_event_ends:
  "hdr_event_type (header raw) \<noteq> ProcessCreate \<Longrightarrow> ends_only w e (handle_event w raw e)"
  by (cases "hdr_event_type (header raw)")
    (simp_all add: handle_event_def Let_def clipboard_write_def handlers_end)

subsection \<open>Creation, background tasks, commands, purge\<close>

text \<open>The tables agree on every key but the one created.\<close>

lemma process_create_life:
  assumes "env_ok w" "dm_ok (process_map e)" "process_create w h d e = Some e'"
  shows "life_of (dm_get (process_map e') k) =
    (if k = \<lparr>pk_pid = pc_child_pid d, pk_start_time = timestamp_ns h\<rparr> then Running
     else life_of (dm_get (process_map e) k))"
proof -
  let ?k = "\<lparr>pk_pid = pc_child_pid d, pk_start_time = timestamp_ns h\<rparr>"
  let ?pm = "dm_put ?k (stored_state w h d e) (process_map e)"
  have "process_map e' = rehash w ?pm"
    using assms(3) suspend_frame
    by (fastforce simp: process_create_eq sigma_check_def split: option.splits)
  moreover have "dm_get (rehash w ?pm) = dm_get ?pm"
    using assms(1,2) by (intro ext dm_get_rehash) (simp_all add: dm.ok_put)
  moreover have "\<not> terminated (stored_state w h d e)"
    by (simp add: stored_state_def created_state_def Let_def)
  ultimately show ?thesis by (simp add: dm.get_put)
qed

lemma sweep_child_ends: "only_ends (clock w) (process_map e) (process_map (sweep_child w pid e))"
  by (auto simp: sweep_child_def Let_def engine_simps dest: find_live_SomeD intro!: only_ends_stop
      split: option.split)

lemma fold_sweep_ends: "only_ends (clock w) (process_map e) (process_map (fold (sweep_child w) pids e))"
proof (induction pids arbitrary: e)
  case (Cons p ps)
  show ?case using only_ends_trans [OF sweep_child_ends [of w e p] Cons.IH] by simp
qed simp

lemma yara_task_ends: "ends_only w e (yara_task w key path e)"
  by (auto simp: yara_task_def Let_def intro!: ends_rules split: prod.split)

lemma run_desktop_prompt_ends: "ends_only w e (run_desktop_prompt w key path reason e)"
  by (auto simp: run_desktop_prompt_def Let_def engine_simps ends_only_def intro!: ends_rules
      split: option.splits)

lemma release_ends:
  "release_process_tree w pid e = Some (Inr e') \<Longrightarrow> only_ends (clock w) (process_map e) (process_map e')"
  by (auto simp: release_process_tree_def Let_def engine_simps intro!: ends_rules
      split: option.splits prod.splits)

lemma kill_ends:
  "kill_process_tree w pid e = Some (Inr e') \<Longrightarrow> only_ends (clock w) (process_map e) (process_map e')"
  by (auto simp: kill_process_tree_def Let_def engine_simps split: option.splits prod.splits)

lemma reply_ends:
  "process_map f = process_map e \<Longrightarrow>
   (\<And>e'. r = Inr e' \<Longrightarrow> only_ends (clock w) (process_map e) (process_map e')) \<Longrightarrow>
     only_ends (clock w) (process_map e) (process_map (snd (reply ok f r)))"
  by (cases r) (simp_all add: reply_def)

lemma handle_request_ends:
  assumes "handle_request w r e = Some x"
  shows "only_ends (clock w) (process_map e) (process_map (snd x))"
proof (cases r)
  case (TrustOnce pid)
  then show ?thesis
    using assms by (auto simp: trust_once_def trust_entry_once_def intro!: reply_ends ends_rules
        split: option.splits)
next
  case ReloadRules
  then show ?thesis
    using assms by (auto simp: reload_rules_def intro!: reply_ends split: sum.splits)
next
  case (AllowProcessTree pid)
  then show ?thesis
    using assms release_ends [where e = "allow_image w p e" for p]
    by (auto simp: allow_process_tree_def Let_def intro!: reply_ends split: option.splits)
next
  case (DenyProcessTree pid)
  then show ?thesis
    using assms kill_ends [where e = "deny_image w p e" for p]
    by (auto simp: deny_process_tree_def Let_def intro!: reply_ends split: option.splits)
qed (use assms in \<open>auto intro!: reply_ends intro: release_ends kill_ends\<close>)

lemma orphan_sweep_life:
  assumes "dm_ok (process_map e)" "orphan_sweep w key e = Some e'"
  shows "life_step (clock w) (Sweep key) k (life_of (dm_get (process_map e) k))
    (life_of (dm_get (process_map e') k))"
proof -
  obtain pids where e': "process_map e' =
      dm_alter key (stop_entry (clock w)) (process_map (fold (sweep_child w) pids e))"
    using assms(2) by (auto simp: orphan_sweep_def Let_def split: option.splits)
  let ?l = "life_of (dm_get (process_map e) k)"
  let ?m = "life_of (dm_get (process_map (fold (sweep_child w) pids e)) k)"
  have m: "?m = ?l \<or> ?l = Running \<and> ?m = Exited (Some (clock w + five_minutes))"
    using fold_sweep_ends [of w e pids] assms(1) by (auto simp: only_ends_def life_step_plain)
  have "life_of (dm_get (process_map e') k) = ?m \<or>
      k = key \<and> ?m \<noteq> Absent \<and> life_of (dm_get (process_map e') k) = Exited (Some (clock w + five_minutes))"
    by (cases "dm_get (process_map (fold (sweep_child w) pids e)) k") (auto simp: e' dm.get_alter)
  then show ?thesis
    using m by (cases ?l) (auto intro: life_step.intros)
qed

lemma purge_life:
  assumes "engine_inv e"
  shows "life_step (clock w) Purge k (life e k) (life (purge_expired_states w e) k)"
proof (cases "dm_get (process_map e) k")
  case (Some s)
  have dm: "dm_ok (process_map e)" using assms by (simp add: engine_inv_def entries_ok_def)
  have "entry_ok k s"
    using assms dm_get_mem [OF Some] by (auto simp: engine_inv_def entries_ok_def)
  then have t: "terminated s \<longleftrightarrow> ttl_deadline s \<noteq> None" by (simp add: entry_ok_def)
  show ?thesis
  proof (cases "\<exists>d. ttl_deadline s = Some d \<and> d < clock w")
    case True
    then have "life e k = Exited (ttl_deadline s)" "life (purge_expired_states w e) k = Absent"
      using t Some dm by (auto simp: life_def purge_expired_states_def dm.get_retain)
    then show ?thesis using True by (auto intro: life_step.intros)
  next
    case False
    then have "life (purge_expired_states w e) k = life e k"
      using Some dm by (auto simp: life_def purge_expired_states_def dm.get_retain split: option.split)
    then show ?thesis by (simp add: stays)
  qed
next
  case None
  then have "life (purge_expired_states w e) k = life e k"
    using assms by (simp add: life_def purge_expired_states_def dm.get_retain engine_inv_def entries_ok_def)
  then show ?thesis by (simp add: stays)
qed

lemma ends_only_life:
  "dm_ok (process_map e) \<Longrightarrow> ends_only w e (Some e') \<Longrightarrow> life_step (clock w) label k (life e k) (life e' k)"
  by (auto simp: only_ends_def life_def intro: life_step_plain_mono)

lemma run_task_life:
  assumes "dm_ok (process_map e)" "run_task w t e = Some e'"
  shows "life_step (clock w) (task_label t) k (life e k) (life e' k)"
proof (cases t)
  case (OrphanSweep key)
  then show ?thesis using orphan_sweep_life [of e w key e' k] assms by (simp add: life_def)
qed (use assms yara_task_ends run_desktop_prompt_ends in
      \<open>auto simp: ends_only_def intro!: ends_only_life\<close>)

lemma agent_step_life:
  assumes "env_ok w" "engine_inv e" "agent_exec (w, inp) e = Some e'"
  shows "life_step (clock w) (label_of e inp) k (life e k) (life e' k)"
proof (cases inp)
  have dm: "dm_ok (process_map e)" using assms(2) by (simp add: engine_inv_def entries_ok_def)
  note plain = ends_only_life [OF dm]
  {
    case (Telemetry raw)
    let ?w = "w\<lparr>on_runtime := False\<rparr>"
    show ?thesis
    proof (cases "hdr_event_type (header raw) = ProcessCreate \<and> \<not> consumer_ended e")
      case True
      then have "process_create ?w (header raw) (dec_process_create_details (details_buffer raw)) e = Some e'"
        using assms(3) by (simp add: Telemetry handle_event_def Let_def)
      then have "life e' k = (if k = created_key raw then Running else life e k)"
        unfolding life_def created_key_def by (rule process_create_life [rotated 2]) (simp_all add: assms(1) dm)
      then show ?thesis using True by (auto simp: Telemetry intro: life_step.intros)
    next
      case False
      then show ?thesis
        using assms(3) handle_event_ends [of raw ?w e]
        by (auto simp: Telemetry ends_only_def stays intro!: plain split: if_splits)
    qed
  next
    case PurgeTick
    then show ?thesis using assms purge_life by auto
  next
    case (FsEvent paths kind)
    then show ?thesis
      using assms(3) by (auto simp: on_fs_event_def hot_reload_def intro!: plain split: sum.split)
  next
    case (Request r)
    then show ?thesis
      using assms(3) handle_request_ends [of w r e] by (auto intro!: plain)
  next
    case (RunTask n)
    let ?w = "w\<lparr>on_runtime := True\<rparr>" and ?e = "e\<lparr>tasks := take n (tasks e) @ drop (Suc n) (tasks e)\<rparr>"
    show ?thesis
    proof (cases "n < length (tasks e)")
      case True
      then have "run_task ?w (tasks e ! n) ?e = Some e'"
        using assms(3) by (simp add: RunTask run_queued_def)
      from run_task_life [OF _ this, of k] show ?thesis
        using True dm by (simp add: RunTask life_def)
    next
      case False
      then show ?thesis using assms(3) by (simp add: RunTask run_queued_def stays)
    qed
  }
qed

subsection \<open>The refinement\<close>

text \<open>C4. The agent refines the automaton of process lives: it starts with no process, and every step
  it can take from a reachable state moves every process key along an edge its input allows. So
  only a creation event starts a process, and only the one it names; only the purge forgets one,
  and only when its time is up; an exited process is never changed by anything else but the sweep
  of its own installation.\<close>

theorem agent_refines_lives:
  assumes "run_agent s = Inr e0" "reachable any_input e0 e" "env_ok w"
    and "agent_exec (w, inp) e = Some e'"
  shows "life e0 = (\<lambda>_. Absent) \<and> (\<forall>k. life_step (clock w) (label_of e inp) k (life e k) (life e' k))"
proof
  have inv: "engine_inv e0" using run_agent_inv [OF assms(1)] by simp
  show "life e0 = (\<lambda>_. Absent)" using run_agent_inv [OF assms(1)] by (simp add: life_def fun_eq_iff)
  have "engine_inv e" using reachable_base [OF assms(2)] inv by (simp add: base_ok_def)
  then show "\<forall>k. life_step (clock w) (label_of e inp) k (life e k) (life e' k)"
    using agent_step_life assms(3,4) by blast
qed

theorem agent_refines_lives_witness:
  "\<exists>e0 e'. run_agent (sample_startup None quiet_config) = Inr e0 \<and>
     agent_exec (quiet_env, Telemetry parent_event) e0 = Some e' \<and> life e0 = (\<lambda>_. Absent) \<and>
     life_step 0 (Creation \<lparr>pk_pid = 7, pk_start_time = 5\<rparr>) \<lparr>pk_pid = 7, pk_start_time = 5\<rparr>
       Absent (life e' \<lparr>pk_pid = 7, pk_start_time = 5\<rparr>)"
proof -
  obtain e0 where e0: "run_agent (sample_startup None quiet_config) = Inr e0" "sigma_rules e0 = []"
    "\<not> consumer_ended e0" using start_sample by blast
  let ?d = "create_details 7 1 ''/usr/bin/npm''"
  let ?e = "create_entry consumer_env (header parent_event) ?d e0"
  have step: "agent_exec (quiet_env, Telemetry parent_event) e0 = Some ?e"
    unfolding parent_event_def by (rule create_step) (simp_all add: wf_create_details e0)
  have label: "label_of e0 (Telemetry parent_event) = Creation \<lparr>pk_pid = 7, pk_start_time = 5\<rparr>"
    using process_create_details_codec.dec_exact [OF wf_create_details, of "''/usr/bin/npm''"] e0(3)
    by (simp add: created_key_def parent_event_def create_event_def)
  have "life e0 = (\<lambda>_. Absent) \<and>
      (\<forall>k. life_step (clock quiet_env) (label_of e0 (Telemetry parent_event)) k (life e0 k) (life ?e k))"
    using e0(1) reachable.start env_ok_quiet step by (rule agent_refines_lives)
  then show ?thesis
    using e0(1) step unfolding label by (auto simp: quiet_env_def)
qed

text \<open>Runs in which no creation event names the key.\<close>

definition without_creation :: "process_key \<Rightarrow> env \<times> input \<Rightarrow> bool" where
  "without_creation k i \<longleftrightarrow>
     env_ok (fst i) \<and>
     (case snd i of
        Telemetry raw \<Rightarrow> \<not> (hdr_event_type (header raw) = ProcessCreate \<and> created_key raw = k)
      | _ \<Rightarrow> True)"

lemma task_label_creation [simp]: "task_label t \<noteq> Creation k"
  by (cases t) simp_all

lemma without_creation_label: "without_creation k (w, inp) \<Longrightarrow> label_of e inp \<noteq> Creation k"
  by (cases inp) (auto simp: without_creation_def)

text \<open>What is not running stays so: a process that is unknown or has exited comes back only through a
  creation event with its own PID and start time. No other event, command, background task or rules
  reload ever revives it.\<close>

theorem exited_stays_exited:
  assumes "reachable (without_creation k) e0 e" "engine_inv e0" "life e0 k \<noteq> Running"
  shows "life e k \<noteq> Running"
  using assms
proof (induction rule: reachable.induct)
  case (step e i e')
  obtain w inp where i: "i = (w, inp)" by (cases i)
  have adm: "without_creation k' j \<Longrightarrow> any_input j" for k' j
    by (simp add: without_creation_def any_input_def)
  have "engine_inv e"
    using reachable_base [OF step.hyps(1)] adm step.prems(1) by (auto simp: base_ok_def)
  then have "life_step (clock w) (label_of e inp) k (life e k) (life e' k)"
    using step.hyps(2,3) by (intro agent_step_life) (simp_all add: i without_creation_def)
  moreover have "label_of e inp \<noteq> Creation k"
    using step.hyps(2) by (simp add: i without_creation_label)
  ultimately show ?case
    using step.IH step.prems by (auto elim: life_step.cases)
qed

theorem exited_stays_exited_witness:
  "\<exists>e0 e. reachable (without_creation sample_key) e0 e \<and> e \<noteq> e0 \<and>
     life e0 sample_key = Exited (Some five_minutes) \<and> life e sample_key \<noteq> Running"
proof -
  let ?s = "stop_entry 0 (sample_process ''/bin/sh'' False)"
  let ?f = "sample_engine quiet_config None ?s"
  let ?w = "quiet_env\<lparr>clock := five_minutes + 1\<rparr>"
  let ?e = "purge_expired_states ?w ?f"
  have adm: "without_creation sample_key (?w, PurgeTick)"
    by (simp add: without_creation_def env_ok_def quiet_env_def)
  have step: "agent_exec (?w, PurgeTick) ?f = Some ?e" by simp
  have run: "reachable (without_creation sample_key) ?f ?e"
    using reachable.start adm step by (rule reachable.step)
  have l: "life ?f sample_key = Exited (Some five_minutes)"
    by (simp add: life_def dm_get_def)
  have "engine_inv ?f" by (simp add: engine_inv_sample)
  with run have "life ?e sample_key \<noteq> Running"
    by (rule exited_stays_exited) (simp add: l)
  moreover have "process_map ?e \<noteq> process_map ?f"
    by (simp add: purge_expired_states_def dm_retain_def)
  ultimately show ?thesis using run l by metis
qed

end
