(* ===== verification/Threads.thy ===== *)
theory Threads
  imports Runs
begin

section \<open>Threads and their actions\<close>

text \<open>
  The finer view of the agent: a handler is not one step but a program of actions, one
  per access to what the threads share (a search of the process table, a change of one entry, a
  guard on the rules, a signal, a call of the telemetry library, an alert). Between two actions of
  one thread any other thread may act. A program is a tree: an action reads and changes the engine and
  says how the thread goes on; \<^term>\<open>None\<close> means the action never returns. Here are the
  programs, how one runs alone, and the contract its actions keep; \<open>ThreadRules\<close> holds the
  programs of the handlers, \<open>Pool\<close> their interleaving.

  Programs are written in continuation-passing style: each block takes the program that follows.
\<close>

datatype thread_code = Halt | Next "engine \<Rightarrow> (engine \<times> thread_code) option"

text \<open>One action of a thread, if it has one left and the action returns.\<close>

fun perform :: "thread_code \<Rightarrow> engine \<Rightarrow> (engine \<times> thread_code) option" where
  "perform Halt e = None"
| "perform (Next f) e = f e"

text \<open>A thread that is not disturbed.\<close>

primrec run_code :: "thread_code \<Rightarrow> engine \<Rightarrow> engine option" where
  "run_code Halt = Some"
| "run_code (Next f) =
     (\<lambda>e. case map_option (map_prod id run_code) (f e) of None \<Rightarrow> None | Some (e', rest) \<Rightarrow> rest e')"

subsection \<open>Kinds of actions\<close>

text \<open>Reading, changing, changing with a result, and the walk over the children map.\<close>

definition ask :: "(engine \<Rightarrow> 'r) \<Rightarrow> ('r \<Rightarrow> thread_code) \<Rightarrow> thread_code" where
  "ask g c = Next (\<lambda>e. Some (e, c (g e)))"

definition act :: "(engine \<Rightarrow> engine) \<Rightarrow> thread_code \<Rightarrow> thread_code" where
  "act g c = Next (\<lambda>e. Some (g e, c))"

definition change :: "(engine \<Rightarrow> 'r \<times> engine) \<Rightarrow> ('r \<Rightarrow> thread_code) \<Rightarrow> thread_code" where
  "change g c = Next (\<lambda>e. case g e of (r, e') \<Rightarrow> Some (e', c r))"

definition walk :: "process_key \<Rightarrow> (u32 list \<Rightarrow> thread_code) \<Rightarrow> thread_code" where
  "walk k c = Next (\<lambda>e. map_option (\<lambda>below. (e, c below)) (collect_descendants (children_map e) k))"

text \<open>The same action for each element of a list, one after the other.\<close>

definition act_all :: "('a \<Rightarrow> engine \<Rightarrow> engine) \<Rightarrow> 'a list \<Rightarrow> thread_code \<Rightarrow> thread_code" where
  "act_all g xs c = foldr (\<lambda>x. act (g x)) xs c"

lemma run_ask [simp]: "run_code (ask g c) e = run_code (c (g e)) e"
  by (simp add: ask_def)

lemma run_act [simp]: "run_code (act g c) e = run_code c (g e)"
  by (simp add: act_def)

lemma run_change [simp]: "run_code (change g c) e = run_code (c (fst (g e))) (snd (g e))"
  by (simp add: change_def split: prod.split)

lemma run_walk [simp]:
  "run_code (walk k c) e =
     (case collect_descendants (children_map e) k of None \<Rightarrow> None | Some below \<Rightarrow> run_code (c below) e)"
  by (simp add: walk_def split: option.split)

lemma run_act_all [simp]: "run_code (act_all g xs c) e = run_code c (fold g xs e)"
  by (induction xs arbitrary: e) (simp_all add: act_all_def)

subsection \<open>Every thread ends\<close>

text \<open>Whatever the others do in between, a thread can act only finitely often.\<close>

definition own_steps :: "(thread_code \<times> thread_code) set" where
  "own_steps = {(c', c). \<exists>e e'. perform c e = Some (e', c')}"

lemma own_steps_wf: "wf own_steps"
proof (rule wfUNIVI)
  fix P :: "thread_code \<Rightarrow> bool" and c
  assume step: "\<forall>c. (\<forall>c'. (c', c) \<in> own_steps \<longrightarrow> P c') \<longrightarrow> P c"
  show "P c"
  proof (induction c)
    case Halt
    show ?case using step by (simp add: own_steps_def)
  next
    case (Next f)
    have "P c'" if r: "f e = Some (e', c')" for e e' c'
      using Next [of "f e" "(e', c')" c'] r by (simp add: rangeI [of f e, unfolded r] snds.simps)
    then have "\<forall>c'. (c', Next f) \<in> own_steps \<longrightarrow> P c'" by (auto simp: own_steps_def)
    then show ?case using step by blast
  qed
qed

subsection \<open>The contract of the actions\<close>

text \<open>
  What the actions of a program may rely on and have to keep. With \<open>t\<close>, the states they meet are
  \<^const>\<open>timed\<close>, they keep that and each returns. With \<open>a\<close>, the agent audits and nobody is
  waiting to ask the user; then they send no signal. In any case they keep the contract of the
  engine's operations.
\<close>

definition stands :: "bool \<Rightarrow> bool \<Rightarrow> engine \<Rightarrow> bool" where
  "stands t a e \<longleftrightarrow> (t \<longrightarrow> timed e) \<and> (a \<longrightarrow> audited e)"

definition fair_move :: "bool \<Rightarrow> bool \<Rightarrow> engine \<Rightarrow> engine \<Rightarrow> bool" where
  "fair_move t a e e' \<longleftrightarrow> base_ok e e' \<and> (a \<longrightarrow> signals e' = signals e) \<and> stands t a e'"

primrec abides :: "bool \<Rightarrow> bool \<Rightarrow> thread_code \<Rightarrow> bool" where
  "abides t a Halt = True"
| "abides t a (Next f) =
     (\<forall>e. stands t a e \<longrightarrow>
        (case map_option (map_prod id (abides t a)) (f e) of
           None \<Rightarrow> \<not> t
         | Some (e', rest) \<Rightarrow> fair_move t a e e' \<and> rest))"

lemma abides_Next:
  "abides t a (Next f) \<longleftrightarrow>
     (\<forall>e. stands t a e \<longrightarrow>
        (case f e of None \<Rightarrow> \<not> t | Some (e', c) \<Rightarrow> fair_move t a e e' \<and> abides t a c))"
  by (auto split: option.splits)

lemma abides_perform:
  assumes "abides t a c" "stands t a e" "perform c e = Some (e', c')"
  shows "fair_move t a e e' \<and> abides t a c'"
proof (cases c)
  case (Next f)
  have "case f e of None \<Rightarrow> \<not> t | Some (e', c) \<Rightarrow> fair_move t a e e' \<and> abides t a c"
    using assms(1,2) unfolding Next abides_Next by blast
  then show ?thesis using assms(3) by (simp add: Next)
qed (use assms in simp)

lemma abides_returns:
  assumes "abides True a c" "stands True a e" "c \<noteq> Halt"
  shows "\<exists>e' c'. perform c e = Some (e', c')"
proof (cases c)
  case (Next f)
  have "case f e of None \<Rightarrow> \<not> True | Some (e', c) \<Rightarrow> fair_move True a e e' \<and> abides True a c"
    using assms(1,2) unfolding Next abides_Next by blast
  then show ?thesis by (auto simp: Next split: option.splits)
qed (use assms in simp)

lemma fair_refl [simp]: "fair_move t a e e = stands t a e"
  by (simp add: fair_move_def)

text \<open>A change of the engine that keeps the contract: lawful as an operation, and timed again.\<close>

lemma fair_lawful:
  assumes "stands t a e" "base_ok e e'" "silent e e'" "t \<Longrightarrow> timed e \<Longrightarrow> timed e'"
  shows "fair_move t a e e'"
  using assms by (auto simp: fair_move_def stands_def audited_def silent_def base_ok_audit)

lemma abides_ask: "(\<And>e. stands t a e \<Longrightarrow> abides t a (c (g e))) \<Longrightarrow> abides t a (ask g c)"
  by (simp add: ask_def abides_Next del: abides.simps(2))

lemma abides_act:
  "(\<And>e. stands t a e \<Longrightarrow> fair_move t a e (g e)) \<Longrightarrow> abides t a c \<Longrightarrow> abides t a (act g c)"
  by (simp add: act_def abides_Next del: abides.simps(2))

lemma abides_change:
  "(\<And>e. stands t a e \<Longrightarrow> fair_move t a e (snd (g e)) \<and> abides t a (c (fst (g e)))) \<Longrightarrow>
     abides t a (change g c)"
  by (simp add: change_def abides_Next case_prod_beta del: abides.simps(2))

lemma abides_walk:
  assumes "t \<Longrightarrow> pk_start_time k \<noteq> 0" "\<And>below. abides t a (c below)"
  shows "abides t a (walk k c)"
  using assms timed_collect
  by (auto simp: walk_def abides_Next stands_def simp del: abides.simps(2) split: option.split)

lemma abides_act_all:
  "(\<And>x e. x \<in> set xs \<Longrightarrow> stands t a e \<Longrightarrow> fair_move t a e (g x e)) \<Longrightarrow> abides t a c \<Longrightarrow>
     abides t a (act_all g xs c)"
  by (induction xs) (simp_all add: act_all_def abides_act)

end
