(* ===== verification/ThreadRules.thy ===== *)
theory ThreadRules
  imports Threads
begin

section \<open>The handlers as programs of actions\<close>

text \<open>
  Every handler of the agent, action by action, in the order of the source: which search, guard,
  change, signal or alert is a separate access, which value a handler carries over from an earlier
  one, and what it does when an entry it found is gone at the next access. Each block has two lemmas:
  run alone it does what the handler of the other theories does (\<open>run_\<dots>\<close>), and each of its actions
  keeps the contract (\<open>abides_\<dots>\<close>). An access that waits for a guard of another thread is an action that
  has not happened yet (\<open>Pool\<close>); one that waits for a guard of its own thread never happens, and the
  program ends there with the consumer marked as blocked.

  One action covers: one iteration over the process table, one walk over the children map, one call
  of the scanner, and what is done under one guard.
\<close>

subsection \<open>Blocks all handlers share\<close>

text \<open>The search most handlers start with; they keep the key.\<close>

definition seek :: "u32 \<Rightarrow> thread_code \<Rightarrow> (process_key \<Rightarrow> thread_code) \<Rightarrow> thread_code" where
  "seek pid absent found =
     ask (\<lambda>e. find_live (process_map e) pid)
       (\<lambda>r. case r of None \<Rightarrow> absent | Some (key, _) \<Rightarrow> found key)"

text \<open>\<^verbatim>\<open>process_map.get(&key)\<close>.\<close>

definition peek :: "process_key \<Rightarrow> (process_state option \<Rightarrow> thread_code) \<Rightarrow> thread_code" where
  "peek key c = ask (\<lambda>e. dm_get (process_map e) key) c"

text \<open>\<^verbatim>\<open>process_map.get_mut(&key)\<close> and assignments.\<close>

definition alter_entry :: "process_key \<Rightarrow> (process_state \<Rightarrow> process_state) \<Rightarrow> engine \<Rightarrow> engine" where
  "alter_entry key f e = e\<lparr>process_map := dm_alter key f (process_map e)\<rparr>"

text \<open>An alert: the lookup of the process it is about, then the broadcast.\<close>

definition append_alert ::
  "env \<Rightarrow> string \<Rightarrow> string \<Rightarrow> string \<Rightarrow> process_info \<Rightarrow> string \<Rightarrow> string \<Rightarrow> engine \<Rightarrow> engine" where
  "append_alert w severity category rule_path info act_name msg e =
     e\<lparr>alerts := alerts e @ [\<lparr>
        al_ts = clock w, al_severity = severity, al_category = category,
        al_rule_path = rule_path, al_process = info, al_action = act_name, al_message = msg\<rparr>]\<rparr>"

definition alert_code ::
  "env \<Rightarrow> u32 \<Rightarrow> string \<Rightarrow> string \<Rightarrow> string \<Rightarrow> string \<Rightarrow> string \<Rightarrow> thread_code \<Rightarrow> thread_code" where
  "alert_code w pid severity category rule_path act_name msg k =
     ask (alert_process w pid) (\<lambda>info.
     act (append_alert w severity category rule_path info act_name msg) k)"

lemma run_seek [simp]:
  "run_code (seek pid absent found) e =
     (case find_live (process_map e) pid of None \<Rightarrow> run_code absent e
      | Some (key, _) \<Rightarrow> run_code (found key) e)"
  by (simp add: seek_def split: option.split prod.split)

lemma run_peek [simp]: "run_code (peek key c) e = run_code (c (dm_get (process_map e) key)) e"
  by (simp add: peek_def)

lemma run_alert [simp]:
  "run_code (alert_code w pid sev cat r action msg k) e =
     run_code k (write_structured_alert w pid sev cat r action msg e)"
  by (simp add: alert_code_def append_alert_def write_structured_alert_def)

lemma abides_seek:
  assumes "abides t a absent" "\<And>key. (t \<Longrightarrow> pk_start_time key \<noteq> 0) \<Longrightarrow> abides t a (found key)"
  shows "abides t a (seek pid absent found)"
  unfolding seek_def
proof (rule abides_ask)
  fix e assume "stands t a e"
  then show "abides t a (case find_live (process_map e) pid of None \<Rightarrow> absent | Some (key, _) \<Rightarrow> found key)"
    using assms timed_live_key by (auto simp: stands_def split: option.split)
qed

lemma abides_peek: "(\<And>v. abides t a (c v)) \<Longrightarrow> abides t a (peek key c)"
  by (simp add: peek_def abides_ask)

lemma fair_alter:
  assumes "\<And>s. entry_ok key s \<Longrightarrow> entry_ok key (f s)" "stands t a e"
  shows "fair_move t a e (alter_entry key f e)"
proof (rule fair_lawful [OF assms(2)])
  show "base_ok e (alter_entry key f e)"
    unfolding alter_entry_def by (rule base_alter) (rule assms(1))
qed (simp_all add: alter_entry_def silent_change)

lemma fair_alert: "stands t a e \<Longrightarrow> fair_move t a e (append_alert w sev cat r info action msg e)"
  by (rule fair_lawful) (simp_all add: append_alert_def contract_defs timed_def)

lemma abides_alert: "abides t a k \<Longrightarrow> abides t a (alert_code w pid sev cat r action msg k)"
  by (simp add: alert_code_def abides_ask abides_act fair_alert)

lemma fair_signal:
  assumes "\<not> a" "stands t a e"
  shows "fair_move t a e (terminate_process p e)" "fair_move t a e (suspend_process p e)"
    "fair_move t a e (release_process p e)"
  using assms by (auto simp: fair_move_def stands_def contract_defs engine_simps timed_def)

lemma fair_spawn:
  assumes "stands t a e" "t \<Longrightarrow> pk_start_time (task_key x) \<noteq> 0" "a \<Longrightarrow> \<not> is_prompt x"
  shows "fair_move t a e (spawn_task w x e)"
proof -
  have "base_ok e (spawn_task w x e)" by (simp add: contract_defs)
  moreover have "timed (spawn_task w x e)" if t
  proof -
    have "timed e" using assms(1) that by (simp add: stands_def)
    then show ?thesis
      using assms(2) [OF that] by (cases "on_runtime w") (auto simp: timed_def)
  qed
  moreover have "audited (spawn_task w x e)" if a
  proof -
    have "audited e" using assms(1) that by (simp add: stands_def)
    then show ?thesis
      using assms(3) [OF that] by (cases "on_runtime w") (auto simp: audited_def no_prompt_def)
  qed
  ultimately show ?thesis by (simp add: fair_move_def stands_def)
qed

subsection \<open>Suspending and terminating a tree\<close>

definition suspend_code ::
  "env \<Rightarrow> process_key \<Rightarrow> string \<Rightarrow> string \<Rightarrow> string \<Rightarrow> thread_code \<Rightarrow> thread_code" where
  "suspend_code w root_key reason category rule_path k =
     walk root_key (\<lambda>below.
     ask audit_mode (\<lambda>audit.
     if audit then
       alert_code w (pk_pid root_key) ''ALERT'' category rule_path ''LOGGED'' reason k
     else
       act_all suspend_process (below @ [pk_pid root_key]) (
       alert_code w (pk_pid root_key) ''ALERT'' category rule_path ''CONTAINED'' reason (
       ask (\<lambda>e. get_active_session_context w (config_cell e)) (\<lambda>session.
       if session = None then k
       else
         peek root_key (\<lambda>v.
         act (spawn_task w (DesktopPrompt root_key
           (case v of None \<Rightarrow> ''unknown'' | Some s \<Rightarrow> image_path s) reason)) k))))))"

text \<open>Marking the processes of a tree as terminated: a search and a change for each.\<close>

definition mark_code :: "env \<Rightarrow> u32 list \<Rightarrow> thread_code \<Rightarrow> thread_code" where
  "mark_code w pids k =
     foldr (\<lambda>pid c. seek pid c (\<lambda>key. act (alter_entry key (stop_entry (clock w))) c)) pids k"

definition terminate_code ::
  "env \<Rightarrow> process_key \<Rightarrow> string \<Rightarrow> string \<Rightarrow> string \<Rightarrow> thread_code \<Rightarrow> thread_code" where
  "terminate_code w key reason category rule_path k =
     walk key (\<lambda>below.
     ask audit_mode (\<lambda>audit.
     act_all terminate_process (if audit then [] else below @ [pk_pid key]) (
     mark_code w (below @ [pk_pid key]) (
     alert_code w (pk_pid key) ''CRITICAL'' category rule_path ''TERMINATED'' reason k))))"

text \<open>Terminating a tree while a reference to the entry of its root is held: a change of an entry in the
  same shard never returns. The thread records that it is blocked, and has no further action.\<close>

definition block_consumer :: "engine \<Rightarrow> engine" where
  "block_consumer e = e\<lparr>consumer_blocked := True\<rparr>"

definition mark_around_code ::
  "env \<Rightarrow> (process_key \<Rightarrow> bool) \<Rightarrow> u32 list \<Rightarrow> thread_code \<Rightarrow> thread_code" where
  "mark_around_code w held pids k =
     foldr (\<lambda>pid c. seek pid c (\<lambda>key.
       if held key then act block_consumer Halt
       else act (alter_entry key (stop_entry (clock w))) c)) pids k"

definition terminate_holding_code ::
  "env \<Rightarrow> process_key \<Rightarrow> string \<Rightarrow> string \<Rightarrow> string \<Rightarrow> thread_code \<Rightarrow> thread_code" where
  "terminate_holding_code w key reason category rule_path k =
     walk key (\<lambda>below.
     ask audit_mode (\<lambda>audit.
     act_all terminate_process (if audit then [] else below @ [pk_pid key]) (
     mark_around_code w (\<lambda>k. table_shard w k = table_shard w key) (below @ [pk_pid key]) (
     alert_code w (pk_pid key) ''CRITICAL'' category rule_path ''TERMINATED'' reason k))))"

lemma run_suspend [simp]:
  "run_code (suspend_code w key reason cat r k) e =
     Option.bind (suspend_process_tree w key reason cat r e) (run_code k)"
  by (auto simp: suspend_code_def suspend_process_tree_def Let_def engine_simps signalled_def
      split: option.split)

lemma run_mark [simp]:
  "run_code (mark_code w pids k) e =
     run_code k (e\<lparr>process_map := fold (mark_terminated (clock w)) pids (process_map e)\<rparr>)"
  by (induction pids arbitrary: e)
    (auto simp: mark_code_def mark_terminated_def alter_entry_def split: option.split)

lemma run_terminate [simp]:
  "run_code (terminate_code w key reason cat r k) e =
     Option.bind (terminate_threat_pkm w key reason cat r e) (run_code k)"
  by (simp add: terminate_code_def terminate_threat_pkm_def Let_def split: option.split)

lemma run_mark_around:
  "run_code (mark_around_code w held pids k) e =
     (case mark_around held (clock w) pids (process_map e) of
        (pm, stuck) \<Rightarrow>
          if stuck then Some (e\<lparr>process_map := pm, consumer_blocked := True\<rparr>)
          else run_code k (e\<lparr>process_map := pm\<rparr>))"
proof (induction pids arbitrary: e)
  case (Cons pid pids)
  have code: "mark_around_code w held (pid # pids) k = seek pid (mark_around_code w held pids k) (\<lambda>key.
       if held key then act block_consumer Halt
       else act (alter_entry key (stop_entry (clock w))) (mark_around_code w held pids k))"
    by (simp only: mark_around_code_def foldr.simps comp_def)
  show ?case
    unfolding code using Cons.IH
    by (auto simp: block_consumer_def alter_entry_def split: option.split prod.split)
qed (simp add: mark_around_code_def)

lemma run_terminate_holding:
  "run_code (terminate_holding_code w key reason cat r Halt) e = terminate_holding w key reason cat r e"
  by (simp add: terminate_holding_code_def terminate_holding_def run_mark_around Let_def case_prod_beta
      split: option.split)

lemma abides_suspend:
  assumes "t \<Longrightarrow> pk_start_time key \<noteq> 0" "abides t a k"
  shows "abides t a (suspend_code w key reason cat r k)"
  unfolding suspend_code_def
proof (intro abides_walk abides_ask)
  fix below e assume e: "stands t a e"
  show "abides t a (if audit_mode e then
       alert_code w (pk_pid key) ''ALERT'' cat r ''LOGGED'' reason k
     else act_all suspend_process (below @ [pk_pid key]) (
       alert_code w (pk_pid key) ''ALERT'' cat r ''CONTAINED'' reason (
       ask (\<lambda>e. get_active_session_context w (config_cell e)) (\<lambda>session.
       if session = None then k
       else peek key (\<lambda>v. act (spawn_task w (DesktopPrompt key
           (case v of None \<Rightarrow> ''unknown'' | Some s \<Rightarrow> image_path s) reason)) k)))))"
  proof (cases "audit_mode e")
    case False
    then have "\<not> a" using e by (auto simp: stands_def audited_def)
    then show ?thesis
      using assms False
      by (auto intro!: abides_act_all fair_signal abides_alert abides_ask abides_peek abides_act fair_spawn)
  qed (simp add: abides_alert assms(2))
qed (rule assms(1))

lemma abides_mark: "abides t a k \<Longrightarrow> abides t a (mark_code w pids k)"
  by (induction pids) (auto simp: mark_code_def intro!: abides_seek abides_act fair_alter)

lemma abides_terminate:
  assumes "t \<Longrightarrow> pk_start_time key \<noteq> 0" "abides t a k"
  shows "abides t a (terminate_code w key reason cat r k)"
  unfolding terminate_code_def
proof (intro abides_walk abides_ask)
  fix below e assume e: "stands t a e"
  then have "audit_mode e \<or> \<not> a" by (auto simp: stands_def audited_def)
  then show "abides t a (act_all terminate_process (if audit_mode e then [] else below @ [pk_pid key]) (
     mark_code w (below @ [pk_pid key]) (
     alert_code w (pk_pid key) ''CRITICAL'' cat r ''TERMINATED'' reason k)))"
    by (auto intro!: abides_act_all fair_signal abides_mark abides_alert assms(2))
qed (rule assms(1))

lemma fair_block: "stands t a e \<Longrightarrow> fair_move t a e (block_consumer e)"
  by (rule fair_lawful) (simp_all add: block_consumer_def contract_defs timed_def)

lemma abides_mark_around: "abides t a k \<Longrightarrow> abides t a (mark_around_code w held pids k)"
  by (induction pids) (auto simp: mark_around_code_def intro!: abides_seek abides_act fair_alter fair_block)

lemma abides_terminate_holding:
  assumes "t \<Longrightarrow> pk_start_time key \<noteq> 0" "abides t a k"
  shows "abides t a (terminate_holding_code w key reason cat r k)"
  unfolding terminate_holding_code_def
proof (intro abides_walk abides_ask)
  fix below e assume e: "stands t a e"
  then have "audit_mode e \<or> \<not> a" by (auto simp: stands_def audited_def)
  then show "abides t a (act_all terminate_process (if audit_mode e then [] else below @ [pk_pid key]) (
     mark_around_code w (\<lambda>k. table_shard w k = table_shard w key) (below @ [pk_pid key]) (
     alert_code w (pk_pid key) ''CRITICAL'' cat r ''TERMINATED'' reason k)))"
    by (auto intro!: abides_act_all fair_signal abides_mark_around abides_alert assms(2))
qed (rule assms(1))

lemmas abides_rules = abides_seek abides_peek abides_alert abides_suspend abides_terminate
  abides_terminate_holding

subsection \<open>File events\<close>

text \<open>Twice \<^verbatim>\<open>get\<close>: for the install context, then for the protected directories, where the
  reference is still held when the tree is terminated.\<close>

definition file_write_code ::
  "env \<Rightarrow> telemetry_header \<Rightarrow> file_write_details \<Rightarrow> thread_code \<Rightarrow> thread_code" where
  "file_write_code w h d k =
     (let file_path = cstr (fw_file_path d);
          install_rules = (\<lambda>key is_install.
            if is_install then
              if is_container_socket (to_lowercase file_path) then
                terminate_code w key
                  (''Package install process attempted to write to container runtime socket: ''
                    @ file_path) ''docker_socket_access'' file_path k
              else
                ask config_cell (\<lambda>cfg.
                if is_persistence_path cfg file_path then
                  terminate_code w key
                    (''Package install process attempted to establish persistence: '' @ file_path)
                    ''persistence_path'' file_path k
                else k)
            else k)
      in seek (hdr_pid h) k (\<lambda>key.
         peek key (\<lambda>v.
         let is_install = (case v of None \<Rightarrow> False | Some s \<Rightarrow> is_install_context s) in
         peek key (\<lambda>v.
         case v of
           None \<Rightarrow> install_rules key is_install
         | Some s \<Rightarrow>
             ask config_cell (\<lambda>cfg.
             if is_directory_hijack cfg (image_path s) file_path then
               terminate_holding_code w key
                 (''Unauthorized directory modification attempt in protected folder by non-vendor process: ''
                   @ file_path) ''directory_hijack'' file_path k
             else install_rules key is_install)))))"

text \<open>The recording of a read is one access: the entry's guard is held to its end.\<close>

definition record_read_access ::
  "env \<Rightarrow> process_key \<Rightarrow> u32 \<Rightarrow> string \<Rightarrow> engine \<Rightarrow> string option \<times> engine" where
  "record_read_access w key category file_path e =
     (case dm_get (process_map e) key of
        None \<Rightarrow> (None, e)
      | Some s \<Rightarrow>
          (read_verdict file_path (record_read category file_path s),
           note_read w key s category file_path e))"

definition file_read_code ::
  "env \<Rightarrow> telemetry_header \<Rightarrow> file_read_details \<Rightarrow> thread_code \<Rightarrow> thread_code" where
  "file_read_code w h d k =
     (let file_path = cstr (fr_file_path d) in
      ask config_cell (\<lambda>cfg.
      let category = resolve_category cfg file_path in
      if is_path_excluded cfg file_path \<or> category = 0 then k
      else
        seek (hdr_pid h) k (\<lambda>key.
        change (record_read_access w key category file_path) (\<lambda>verdict.
        case verdict of
          None \<Rightarrow> k
        | Some reason \<Rightarrow>
            suspend_code w key reason (read_category_name category) file_path k))))"

definition file_open_code ::
  "env \<Rightarrow> telemetry_header \<Rightarrow> file_open_details \<Rightarrow> thread_code \<Rightarrow> thread_code" where
  "file_open_code w h d k =
     (let file_path = cstr (fo_file_path d) in
      seek (hdr_pid h) k (\<lambda>key.
      peek key (\<lambda>v.
      if case v of None \<Rightarrow> False | Some s \<Rightarrow> is_install_context s then
        if is_container_socket (to_lowercase file_path) then
          terminate_code w key
            (''Package install process attempted to access container runtime socket: ''
              @ file_path) ''docker_socket_access'' file_path k
        else
          ask config_cell (\<lambda>cfg.
          if is_credential_path cfg file_path then
            terminate_code w key
              (''Package install process attempted to read sensitive credentials: '' @ file_path)
              ''credential_access'' file_path k
          else k)
      else k)))"

lemma live_entry:
  "engine_inv e \<Longrightarrow> find_live (process_map e) pid = Some (k, s) \<Longrightarrow> dm_get (process_map e) k = Some s"
  by (rule find_live_get) (simp_all add: engine_inv_def entries_ok_def)

lemma run_file_write:
  "engine_inv e \<Longrightarrow> run_code (file_write_code w h d Halt) e = file_write w h d e"
  by (auto simp: file_write_code_def file_write_def Let_def live_entry run_terminate_holding
      split: option.split)

lemma run_file_read:
  "engine_inv e \<Longrightarrow>
     run_code (file_read_code w h d k) e = Option.bind (file_read w h d e) (run_code k)"
  by (auto simp: file_read_code_def file_read_cases record_read_access_def Let_def live_entry
      split: option.split)

lemma run_file_open:
  "engine_inv e \<Longrightarrow>
     run_code (file_open_code w h d k) e = Option.bind (file_open w h d e) (run_code k)"
  by (auto simp: file_open_code_def file_open_def Let_def live_entry split: option.split)

lemma abides_option_case:
  "abides t a x \<Longrightarrow> (\<And>s. abides t a (f s)) \<Longrightarrow> abides t a (case v of None \<Rightarrow> x | Some s \<Rightarrow> f s)"
  by (cases v) simp_all

lemma abides_if: "abides t a x \<Longrightarrow> abides t a y \<Longrightarrow> abides t a (if b then x else y)"
  by simp

lemmas abides_intros = abides_rules abides_ask abides_option_case abides_if

lemma abides_file_write: "abides t a k \<Longrightarrow> abides t a (file_write_code w h d k)"
  unfolding file_write_code_def Let_def by (intro abides_intros) simp_all

lemma fair_record_read:
  "stands t a e \<Longrightarrow> fair_move t a e (snd (record_read_access w key cat path e))"
  by (auto simp: record_read_access_def intro!: fair_lawful note_read_base note_read_silent
      split: option.split)

lemma abides_file_read: "abides t a k \<Longrightarrow> abides t a (file_read_code w h d k)"
  unfolding file_read_code_def Let_def
  by (intro abides_intros abides_change conjI fair_record_read) simp_all

lemma abides_file_open: "abides t a k \<Longrightarrow> abides t a (file_open_code w h d k)"
  unfolding file_open_code_def Let_def by (intro abides_intros) simp_all

subsection \<open>Network, descriptor, registry, ptrace and memory events\<close>

text \<open>The flag is set and the flags are read under one guard; the category is read again.\<close>

definition note_connect_access :: "process_key \<Rightarrow> engine \<Rightarrow> bool \<times> engine" where
  "note_connect_access key e =
     ((case dm_get (process_map e) key of None \<Rightarrow> False | Some s \<Rightarrow> category_flags s \<noteq> 0),
      alter_entry key note_connect e)"

definition network_connect_code ::
  "env \<Rightarrow> telemetry_header \<Rightarrow> network_connect_details \<Rightarrow> thread_code \<Rightarrow> thread_code" where
  "network_connect_code w h d k =
     seek (hdr_pid h) k (\<lambda>key.
     change (note_connect_access key) (\<lambda>should_suspend.
     if should_suspend then
       peek key (\<lambda>v.
       suspend_code w key forward_path_reason
         (case v of None \<Rightarrow> ''network'' | Some s \<Rightarrow> connect_category_name (category_flags s)) '''' k)
     else k))"

text \<open>The fallback is evaluated only when \<^verbatim>\<open>/proc\<close> does not show a socket.\<close>

definition dup2_code ::
  "env \<Rightarrow> telemetry_header \<Rightarrow> dup2_details \<Rightarrow> thread_code \<Rightarrow> thread_code" where
  "dup2_code w h d k =
     (let new_fd = sint (du_new_fd d);
          redirects_to_stdio = (new_fd = 0 \<or> new_fd = 1 \<or> new_fd = 2);
          verdict =
            seek (hdr_pid h) k (\<lambda>key.
            peek key (\<lambda>v.
            if case v of None \<Rightarrow> False | Some s \<Rightarrow> is_install_context s then
              terminate_code w key reverse_shell_reason ''reverse_shell'' '''' k
            else k))
      in if case proc_fd w (hdr_pid h) (sint (du_old_fd d)) of
              None \<Rightarrow> False | Some t \<Rightarrow> starts_with t ''socket:''
         then if redirects_to_stdio then verdict else k
         else
           ask (\<lambda>e. case find_live (process_map e) (hdr_pid h) of
                  None \<Rightarrow> False | Some (_, s) \<Rightarrow> pending_network_connect s)
             (\<lambda>has_pending. if redirects_to_stdio \<and> has_pending then verdict else k))"

definition registry_write_code ::
  "env \<Rightarrow> telemetry_header \<Rightarrow> registry_write_details \<Rightarrow> thread_code \<Rightarrow> thread_code" where
  "registry_write_code w h d k =
     (let key_path = cstr (rw_key_path d); value_name = cstr (rw_value_name d) in
      seek (hdr_pid h) k (\<lambda>key.
      peek key (\<lambda>v.
      if (case v of None \<Rightarrow> False | Some s \<Rightarrow> is_install_context s) \<and>
         is_persistence_key (to_lowercase key_path)
      then
        terminate_code w key
          (''Package install process attempted to write to persistence registry key: ''
            @ key_path @ [CHR 0x5C] @ value_name) ''persistence_path'' key_path k
      else k)))"

definition ptrace_attach_code ::
  "env \<Rightarrow> telemetry_header \<Rightarrow> bpf_ptrace_attach_details \<Rightarrow> thread_code \<Rightarrow> thread_code" where
  "ptrace_attach_code w h d k =
     (let tracer = hdr_pid h; tracee = pt_tracee_pid d;
          exe = (case proc_exe w tracee of None \<Rightarrow> '''' | Some p \<Rightarrow> to_lowercase p);
          high = list_ex (contains exe) high_value_targets
      in ask (\<lambda>e. case find_live (process_map e) tracer of
               None \<Rightarrow> False | Some (_, s) \<Rightarrow> is_untrusted s) (\<lambda>untrusted.
         if high \<or> untrusted then
           let reason = ptrace_reason high untrusted tracer exe tracee in
           ask audit_mode (\<lambda>audit.
           alert_code w tracer (if untrusted then ''ALERT'' else ''WARN'') ''ptrace_injection'' exe
             (if audit then ''LOGGED'' else ''ALERTED'') reason (
           if untrusted \<and> \<not> audit then
             seek tracer k (\<lambda>key. suspend_code w key reason ''ptrace_injection'' '''' k)
           else k))
         else k))"

definition memory_protect_code ::
  "env \<Rightarrow> telemetry_header \<Rightarrow> memory_map_bpf_details \<Rightarrow> bool \<Rightarrow> thread_code \<Rightarrow> thread_code" where
  "memory_protect_code w h d is_file_backed k =
     (if \<not> is_file_backed then k
      else
        seek (hdr_pid h) k (\<lambda>key.
        let reason = stomping_reason (hdr_pid h) (mm_file_inode d) (mm_addr d) in
        ask audit_mode (\<lambda>audit.
        alert_code w (hdr_pid h) ''ALERT'' ''module_stomping'' ''''
          (if audit then ''LOGGED'' else ''ALERTED'') reason (
        peek key (\<lambda>v.
        if (case v of None \<Rightarrow> False | Some s \<Rightarrow> is_untrusted s) \<and> \<not> audit then
          suspend_code w key reason ''module_stomping'' '''' k
        else k)))))"

definition image_load_code ::
  "env \<Rightarrow> telemetry_header \<Rightarrow> bpf_image_load_details \<Rightarrow> thread_code \<Rightarrow> thread_code" where
  "image_load_code w h d k =
     (let module_name = cstr (il_module_path d) in
      ask (\<lambda>e. map_option (\<lambda>(_, s). (is_untrusted s, is_install_context s))
             (find_live (process_map e) (hdr_pid h))) (\<lambda>info.
      case info of
        None \<Rightarrow> k
      | Some flags \<Rightarrow>
          if \<not> trusted_exec_inode w (il_file_inode d) \<and>
             (fst flags \<or> contains (to_lowercase module_name) ''/tmp/'' \<or>
              contains (to_lowercase module_name) ''/dev/shm/'')
          then
            alert_code w (hdr_pid h) ''WARN'' ''so_sideload'' module_name ''LOGGED''
              (sideload_reason (hdr_pid h) module_name (il_file_inode d) (fst flags) (snd flags)) k
          else k))"

lemma run_network_connect:
  "engine_inv e \<Longrightarrow>
     run_code (network_connect_code w h d k) e = Option.bind (network_connect w h d e) (run_code k)"
  by (auto simp: network_connect_code_def network_connect_def note_connect_access_def
      alter_entry_def Let_def live_entry dm.get_alter split: option.split)

lemma run_dup2:
  "engine_inv e \<Longrightarrow> run_code (dup2_code w h d k) e = Option.bind (dup2 w h d e) (run_code k)"
  by (auto simp: dup2_code_def dup2_def old_fd_is_socket_def Let_def live_entry split: option.split)

lemma run_registry_write:
  "engine_inv e \<Longrightarrow>
     run_code (registry_write_code w h d k) e = Option.bind (registry_write w h d e) (run_code k)"
  by (auto simp: registry_write_code_def registry_write_def Let_def live_entry split: option.split)

lemma run_ptrace_attach:
  "run_code (ptrace_attach_code w h d k) e = Option.bind (ptrace_attach w h d e) (run_code k)"
  by (auto simp: ptrace_attach_code_def ptrace_attach_def Let_def split: option.split)

lemma run_memory_protect:
  "engine_inv e \<Longrightarrow>
     run_code (memory_protect_code w h d b k) e = Option.bind (memory_protect w h d b e) (run_code k)"
  by (auto simp: memory_protect_code_def memory_protect_def Let_def live_entry split: option.split)

lemma run_image_load:
  "run_code (image_load_code w h d k) e = Option.bind (image_load w h d e) (run_code k)"
  by (auto simp: image_load_code_def image_load_def Let_def split: option.split)

lemma fair_note_connect:
  "stands t a e \<Longrightarrow> fair_move t a e (snd (note_connect_access key e))"
  by (simp add: note_connect_access_def fair_alter entry_ok_note_connect)

lemma abides_network_connect: "abides t a k \<Longrightarrow> abides t a (network_connect_code w h d k)"
  unfolding network_connect_code_def
  by (intro abides_intros abides_change conjI fair_note_connect) simp_all

lemma abides_dup2: "abides t a k \<Longrightarrow> abides t a (dup2_code w h d k)"
  unfolding dup2_code_def Let_def by (intro abides_intros) simp_all

lemma abides_registry_write: "abides t a k \<Longrightarrow> abides t a (registry_write_code w h d k)"
  unfolding registry_write_code_def Let_def by (intro abides_intros) simp_all

lemma abides_ptrace_attach: "abides t a k \<Longrightarrow> abides t a (ptrace_attach_code w h d k)"
  unfolding ptrace_attach_code_def Let_def by (intro abides_intros) simp_all

lemma abides_memory_protect: "abides t a k \<Longrightarrow> abides t a (memory_protect_code w h d b k)"
  unfolding memory_protect_code_def Let_def by (intro abides_intros) simp_all

lemma abides_image_load: "abides t a k \<Longrightarrow> abides t a (image_load_code w h d k)"
  unfolding image_load_code_def Let_def by (intro abides_intros) simp_all

end
