(* ===== verification/ThreadLife.thy ===== *)
theory ThreadLife
  imports ThreadRules
begin

section \<open>Creation, exit, background tasks and commands as programs of actions\<close>

text \<open>
  The rest of the handlers action by action: \<^verbatim>\<open>process_create\<close>, which takes the guard
  on the rules four times; \<^verbatim>\<open>process_stop\<close>; the scan, the sweep and the prompt; the
  requests of the control socket; the reloads; and \<open>input_code\<close>, the program each input of the agent
  starts. Requests that only read are programs without actions, their answers are in \<open>Control\<close>.
\<close>

definition only_if :: "bool \<Rightarrow> (thread_code \<Rightarrow> thread_code) \<Rightarrow> thread_code \<Rightarrow> thread_code" where
  "only_if b f c = (if b then f c else c)"

definition call_ffi :: "ffi_call \<Rightarrow> engine \<Rightarrow> engine" where
  "call_ffi c e = e\<lparr>ffi_log := ffi_log e @ [c]\<rparr>"

lemma run_only_if [simp]: "run_code (only_if b f c) e = (if b then run_code (f c) e else run_code c e)"
  by (simp add: only_if_def)

lemma abides_only_if: "abides t a (f c) \<Longrightarrow> abides t a c \<Longrightarrow> abides t a (only_if b f c)"
  by (simp add: only_if_def)

lemma fold_call_ffi [simp]: "fold call_ffi cs e = e\<lparr>ffi_log := ffi_log e @ cs\<rparr>"
  by (induction cs arbitrary: e) (simp_all add: call_ffi_def)

text \<open>A change of nothing the contract speaks about.\<close>

lemma fair_elsewhere:
  assumes "stands t a e" "process_map e' = process_map e" "children_map e' = children_map e"
    "signals e' = signals e" "alerts e' = alerts e" "prefix (ffi_log e) (ffi_log e')"
    "consumer_panicked e' = consumer_panicked e" "consumer_blocked e' = consumer_blocked e"
    "audit_mode e' = audit_mode e"
    "sigma_rules e' = sigma_rules e" "tasks e' = tasks e"
  shows "fair_move t a e e'"
  using assms(1)
proof (rule fair_lawful)
  show "base_ok e e'" using assms by (simp add: contract_defs)
  show "silent e e'" using assms by (simp add: silent_change)
  show "timed e'" if "timed e" using that assms by (simp add: timed_def)
qed

lemma fair_ffi: "stands t a e \<Longrightarrow> fair_move t a e (call_ffi c e)"
  by (rule fair_elsewhere) (simp_all add: call_ffi_def)

subsection \<open>Creation\<close>

text \<open>The new entry, from the rules of the last guard, what the parent's entry said, and the trust verdict
  the earlier guards led to.\<close>

definition built_state ::
  "env \<Rightarrow> config \<Rightarrow> bool \<times> u32 \<times> u32 \<Rightarrow> bool \<Rightarrow> telemetry_header \<Rightarrow> process_create_details \<Rightarrow>
     process_state" where
  "built_state w cfg context untrusted h d =
     (let child_pid = pc_child_pid d;
          path = cstr (pc_child_image_path d);
          cmd = cstr (pc_child_command_line d);
          (is_parent_install, install_root, dep) = context;
          is_child_install = is_installer cfg path;
          is_top_level = is_child_install \<and> \<not> is_parent_install
      in \<lparr>ps_key = \<lparr>pk_pid = child_pid, pk_start_time = timestamp_ns h\<rparr>,
          ppid = hdr_pid h,
          real_parent_pid = pc_real_parent_pid d,
          image_path = path,
          command_line = cmd,
          category_flags = 0,
          pending_network_connect = False,
          terminated = False,
          ttl_deadline = None,
          is_naked_tty = naked_tty w cfg child_pid path cmd,
          is_untrusted = untrusted,
          is_install_context = is_child_install \<or> is_parent_install,
          is_top_level_install = is_top_level,
          install_root_pid = (if is_top_level then child_pid else install_root),
          depth = dep,
          unique_files_read = []\<rparr>)"

definition insert_entry :: "env \<Rightarrow> process_state \<Rightarrow> engine \<Rightarrow> engine" where
  "insert_entry w s e = e\<lparr>process_map := rehash w (dm_put (ps_key s) s (process_map e))\<rparr>"

definition insert_child :: "u32 \<Rightarrow> process_key \<Rightarrow> engine \<Rightarrow> engine" where
  "insert_child parent_pid key e =
     e\<lparr>children_map := add_child \<lparr>pk_pid = parent_pid, pk_start_time = 0\<rparr> key (children_map e)\<rparr>"

definition queue_scan :: "process_key \<Rightarrow> string \<Rightarrow> engine \<Rightarrow> engine" where
  "queue_scan key path e = e\<lparr>tasks := tasks e @ [YaraScan key path]\<rparr>"

text \<open>The verdict from the path, under the rules of two guards: the exclusion, then the vendor.\<close>

definition staged_untrusted :: "string \<Rightarrow> bool \<Rightarrow> bool \<Rightarrow> bool" where
  "staged_untrusted path excluded vendor =
     (let u0 = is_volatile_path path \<or> is_anonymous_exec path;
          u1 = (if excluded then False else u0)
      in if vendor then False else u1)"

text \<open>The second half, once everything about the new process is decided.\<close>

definition register_code ::
  "env \<Rightarrow> telemetry_header \<Rightarrow> process_create_details \<Rightarrow> process_state \<Rightarrow> thread_code \<Rightarrow> thread_code" where
  "register_code w h d s k =
     (let path = cstr (pc_child_image_path d); cmd = cstr (pc_child_command_line d) in
      act (call_ffi (UpdateProcessThreshold (pc_child_pid d) (timestamp_ns h) 1)) (
      ask audit_mode (\<lambda>audit.
      only_if (is_spoofed s)
        (alert_code w (pc_child_pid d) ''ALERT'' ''ppid_spoof'' ''''
           (if audit then ''LOGGED'' else ''CONTAINED'') (spoof_message s)) (
      act (insert_entry w (if is_spoofed s then s\<lparr>is_untrusted := True\<rparr> else s)) (
      act (insert_child (hdr_pid h) (ps_key s)) (
      only_if (is_untrusted s) (act (queue_scan (ps_key s) path)) (
      ask (\<lambda>e. evaluate (sigma_rules e) (creation_event w (hdr_pid h) path cmd)) (\<lambda>m.
      case m of
        None \<Rightarrow> k
      | Some rule \<Rightarrow>
          suspend_code w (ps_key s) (''Sigma correlation matched: '' @ rule_title rule)
            ''sigma_alert'' path k))))))))"

definition process_create_code ::
  "env \<Rightarrow> telemetry_header \<Rightarrow> process_create_details \<Rightarrow> thread_code \<Rightarrow> thread_code" where
  "process_create_code w h d k =
     (let pid = pc_child_pid d;
          path = cstr (pc_child_image_path d); cmd = cstr (pc_child_command_line d) in
      only_if (is_anonymous_exec path)
        (alert_code w pid ''ALERT'' ''anonymous_exec'' path ''LOGGED'' (ghosting_message pid path)) (
      ask (\<lambda>e. is_path_excluded (config_cell e) path) (\<lambda>excluded.
      ask (\<lambda>e. is_trusted_vendor (config_cell e) assumed_signer) (\<lambda>vendor.
      ask (\<lambda>e. is_display_hijack w (config_cell e) pid path) (\<lambda>hijack.
      ask config_cell (\<lambda>cfg.
      ask (\<lambda>e. parent_context (process_map e) (pc_real_parent_pid d)) (\<lambda>context.
      register_code w h d
        (built_state w cfg context
          (staged_untrusted path excluded vendor \<or> hijack \<or> is_demoted_script w cfg pid path cmd) h d)
        k)))))))"

lemma built_state_simps [simp]:
  "ps_key (built_state w cfg x u h d) = \<lparr>pk_pid = pc_child_pid d, pk_start_time = timestamp_ns h\<rparr>"
  "is_untrusted (built_state w cfg x u h d) = u"
  by (simp_all add: built_state_def Let_def split: prod.split)

lemma new_process_state_built:
  "new_process_state w cfg pm h d =
     built_state w cfg (parent_context pm (pc_real_parent_pid d))
       (create_untrusted w cfg (pc_child_pid d) (cstr (pc_child_image_path d))
         (cstr (pc_child_command_line d))) h d"
  by (simp add: new_process_state_def built_state_def)

lemma staged_create_untrusted:
  "staged_untrusted path (is_path_excluded cfg path) (is_trusted_vendor cfg assumed_signer) \<or>
     is_display_hijack w cfg pid path \<or> is_demoted_script w cfg pid path cmd \<longleftrightarrow>
   create_untrusted w cfg pid path cmd"
  by (simp add: staged_untrusted_def create_untrusted_def path_untrusted_def)

lemma run_process_create:
  "run_code (process_create_code w h d k) e = Option.bind (process_create w h d e) (run_code k)"
proof -
  let ?path = "cstr (pc_child_image_path d)" and ?cmd = "cstr (pc_child_command_line d)"
  let ?e = "alert_anonymous_exec w (pc_child_pid d) ?path e"
  let ?s = "new_process_state w (config_cell e) (process_map e) h d"
  have "run_code (process_create_code w h d k) e = run_code (register_code w h d ?s k) ?e"
    by (simp add: process_create_code_def Let_def alert_anonymous_exec_def staged_create_untrusted
        new_process_state_built)
  also have "\<dots> = Option.bind (process_create w h d e) (run_code k)"
    by (auto simp: register_code_def process_create_def Let_def check_spoof_eq call_ffi_def
        insert_entry_def insert_child_def queue_scan_def register_process_def sigma_check_def
        split: option.split)
  finally show ?thesis .
qed

lemma entry_ok_built: "entry_ok \<lparr>pk_pid = pc_child_pid d, pk_start_time = timestamp_ns h\<rparr> (built_state w cfg x u h d)"
  by (auto simp: entry_ok_def built_state_def Let_def split: prod.split)

lemma fair_insert_entry:
  assumes "env_ok w" "stands t a e" "entry_ok (ps_key s) s" "t \<Longrightarrow> pk_start_time (ps_key s) \<noteq> 0"
  shows "fair_move t a e (insert_entry w s e)"
  using assms(2)
proof (rule fair_lawful)
  show "base_ok e (insert_entry w s e)"
    using assms(1,3) by (simp add: insert_entry_def contract_defs entries_ok_rehash entries_ok_put)
  show "timed (insert_entry w s e)" if "t" "timed e"
    using that assms(1,4)
    by (auto simp: insert_entry_def timed_def set_rehash dest!: set_mp [OF set_dm_put_subset])
qed (simp add: insert_entry_def silent_change)

lemma fair_insert_child:
  assumes "stands t a e" "t \<Longrightarrow> pk_start_time key \<noteq> 0"
  shows "fair_move t a e (insert_child p key e)"
  using assms(1)
proof (rule fair_lawful)
  show "base_ok e (insert_child p key e)"
    by (simp add: insert_child_def contract_defs children_ok_add)
  show "timed (insert_child p key e)" if "t" "timed e"
    using that assms(2) timed_add_child [of "children_map e" "\<lparr>pk_pid = p, pk_start_time = 0\<rparr>" key]
    by (simp add: insert_child_def timed_def)
qed (simp add: insert_child_def silent_change)

lemma fair_queue_scan:
  assumes "stands t a e" "t \<Longrightarrow> pk_start_time key \<noteq> 0"
  shows "fair_move t a e (queue_scan key path e)"
  using assms(1)
proof (rule fair_lawful)
  show "timed (queue_scan key path e)" if "t" "timed e"
    using that assms(2) by (auto simp: queue_scan_def timed_def)
qed (auto simp: queue_scan_def contract_defs)

lemma abides_register:
  assumes "env_ok w" "t \<Longrightarrow> timestamp_ns h \<noteq> 0" "abides t a k"
  shows "abides t a (register_code w h d (built_state w cfg x u h d) k)"
  unfolding register_code_def Let_def using assms
  by (intro abides_intros abides_only_if abides_act fair_ffi fair_insert_entry fair_insert_child fair_queue_scan)
    (auto simp: entry_ok_built entry_ok_demote)

lemma abides_process_create:
  assumes "env_ok w" "t \<Longrightarrow> timestamp_ns h \<noteq> 0" "abides t a k"
  shows "abides t a (process_create_code w h d k)"
  unfolding process_create_code_def Let_def
  by (intro abides_only_if abides_alert abides_ask abides_register assms) (simp_all add: assms(2))

subsection \<open>Exit and purge\<close>

text \<open>The loop marks the entries the iteration shows as live, one change each. With an iterator that clings
  to the shard of the entry it has shown, the first of these changes never returns.\<close>

definition live_keys :: "u32 \<Rightarrow> process_map \<Rightarrow> process_key list" where
  "live_keys pid pm = map fst (filter (\<lambda>(k, s). pk_pid k = pid \<and> \<not> terminated s) pm)"

definition process_stop_code :: "env \<Rightarrow> telemetry_header \<Rightarrow> thread_code \<Rightarrow> thread_code" where
  "process_stop_code w h k =
     ask (\<lambda>e. case find_live (process_map e) (hdr_pid h) of
            None \<Rightarrow> None | Some (key, s) \<Rightarrow> if is_top_level_install s then Some key else None)
       (\<lambda>installer.
     case installer of
       Some key \<Rightarrow> act (spawn_task w (OrphanSweep key)) k
     | None \<Rightarrow>
         ask (\<lambda>e. live_keys (hdr_pid h) (process_map e)) (\<lambda>keys.
         if keys \<noteq> [] \<and> iterator_clings w then act block_consumer Halt
         else act_all (\<lambda>key. alter_entry key (stop_entry (clock w))) keys k))"

definition purge_code :: "env \<Rightarrow> thread_code \<Rightarrow> thread_code" where
  "purge_code w k = act (purge_expired_states w) k"

lemma stop_entry_idem [simp]: "stop_entry now (stop_entry now s) = stop_entry now s"
  by (simp add: stop_entry_def)

lemma fold_alter_entry:
  "fold (\<lambda>key. alter_entry key (stop_entry now)) keys e =
     e\<lparr>process_map := map (\<lambda>(k, s). (k, if k \<in> set keys then stop_entry now s else s)) (process_map e)\<rparr>"
proof (induction keys arbitrary: e)
  case (Cons key keys)
  have "fold (\<lambda>key. alter_entry key (stop_entry now)) (key # keys) e =
      fold (\<lambda>key. alter_entry key (stop_entry now)) keys (alter_entry key (stop_entry now) e)"
    by simp
  also have "\<dots> = (let f = alter_entry key (stop_entry now) e in f\<lparr>process_map :=
      map (\<lambda>(k, s). (k, if k \<in> set keys then stop_entry now s else s)) (process_map f)\<rparr>)"
    unfolding Let_def by (rule Cons.IH)
  also have "\<dots> = e\<lparr>process_map :=
      map (\<lambda>(k, s). (k, if k \<in> set (key # keys) then stop_entry now s else s)) (process_map e)\<rparr>"
    by (auto simp: alter_entry_def dm_alter_def case_prod_beta comp_def Let_def)
  finally show ?case .
qed (simp add: case_prod_beta)

lemma live_keys_iff:
  "k \<in> set (live_keys pid pm) \<longleftrightarrow> (\<exists>s. (k, s) \<in> set pm \<and> pk_pid k = pid \<and> \<not> terminated s)"
  by (force simp: live_keys_def)

lemma stop_all_live_keys:
  assumes "dm_ok pm"
  shows "map (\<lambda>(k, s). (k, if k \<in> set (live_keys pid pm) then stop_entry now s else s)) pm =
    stop_all now pid pm"
proof -
  have "k \<in> set (live_keys pid pm) \<longleftrightarrow> pk_pid k = pid \<and> \<not> terminated s" if "(k, s) \<in> set pm" for k s
  proof -
    have "s' = s" if "(k, s') \<in> set pm" for s'
      using that \<open>(k, s) \<in> set pm\<close> dm_get_iff [OF assms] by (metis option.inject)
    then show ?thesis using that unfolding live_keys_iff by blast
  qed
  note live = this
  show ?thesis
    unfolding stop_all_def
  proof (rule map_cong [OF refl])
    fix x assume "x \<in> set pm"
    then show "(case x of (k, s) \<Rightarrow> (k, if k \<in> set (live_keys pid pm) then stop_entry now s else s)) =
        (case x of (k, s) \<Rightarrow> (k, if pk_pid k = pid \<and> \<not> terminated s then stop_entry now s else s))"
      using live [of "fst x" "snd x"] by (simp add: case_prod_beta)
  qed
qed

lemma live_keys_Nil: "live_keys pid pm = [] \<longleftrightarrow> find_live pm pid = None"
  unfolding live_keys_def find_live_def by (auto simp: find_None_iff filter_empty_conv)

lemma live_keys_None: "find_live pm pid = None \<Longrightarrow> live_keys pid pm = []"
  by (simp add: live_keys_Nil)

lemma live_keys_Some: "find_live pm pid = Some r \<Longrightarrow> live_keys pid pm \<noteq> []"
  by (simp add: live_keys_Nil)

lemma run_process_stop:
  assumes "engine_inv e"
  shows "run_code (process_stop_code w h Halt) e = process_stop w h e"
proof -
  have "dm_ok (process_map e)" using assms by (simp add: engine_inv_def entries_ok_def)
  then show ?thesis
    by (auto simp: process_stop_code_def process_stop_def fold_alter_entry stop_all_live_keys block_consumer_def
        live_keys_None live_keys_Some split: option.split)
qed

lemma abides_process_stop:
  assumes "abides t a k"
  shows "abides t a (process_stop_code w h k)"
  unfolding process_stop_code_def
proof (rule abides_ask)
  fix e assume "stands t a e"
  then have "t \<Longrightarrow> pk_start_time key \<noteq> 0" if "find_live (process_map e) (hdr_pid h) = Some (key, s)" for key s
    using that timed_live_key by (auto simp: stands_def)
  then show "abides t a (case case find_live (process_map e) (hdr_pid h) of
        None \<Rightarrow> None | Some (key, s) \<Rightarrow> if is_top_level_install s then Some key else None of
       Some key \<Rightarrow> act (spawn_task w (OrphanSweep key)) k
     | None \<Rightarrow> ask (\<lambda>e. live_keys (hdr_pid h) (process_map e)) (\<lambda>keys.
         if keys \<noteq> [] \<and> iterator_clings w then act block_consumer Halt
         else act_all (\<lambda>key. alter_entry key (stop_entry (clock w))) keys k))"
    using assms
    by (auto intro!: abides_act fair_spawn abides_ask abides_act_all fair_alter fair_block split: option.split)
qed

lemma run_purge: "run_code (purge_code w k) e = run_code k (purge_expired_states w e)"
  by (simp add: purge_code_def)

lemma abides_purge: "abides t a k \<Longrightarrow> abides t a (purge_code w k)"
  unfolding purge_code_def
  by (rule abides_act) (auto intro: fair_lawful purge_base purge_silent purge_timed)

subsection \<open>Background tasks\<close>

definition scan_access :: "env \<Rightarrow> string \<Rightarrow> engine \<Rightarrow> bool \<times> engine" where
  "scan_access w path e = (case scan_file w path (yara e) of (bad, y) \<Rightarrow> (bad, e\<lparr>yara := y\<rparr>))"

definition yara_code :: "env \<Rightarrow> process_key \<Rightarrow> string \<Rightarrow> thread_code \<Rightarrow> thread_code" where
  "yara_code w key path k =
     change (scan_access w path) (\<lambda>bad.
     if bad then
       suspend_code w key ''YARA rule matched on execution'' ''malware_pattern'' path k
     else k)"

definition sweep_access :: "env \<Rightarrow> process_key \<Rightarrow> engine \<Rightarrow> process_state option \<times> engine" where
  "sweep_access w key e =
     (dm_get (process_map e) key, alter_entry key (stop_entry (clock w)) e)"

definition sweep_child_code :: "env \<Rightarrow> u32 \<Rightarrow> thread_code \<Rightarrow> thread_code" where
  "sweep_child_code w child_pid k =
     seek child_pid k (\<lambda>ck.
     change (sweep_access w ck) (\<lambda>v.
     case v of
       None \<Rightarrow> k
     | Some s \<Rightarrow>
         if image_path s = '''' then k
         else
           ask audit_mode (\<lambda>audit.
           act_all terminate_process (if audit then [] else [child_pid]) (
           act (append_alert w ''CRITICAL'' ''persistence_path'' ''''
             \<lparr>pi_pid = child_pid, pi_ppid = ppid s, pi_exe = image_path s,
              pi_cmdline = command_line s, pi_env = []\<rparr> ''TERMINATED'' orphan_message) k))))"

definition orphan_sweep_code :: "env \<Rightarrow> process_key \<Rightarrow> thread_code \<Rightarrow> thread_code" where
  "orphan_sweep_code w key k =
     walk key (\<lambda>pids.
     foldr (sweep_child_code w) pids (act (alter_entry key (stop_entry (clock w))) k))"

text \<open>Registering an executable as trusted: the kernel map, then the allowlist.\<close>

definition add_allowed :: "env \<Rightarrow> string \<Rightarrow> engine \<Rightarrow> engine" where
  "add_allowed w path e = e\<lparr>trust := add_to_user_allowlist w path (trust e)\<rparr>"

definition allow_code :: "env \<Rightarrow> string \<Rightarrow> thread_code \<Rightarrow> thread_code" where
  "allow_code w path k =
     (case file_inode w path of
        None \<Rightarrow> k
      | Some ino \<Rightarrow> act (call_ffi (AddTrustedExecInode ino 2)) (act (add_allowed w path) k))"

definition desktop_prompt_code ::
  "env \<Rightarrow> process_key \<Rightarrow> string \<Rightarrow> string \<Rightarrow> thread_code \<Rightarrow> thread_code" where
  "desktop_prompt_code w root_key root_path reason k =
     walk root_key (\<lambda>below.
     if trigger_desktop_prompt w (pk_pid root_key) root_path reason then
       allow_code w root_path (
       act_all release_process (below @ [pk_pid root_key]) (
       act (alter_entry root_key clear_threat) k))
     else act_all terminate_process (below @ [pk_pid root_key]) k)"

fun task_code :: "env \<Rightarrow> task \<Rightarrow> thread_code \<Rightarrow> thread_code" where
  "task_code w (YaraScan key path) k = yara_code w key path k"
| "task_code w (DesktopPrompt key path reason) k = desktop_prompt_code w key path reason k"
| "task_code w (OrphanSweep key) k = orphan_sweep_code w key k"

lemma run_yara: "run_code (yara_code w key path k) e = Option.bind (yara_task w key path e) (run_code k)"
  by (simp add: yara_code_def yara_task_def scan_access_def Let_def split: prod.split)

lemma run_sweep_child:
  "engine_inv e \<Longrightarrow> run_code (sweep_child_code w pid k) e = run_code k (sweep_child w pid e)"
  by (auto simp: sweep_child_code_def sweep_child_def sweep_access_def alter_entry_def append_alert_def
      live_entry Let_def split: option.split)

lemma run_sweep_children:
  "engine_inv e \<Longrightarrow>
     run_code (foldr (sweep_child_code w) pids k) e = run_code k (fold (sweep_child w) pids e)"
proof (induction pids arbitrary: e)
  case (Cons pid pids)
  then have "engine_inv (sweep_child w pid e)" using sweep_child_base by (simp add: base_ok_def)
  then show ?case using Cons by (simp add: run_sweep_child)
qed simp

lemma run_orphan_sweep:
  "engine_inv e \<Longrightarrow>
     run_code (orphan_sweep_code w key k) e = Option.bind (orphan_sweep w key e) (run_code k)"
  by (simp add: orphan_sweep_code_def orphan_sweep_def collect_static_eq run_sweep_children
      alter_entry_def Let_def split: option.split)

lemma run_allow [simp]: "run_code (allow_code w path k) e = run_code k (allow_image w path e)"
  by (simp add: allow_code_def allow_image_def call_ffi_def add_allowed_def split: option.split)

lemma run_desktop_prompt:
  "run_code (desktop_prompt_code w key path reason k) e =
     Option.bind (run_desktop_prompt w key path reason e) (run_code k)"
  by (auto simp: desktop_prompt_code_def run_desktop_prompt_def collect_static_eq allow_image_def
      alter_entry_def Let_def split: option.split)

lemma run_task_code:
  "engine_inv e \<Longrightarrow> run_code (task_code w x k) e = Option.bind (run_task w x e) (run_code k)"
  by (cases x) (simp_all add: run_yara run_orphan_sweep run_desktop_prompt)

lemma fair_scan: "stands t a e \<Longrightarrow> fair_move t a e (snd (scan_access w path e))"
  by (rule fair_elsewhere) (simp_all add: scan_access_def split: prod.split)

lemma abides_yara:
  "(t \<Longrightarrow> pk_start_time key \<noteq> 0) \<Longrightarrow> abides t a k \<Longrightarrow> abides t a (yara_code w key path k)"
  unfolding yara_code_def
  by (intro abides_intros abides_change conjI fair_scan) simp_all

lemma abides_sweep_child:
  assumes "abides t a k"
  shows "abides t a (sweep_child_code w pid k)"
  unfolding sweep_child_code_def
proof (intro abides_seek abides_change abides_option_case abides_if abides_ask conjI assms)
  fix key e assume "stands t a e"
  then show "fair_move t a e (snd (sweep_access w key e))"
    by (simp add: sweep_access_def fair_alter)
next
  fix s e assume e: "stands t a e"
  then have "audit_mode e \<or> \<not> a" by (auto simp: stands_def audited_def)
  then show "abides t a (act_all terminate_process (if audit_mode e then [] else [pid]) (
     act (append_alert w ''CRITICAL'' ''persistence_path'' ''''
       \<lparr>pi_pid = pid, pi_ppid = ppid s, pi_exe = image_path s, pi_cmdline = command_line s, pi_env = []\<rparr>
       ''TERMINATED'' orphan_message) k))"
    by (auto intro!: abides_act_all fair_signal abides_act fair_alert assms)
qed

lemma abides_orphan_sweep:
  assumes "t \<Longrightarrow> pk_start_time key \<noteq> 0" "abides t a k"
  shows "abides t a (orphan_sweep_code w key k)"
  unfolding orphan_sweep_code_def
proof (rule abides_walk [OF assms(1)])
  fix pids
  show "abides t a (foldr (sweep_child_code w) pids (act (alter_entry key (stop_entry (clock w))) k))"
    using assms(2) by (induction pids) (auto intro!: abides_sweep_child abides_act fair_alter)
qed

lemma fair_allowed: "stands t a e \<Longrightarrow> fair_move t a e (add_allowed w path e)"
  by (rule fair_elsewhere) (simp_all add: add_allowed_def)

lemma abides_allow: "abides t a k \<Longrightarrow> abides t a (allow_code w path k)"
  unfolding allow_code_def by (intro abides_option_case abides_act fair_ffi fair_allowed)

lemma abides_desktop_prompt:
  assumes "t \<Longrightarrow> pk_start_time key \<noteq> 0" "\<not> a" "abides t a k"
  shows "abides t a (desktop_prompt_code w key path reason k)"
  unfolding desktop_prompt_code_def
  by (intro abides_walk abides_if abides_allow abides_act_all abides_act fair_signal fair_alter assms)
    simp_all

lemma abides_task:
  assumes "t \<Longrightarrow> pk_start_time (task_key x) \<noteq> 0" "a \<Longrightarrow> \<not> is_prompt x" "abides t a k"
  shows "abides t a (task_code w x k)"
  using assms by (cases x) (auto intro!: abides_yara abides_orphan_sweep abides_desktop_prompt)

subsection \<open>Rules\<close>

definition set_config :: "config \<Rightarrow> engine \<Rightarrow> engine" where
  "set_config cfg e = e\<lparr>config_cell := cfg\<rparr>"

text \<open>The new rules are in force before the telemetry library knows their files.\<close>

definition reload_code :: "env \<Rightarrow> thread_code \<Rightarrow> thread_code" where
  "reload_code w k =
     (case load_rules_db w of
        Inl _ \<Rightarrow> k
      | Inr cfg \<Rightarrow>
          act (set_config cfg) (act_all call_ffi (register_sensitive w cfg @ register_protected w cfg) k))"

definition hot_reload_code :: "env \<Rightarrow> thread_code \<Rightarrow> thread_code" where
  "hot_reload_code w k =
     (case load_rules_db w of
        Inl _ \<Rightarrow> k
      | Inr cfg \<Rightarrow> act (set_config cfg) (act_all call_ffi (register_sensitive w cfg) k))"

subsection \<open>Commands\<close>

definition release_code :: "env \<Rightarrow> u32 \<Rightarrow> thread_code \<Rightarrow> thread_code" where
  "release_code w root_pid k =
     seek root_pid k (\<lambda>key.
     walk key (\<lambda>below.
     act_all release_process (below @ [pk_pid key]) (
     act (alter_entry key clear_threat) (
     alert_code w (pk_pid key) ''INFO'' ''release'' '''' ''RELEASED''
       ''Containment released by administrator'' k))))"

definition kill_code :: "env \<Rightarrow> u32 \<Rightarrow> thread_code \<Rightarrow> thread_code" where
  "kill_code w root_pid k =
     seek root_pid k (\<lambda>key.
     walk key (\<lambda>below.
     act_all terminate_process (below @ [pk_pid key]) (
     alert_code w (pk_pid key) ''INFO'' ''kill'' '''' ''TERMINATED''
       ''Process tree terminated by administrator'' k)))"

text \<open>The entry is found and changed under one guard.\<close>

definition trust_once_access :: "u32 \<Rightarrow> engine \<Rightarrow> engine" where
  "trust_once_access pid e =
     (case find_pid (process_map e) pid of
        None \<Rightarrow> e | Some (key, _) \<Rightarrow> alter_entry key trust_entry_once e)"

definition live_image :: "u32 \<Rightarrow> engine \<Rightarrow> string option" where
  "live_image pid e = map_option (\<lambda>(_, s). image_path s) (find_live (process_map e) pid)"

fun request_code :: "env \<Rightarrow> cli_request \<Rightarrow> thread_code \<Rightarrow> thread_code" where
  "request_code w ReloadRules k = reload_code w k"
| "request_code w (ReleaseContainment pid) k = release_code w pid k"
| "request_code w (TrustOnce pid) k = act (trust_once_access pid) k"
| "request_code w (AllowProcessTree pid) k =
     ask (live_image pid) (\<lambda>img.
     case img of None \<Rightarrow> k | Some path \<Rightarrow> allow_code w path (release_code w pid k))"
| "request_code w (KillProcessTree pid) k = kill_code w pid k"
| "request_code w (DenyProcessTree pid) k =
     ask (live_image pid) (\<lambda>img.
     case img of None \<Rightarrow> k | Some path \<Rightarrow> act (deny_image w path) (kill_code w pid k))"
| "request_code w _ k = k"

subsection \<open>The program of an input\<close>

definition handler_code :: "env \<Rightarrow> telemetry_event_raw \<Rightarrow> thread_code \<Rightarrow> thread_code" where
  "handler_code w raw k =
     (let h = header raw; buf = details_buffer raw in
      case hdr_event_type h of
        ProcessCreate \<Rightarrow> process_create_code w h (dec_process_create_details buf) k
      | ProcessStop \<Rightarrow> process_stop_code w h k
      | FileRead \<Rightarrow> file_read_code w h (dec_file_read_details buf) k
      | FileWrite \<Rightarrow> file_write_code w h (dec_file_write_details buf) k
      | NetworkConnect \<Rightarrow> network_connect_code w h (dec_network_connect_details buf) k
      | FileOpen \<Rightarrow> file_open_code w h (dec_file_open_details buf) k
      | Dup2 \<Rightarrow> dup2_code w h (dec_dup2_details buf) k
      | RegistryWrite \<Rightarrow> registry_write_code w h (dec_registry_write_details buf) k
      | PtraceAttach \<Rightarrow> ptrace_attach_code w h (dec_bpf_ptrace_attach_details buf) k
      | MemoryMap \<Rightarrow> memory_protect_code w h (dec_memory_map_bpf_details buf) False k
      | MemoryProtect \<Rightarrow> memory_protect_code w h (dec_memory_map_bpf_details buf) True k
      | ImageLoad \<Rightarrow> image_load_code w h (dec_bpf_image_load_details buf) k
      | _ \<Rightarrow> k)"

definition take_task :: "nat \<Rightarrow> engine \<Rightarrow> task option \<times> engine" where
  "take_task n e =
     (if n < length (tasks e)
      then (Some (tasks e ! n), e\<lparr>tasks := take n (tasks e) @ drop (Suc n) (tasks e)\<rparr>)
      else (None, e))"

fun input_code :: "env \<times> input \<Rightarrow> thread_code" where
  "input_code (w, Telemetry raw) =
     ask (\<lambda>e. consumer_ended e) (\<lambda>ended.
     if ended then Halt else handler_code (w\<lparr>on_runtime := False\<rparr>) raw Halt)"
| "input_code (w, PurgeTick) = purge_code w Halt"
| "input_code (w, FsEvent paths kind) =
     (if should_reload paths kind then hot_reload_code w Halt else Halt)"
| "input_code (w, Request r) = request_code w r Halt"
| "input_code (w, RunTask n) =
     change (take_task n) (\<lambda>x.
     case x of None \<Rightarrow> Halt | Some job \<Rightarrow> task_code (w\<lparr>on_runtime := True\<rparr>) job Halt)"

subsection \<open>Run alone, the program is the step\<close>

lemma run_release:
  "run_code (release_code w pid k) e =
     Option.bind (release_process_tree w pid e) (\<lambda>r. run_code k (case r of Inl _ \<Rightarrow> e | Inr e' \<Rightarrow> e'))"
  by (simp add: release_code_def release_process_tree_def alter_entry_def Let_def split: option.split)

lemma run_kill:
  "run_code (kill_code w pid k) e =
     Option.bind (kill_process_tree w pid e) (\<lambda>r. run_code k (case r of Inl _ \<Rightarrow> e | Inr e' \<Rightarrow> e'))"
  by (simp add: kill_code_def kill_process_tree_def Let_def split: option.split)

lemma snd_reply: "snd (reply ok f r) = (case r of Inl _ \<Rightarrow> f | Inr e' \<Rightarrow> e')"
  by (simp add: reply_def split: sum.split)

lemma run_reload:
  "run_code (reload_code w k) e = run_code k (case reload_rules w e of Inl _ \<Rightarrow> e | Inr e' \<Rightarrow> e')"
  by (simp add: reload_code_def reload_rules_def set_config_def split: sum.split)

lemma run_hot_reload: "run_code (hot_reload_code w k) e = run_code k (hot_reload w e)"
  by (simp add: hot_reload_code_def hot_reload_def set_config_def split: sum.split)

lemma run_request:
  "run_code (request_code w r k) e =
     Option.bind (map_option snd (handle_request w r e)) (run_code k)"
  by (cases r)
    (auto simp: run_release run_kill run_reload snd_reply trust_once_access_def trust_once_def
      alter_entry_def live_image_def allow_process_tree_def deny_process_tree_def Let_def
      bind_map_option comp_def split: option.split)

lemma run_event:
  "engine_inv e \<Longrightarrow> run_code (handler_code w raw Halt) e = handle_event w raw e"
  by (cases "hdr_event_type (header raw)")
    (simp_all add: handler_code_def handle_event_def Let_def clipboard_write_def run_process_create
      run_process_stop run_file_read run_file_write run_network_connect run_file_open run_dup2
      run_registry_write run_ptrace_attach run_memory_protect run_image_load)

lemma run_input: "engine_inv e \<Longrightarrow> run_code (input_code i) e = agent_exec i e"
proof (induction i rule: input_code.induct)
  case (5 w n)
  then have "engine_inv (e\<lparr>tasks := ts\<rparr>)" for ts
    by (simp add: engine_inv_def)
  then show ?case
    by (simp add: take_task_def run_queued_def run_task_code)
qed (simp_all add: run_event run_purge run_hot_reload run_request on_fs_event_def
    option.map_ident_strong)

subsection \<open>The program keeps the contract\<close>

lemma fair_set_config: "stands t a e \<Longrightarrow> fair_move t a e (set_config cfg e)"
  by (rule fair_elsewhere) (simp_all add: set_config_def)

lemma abides_reload: "abides t a k \<Longrightarrow> abides t a (reload_code w k)"
  unfolding reload_code_def
  by (cases "load_rules_db w")
    (auto intro!: abides_act abides_act_all fair_set_config fair_ffi)

lemma abides_hot_reload: "abides t a k \<Longrightarrow> abides t a (hot_reload_code w k)"
  unfolding hot_reload_code_def
  by (cases "load_rules_db w")
    (auto intro!: abides_act abides_act_all fair_set_config fair_ffi)

lemma abides_release: "\<not> a \<Longrightarrow> abides t a k \<Longrightarrow> abides t a (release_code w pid k)"
  unfolding release_code_def
  by (intro abides_seek abides_walk abides_act_all abides_act abides_alert fair_signal fair_alter)
    simp_all

lemma abides_kill: "\<not> a \<Longrightarrow> abides t a k \<Longrightarrow> abides t a (kill_code w pid k)"
  unfolding kill_code_def
  by (intro abides_seek abides_walk abides_act_all abides_alert fair_signal) simp_all

lemma fair_trust_once: "stands t a e \<Longrightarrow> fair_move t a e (trust_once_access pid e)"
  by (auto simp: trust_once_access_def intro!: fair_alter entry_ok_trust_once split: option.split)

lemma fair_deny: "stands t a e \<Longrightarrow> fair_move t a e (deny_image w path e)"
  by (rule fair_elsewhere) (simp_all add: deny_image_def)

lemma abides_request: "\<not> a \<Longrightarrow> abides t a k \<Longrightarrow> abides t a (request_code w r k)"
  by (cases r)
    (auto intro!: abides_reload abides_release abides_kill abides_allow abides_ask abides_act
      abides_option_case fair_trust_once fair_deny)

lemma abides_event:
  assumes "env_ok w" "t \<Longrightarrow> timestamp_ns (header raw) \<noteq> 0" "abides t a k"
  shows "abides t a (handler_code w raw k)"
  using assms
  by (cases "hdr_event_type (header raw)")
    (simp_all add: handler_code_def Let_def abides_process_create abides_process_stop abides_file_read
      abides_file_write abides_network_connect abides_file_open abides_dup2 abides_registry_write
      abides_ptrace_attach abides_memory_protect abides_image_load)

lemma fair_take_task:
  assumes "stands t a e"
  shows "fair_move t a e (snd (take_task n e))"
proof (cases "n < length (tasks e)")
  case True
  let ?e = "e\<lparr>tasks := take n (tasks e) @ drop (Suc n) (tasks e)\<rparr>"
  have sub: "set (tasks ?e) \<subseteq> set (tasks e)"
    by (simp add: set_take_subset set_drop_subset)
  have "fair_move t a e ?e"
    using assms
  proof (rule fair_lawful)
    show "silent e ?e" using sub by (auto simp: silent_def no_prompt_def)
    show "timed ?e" if "timed e" using that True by (rule timed_drop_task)
  qed (rule base_tasks)
  then show ?thesis using True by (simp add: take_task_def)
qed (use assms in \<open>simp add: take_task_def\<close>)

lemma taken_task:
  assumes "stands t a e" "fst (take_task n e) = Some x"
  shows "(t \<longrightarrow> pk_start_time (task_key x) \<noteq> 0) \<and> (a \<longrightarrow> \<not> is_prompt x)"
proof -
  have "x \<in> set (tasks e)" using assms(2) by (auto simp: take_task_def split: if_splits)
  then show ?thesis using assms(1) by (auto simp: stands_def timed_def audited_def no_prompt_def)
qed

lemma abides_input:
  assumes "env_ok (fst i)" "t \<Longrightarrow> stamped (snd i)" "a \<Longrightarrow> \<not> is_request (snd i)"
  shows "abides t a (input_code i)"
  using assms
proof (induction i rule: input_code.induct)
  case (5 w n)
  show ?case
    unfolding input_code.simps
  proof (rule abides_change, rule conjI)
    fix e assume e: "stands t a e"
    then show "fair_move t a e (snd (take_task n e))" by (rule fair_take_task)
    show "abides t a (case fst (take_task n e) of None \<Rightarrow> Halt
        | Some job \<Rightarrow> task_code (w\<lparr>on_runtime := True\<rparr>) job Halt)"
      using taken_task [OF e] by (auto intro!: abides_task split: option.split)
  qed
qed (auto intro!: abides_ask abides_event abides_purge abides_hot_reload abides_request)

end
