(* ===== verification/Pool.thy ===== *)
theory Pool
  imports ThreadLife
begin

section \<open>The agent with interleaved threads\<close>

text \<open>
  The consumer of the event queue and any number of other threads (requests, the purge, the
  watcher, background tasks) over one shared engine. Each performs the actions of its program one by
  one, in any interleaving; the consumer takes the next event when it is done with the last, every
  other input starts a thread of its own. An action is what is done under one guard, and a thread whose
  guard another thread holds waits: it does not act. Who waits in which state is decided by \<open>waits\<close>, an argument
  of the transition system (\<open>LockPrograms\<close> has the locks and their guards); the theorems about every
  run hold for every \<open>waits\<close>, also one under which a thread waits for ever, and the runs shown
  to exist are runs in which no thread has to wait. Nothing here says that a thread ends.
\<close>

record pool =
  shared :: engine
  consumer :: thread_code
  workers :: "thread_code list"

definition idle_pool :: "engine \<Rightarrow> pool" where
  "idle_pool e = \<lparr>shared = e, consumer = Halt, workers = []\<rparr>"

fun is_telemetry :: "input \<Rightarrow> bool" where
  "is_telemetry (Telemetry raw) = True"
| "is_telemetry _ = False"

text \<open>The threads are the consumer (\<^term>\<open>None\<close>) and the workers by number.\<close>

inductive pool_step ::
  "(pool \<Rightarrow> nat option \<Rightarrow> bool) \<Rightarrow> (env \<times> input \<Rightarrow> bool) \<Rightarrow> pool \<Rightarrow> pool \<Rightarrow> bool" for waits adm where
  receives: "adm i \<Longrightarrow> is_telemetry (snd i) \<Longrightarrow> consumer p = Halt \<Longrightarrow>
    pool_step waits adm p (p\<lparr>consumer := input_code i\<rparr>)"
| begins: "adm i \<Longrightarrow> \<not> is_telemetry (snd i) \<Longrightarrow>
    pool_step waits adm p (p\<lparr>workers := workers p @ [input_code i]\<rparr>)"
| consumes: "\<not> waits p None \<Longrightarrow> perform (consumer p) (shared p) = Some (e', c) \<Longrightarrow>
    pool_step waits adm p (p\<lparr>shared := e', consumer := c\<rparr>)"
| works: "n < length (workers p) \<Longrightarrow> \<not> waits p (Some n) \<Longrightarrow> perform (workers p ! n) (shared p) = Some (e', c) \<Longrightarrow>
    pool_step waits adm p (p\<lparr>shared := e', workers := (workers p)[n := c]\<rparr>)"

inductive_cases pool_stepE: "pool_step waits adm p p'"

abbreviation pool_runs ::
  "(pool \<Rightarrow> nat option \<Rightarrow> bool) \<Rightarrow> (env \<times> input \<Rightarrow> bool) \<Rightarrow> pool \<Rightarrow> pool \<Rightarrow> bool" where
  "pool_runs waits adm \<equiv> (pool_step waits adm)\<^sup>*\<^sup>*"

text \<open>No thread has to wait.\<close>

definition unhindered :: "pool \<Rightarrow> nat option \<Rightarrow> bool" where
  "unhindered p t = False"

definition threads :: "pool \<Rightarrow> thread_code list" where
  "threads p = consumer p # workers p"

definition at_rest :: "pool \<Rightarrow> bool" where
  "at_rest p \<longleftrightarrow> list_all (\<lambda>c. c = Halt) (threads p)"

lemma at_rest_idle [simp]: "at_rest (idle_pool e)" "shared (idle_pool e) = e"
  by (simp_all add: at_rest_def threads_def idle_pool_def)

subsection \<open>Schedules\<close>

text \<open>A run given move by move.\<close>

datatype move = Receive "env \<times> input" | Begin "env \<times> input" | Consume | Work nat

fun make_move :: "move \<Rightarrow> pool \<Rightarrow> pool option" where
  "make_move (Receive i) p =
     (if is_telemetry (snd i) \<and> consumer p = Halt then Some (p\<lparr>consumer := input_code i\<rparr>) else None)"
| "make_move (Begin i) p =
     (if is_telemetry (snd i) then None else Some (p\<lparr>workers := workers p @ [input_code i]\<rparr>))"
| "make_move Consume p =
     map_option (\<lambda>(e', c). p\<lparr>shared := e', consumer := c\<rparr>) (perform (consumer p) (shared p))"
| "make_move (Work n) p =
     (if n < length (workers p)
      then map_option (\<lambda>(e', c). p\<lparr>shared := e', workers := (workers p)[n := c]\<rparr>)
        (perform (workers p ! n) (shared p))
      else None)"

fun make_moves :: "move list \<Rightarrow> pool \<Rightarrow> pool option" where
  "make_moves [] p = Some p"
| "make_moves (m # ms) p = Option.bind (make_move m p) (make_moves ms)"

fun inputs_ok :: "(env \<times> input \<Rightarrow> bool) \<Rightarrow> move list \<Rightarrow> bool" where
  "inputs_ok adm [] = True"
| "inputs_ok adm (Receive i # ms) = (adm i \<and> inputs_ok adm ms)"
| "inputs_ok adm (Begin i # ms) = (adm i \<and> inputs_ok adm ms)"
| "inputs_ok adm (_ # ms) = inputs_ok adm ms"

lemma make_move_step: "make_move m p = Some p' \<Longrightarrow> inputs_ok adm [m] \<Longrightarrow> pool_step unhindered adm p p'"
  by (cases m) (auto intro: pool_step.intros simp: unhindered_def split: if_splits)

lemma make_moves_runs: "make_moves ms p = Some p' \<Longrightarrow> inputs_ok adm ms \<Longrightarrow> pool_runs unhindered adm p p'"
proof (induction ms arbitrary: p)
  case (Cons m ms)
  then obtain q where q: "make_move m p = Some q" "make_moves ms q = Some p'"
    by (auto simp: bind_eq_Some_conv)
  have "inputs_ok adm [m] \<and> inputs_ok adm ms" using Cons.prems(2) by (cases m) simp_all
  then have "pool_step unhindered adm p q" "pool_runs unhindered adm q p'"
    using make_move_step [OF q(1)] Cons.IH [OF q(2)] by simp_all
  then show ?case by (rule converse_rtranclp_into_rtranclp)
qed simp

subsection \<open>The contract under interleaving\<close>

text \<open>Each thread keeps to the contract in every state the others may leave behind.\<close>

definition pool_ok :: "bool \<Rightarrow> bool \<Rightarrow> engine \<Rightarrow> pool \<Rightarrow> bool" where
  "pool_ok t a e0 p \<longleftrightarrow>
     stands t a (shared p) \<and> base_ok e0 (shared p) \<and> (a \<longrightarrow> signals (shared p) = signals e0) \<and>
     (\<forall>c \<in> set (threads p). abides t a c)"

definition admits :: "bool \<Rightarrow> bool \<Rightarrow> (env \<times> input \<Rightarrow> bool) \<Rightarrow> bool" where
  "admits t a adm \<longleftrightarrow>
     (\<forall>i. adm i \<longrightarrow> env_ok (fst i) \<and> (t \<longrightarrow> stamped (snd i)) \<and> (a \<longrightarrow> \<not> is_request (snd i)))"

lemma admits_inputs [simp]:
  "admits False False any_input" "admits True False stamped_input" "admits False True unattended_input"
  by (auto simp: admits_def any_input_def stamped_input_def unattended_input_def)

lemma admitted_abides: "admits t a adm \<Longrightarrow> adm i \<Longrightarrow> abides t a (input_code i)"
  unfolding admits_def by (intro abides_input) blast+

lemma pool_ok_perform:
  assumes "pool_ok t a e0 p" "c \<in> set (threads p)" "perform c (shared p) = Some (e', c')"
  shows "stands t a e' \<and> base_ok e0 e' \<and> (a \<longrightarrow> signals e' = signals e0) \<and> abides t a c'"
proof -
  have "stands t a (shared p)" "abides t a c" using assms(1,2) by (simp_all add: pool_ok_def)
  then have "fair_move t a (shared p) e' \<and> abides t a c'" using abides_perform assms(3) by blast
  then show ?thesis using assms(1) by (auto simp: pool_ok_def fair_move_def intro: base_ok_trans)
qed

lemma pool_ok_step:
  assumes "admits t a adm" "pool_step waits adm p p'" "pool_ok t a e0 p"
  shows "pool_ok t a e0 p'"
  using assms(2)
proof cases
  case (receives i)
  have "abides t a (input_code i)" using assms(1) receives(2) by (rule admitted_abides)
  then show ?thesis using assms(3) receives by (auto simp: pool_ok_def threads_def)
next
  case (begins i)
  have "abides t a (input_code i)" using assms(1) begins(2) by (rule admitted_abides)
  then show ?thesis using assms(3) begins by (auto simp: pool_ok_def threads_def)
next
  case (consumes e' c)
  then show ?thesis
    using pool_ok_perform [OF assms(3) _ consumes(3)] assms(3) by (auto simp: pool_ok_def threads_def)
next
  case (works n e' c)
  then have "workers p ! n \<in> set (threads p)" by (simp add: threads_def)
  moreover have "set ((workers p)[n := c]) \<subseteq> insert c (set (workers p))" by (rule set_update_subset_insert)
  ultimately show ?thesis
    using pool_ok_perform [OF assms(3) _ works(4)] assms(3) works(1) by (auto simp: pool_ok_def threads_def)
qed

lemma pool_ok_runs:
  assumes "admits t a adm" "pool_runs waits adm p p'" "pool_ok t a e0 p"
  shows "pool_ok t a e0 p'"
  using assms(2,3) by (induction rule: rtranclp_induct) (blast intro: pool_ok_step [OF assms(1)])+

lemma pool_ok_idle: "stands t a e \<Longrightarrow> pool_ok t a e (idle_pool e)"
  by (simp add: pool_ok_def idle_pool_def threads_def)

subsection \<open>Threads that are not hindered\<close>

text \<open>One thread runs while the others pause.\<close>

lemma run_perform:
  "run_code c e = Some e' \<Longrightarrow> c \<noteq> Halt \<Longrightarrow> \<exists>f c'. perform c e = Some (f, c') \<and> run_code c' f = Some e'"
  by (cases c) (auto split: option.splits)

lemma worker_solo:
  assumes "n < length (workers p)" "run_code (workers p ! n) (shared p) = Some e'"
  shows "pool_runs unhindered adm p (p\<lparr>shared := e', workers := (workers p)[n := Halt]\<rparr>)"
  using assms
proof (induction "workers p ! n" arbitrary: p rule: wf_induct_rule [OF own_steps_wf])
  case (1 p)
  show ?case
  proof (cases "workers p ! n = Halt")
    case True
    then have "p\<lparr>shared := e', workers := (workers p)[n := Halt]\<rparr> = p"
      using 1(3) list_update_id [of "workers p" n] by simp
    then show ?thesis by simp
  next
    case False
    obtain f c where c: "perform (workers p ! n) (shared p) = Some (f, c)" "run_code c f = Some e'"
      using run_perform [OF 1(3) False] by blast
    let ?p = "p\<lparr>shared := f, workers := (workers p)[n := c]\<rparr>"
    have step: "pool_step unhindered adm p ?p" using 1(2) c(1) by (intro pool_step.works) (simp_all add: unhindered_def)
    have "(workers ?p ! n, workers p ! n) \<in> own_steps" using c(1) 1(2) by (auto simp: own_steps_def)
    then have "pool_runs unhindered adm ?p (?p\<lparr>shared := e', workers := (workers ?p)[n := Halt]\<rparr>)"
      by (rule 1(1)) (use 1(2) c(2) in simp_all)
    then show ?thesis using converse_rtranclp_into_rtranclp [of "pool_step unhindered adm", OF step] by simp
  qed
qed

lemma consumer_solo:
  assumes "run_code (consumer p) (shared p) = Some e'"
  shows "pool_runs unhindered adm p (p\<lparr>shared := e', consumer := Halt\<rparr>)"
  using assms
proof (induction "consumer p" arbitrary: p rule: wf_induct_rule [OF own_steps_wf])
  case (1 p)
  show ?case
  proof (cases "consumer p = Halt")
    case True
    then have "p\<lparr>shared := e', consumer := Halt\<rparr> = p" using 1(2) by simp
    then show ?thesis by simp
  next
    case False
    obtain f c where c: "perform (consumer p) (shared p) = Some (f, c)" "run_code c f = Some e'"
      using run_perform [OF 1(2) False] by blast
    let ?p = "p\<lparr>shared := f, consumer := c\<rparr>"
    have step: "pool_step unhindered adm p ?p" using c(1) by (intro pool_step.consumes) (simp_all add: unhindered_def)
    have "(consumer ?p, consumer p) \<in> own_steps" using c(1) by (auto simp: own_steps_def)
    then have "pool_runs unhindered adm ?p (?p\<lparr>shared := e', consumer := Halt\<rparr>)"
      by (rule 1(1)) (use c(2) in simp_all)
    then show ?thesis using converse_rtranclp_into_rtranclp [of "pool_step unhindered adm", OF step] by simp
  qed
qed

text \<open>A thread that keeps the contract runs to its end.\<close>

lemma abides_run:
  assumes "abides True a c" "stands True a e"
  shows "\<exists>e'. run_code c e = Some e'"
  using assms
proof (induction c arbitrary: e rule: wf_induct_rule [OF own_steps_wf])
  case (1 c)
  show ?case
  proof (cases c)
    case (Next f)
    then obtain e' c' where r: "f e = Some (e', c')" using abides_returns [OF 1(2,3)] by auto
    then have p: "perform c e = Some (e', c')" by (simp add: Next)
    then have "fair_move True a e e'" "abides True a c'" using abides_perform [OF 1(2,3)] by simp_all
    moreover have "(c', c) \<in> own_steps" using p by (auto simp: own_steps_def)
    ultimately obtain e'' where "run_code c' e' = Some e''" using 1(1) by (auto simp: fair_move_def)
    then show ?thesis by (simp add: Next r)
  qed simp
qed

subsection \<open>What a thread still owes\<close>

text \<open>\<open>owes x c\<close>: while the agent enforces, every way the program can go on sends the signal \<open>x\<close>.\<close>

definition sends :: "signal \<times> int \<Rightarrow> engine \<Rightarrow> engine \<Rightarrow> bool" where
  "sends x e e' \<longleftrightarrow> x \<in> set (drop (length (signals e)) (signals e'))"

primrec owes :: "signal \<times> int \<Rightarrow> thread_code \<Rightarrow> bool" where
  "owes x Halt = False"
| "owes x (Next f) =
     (\<forall>e. \<not> audit_mode e \<longrightarrow>
        (case map_option (map_prod id (owes x)) (f e) of
           None \<Rightarrow> True
         | Some (e', rest) \<Rightarrow> sends x e e' \<or> rest))"

lemma owes_Next:
  "owes x (Next f) \<longleftrightarrow>
     (\<forall>e. \<not> audit_mode e \<longrightarrow> (case f e of None \<Rightarrow> True | Some (e', c) \<Rightarrow> sends x e e' \<or> owes x c))"
  by (auto split: option.splits)

lemma owes_perform:
  assumes "owes x c" "\<not> audit_mode e" "perform c e = Some (e', c')"
  shows "sends x e e' \<or> owes x c'"
proof (cases c)
  case (Next f)
  have "case f e of None \<Rightarrow> True | Some (e', c) \<Rightarrow> sends x e e' \<or> owes x c"
    using assms(1,2) unfolding Next owes_Next by blast
  then show ?thesis using assms(3) by (simp add: Next)
qed (use assms in simp)

lemma owes_ask: "(\<And>e. \<not> audit_mode e \<Longrightarrow> owes x (c (g e))) \<Longrightarrow> owes x (ask g c)"
  by (simp add: ask_def owes_Next del: owes.simps(2))

lemma owes_walk: "(\<And>below. owes x (c below)) \<Longrightarrow> owes x (walk k c)"
  by (simp add: walk_def owes_Next del: owes.simps(2) split: option.split)

lemma owes_act_all: "y \<in> set ys \<Longrightarrow> (\<And>e. sends x e (g y e)) \<Longrightarrow> owes x (act_all g ys c)"
  by (induction ys) (auto simp: act_all_def act_def owes_Next simp del: owes.simps(2))

lemma owes_suspend: "owes (SIGSTOP, sint (pk_pid key)) (suspend_code w key reason cat r k)"
  unfolding suspend_code_def
  by (intro owes_walk owes_ask) (auto intro!: owes_act_all [of "pk_pid key"] simp: sends_def suspend_process_def)

lemma owes_terminate: "owes (SIGKILL, sint (pk_pid key)) (terminate_code w key reason cat r k)"
  unfolding terminate_code_def
  by (intro owes_walk owes_ask) (auto intro!: owes_act_all [of "pk_pid key"] simp: sends_def terminate_process_def)

lemma owes_terminate_holding:
  "owes (SIGKILL, sint (pk_pid key)) (terminate_holding_code w key reason cat r k)"
  unfolding terminate_holding_code_def
  by (intro owes_walk owes_ask) (auto intro!: owes_act_all [of "pk_pid key"] simp: sends_def terminate_process_def)

lemma sends_mono:
  assumes "sends x e f" "prefix (signals e) (signals f)" "prefix (signals f) (signals g)"
  shows "sends x e g"
  using assms by (auto simp: sends_def prefix_def)

lemma sends_later:
  assumes "prefix (signals e) (signals f)" "sends x f g"
  shows "sends x e g"
proof -
  have "length (signals e) \<le> length (signals f)" using assms(1) by (rule prefix_length_le)
  then have "set (drop (length (signals f)) (signals g)) \<subseteq> set (drop (length (signals e)) (signals g))"
    by (rule set_drop_subset_set_drop)
  then show ?thesis using assms(2) unfolding sends_def by (rule subsetD)
qed

text \<open>Once owed, a signal is sent before the threads come to rest, whatever they do in between.\<close>

definition settled :: "signal \<times> int \<Rightarrow> engine \<Rightarrow> pool \<Rightarrow> bool" where
  "settled x e p \<longleftrightarrow>
     \<not> audit_mode (shared p) \<and> prefix (signals e) (signals (shared p)) \<and>
     (sends x e (shared p) \<or> (\<exists>c \<in> set (threads p). owes x c))"

lemma settled_perform:
  assumes "settled x e p" "c0 \<in> set (threads p)" "perform c0 (shared p) = Some (e', c')"
    and "base_ok (shared p) e'" "shared p' = e'" "c' \<in> set (threads p')"
    and "\<And>c. c \<in> set (threads p) \<Longrightarrow> c \<noteq> c0 \<Longrightarrow> c \<in> set (threads p')"
  shows "settled x e p'"
proof -
  have grow: "prefix (signals (shared p)) (signals e')" and audit: "\<not> audit_mode (shared p)"
    using assms(1,4) by (simp_all add: base_ok_def effects_grow_def settled_def)
  have pre: "prefix (signals e) (signals (shared p))" using assms(1) by (simp add: settled_def)
  consider "sends x e (shared p)" | c where "c \<in> set (threads p)" "owes x c" "c \<noteq> c0" | "owes x c0"
    using assms(1) by (auto simp: settled_def)
  then have "sends x e e' \<or> (\<exists>c \<in> set (threads p'). owes x c)"
  proof cases
    case 1
    then show ?thesis using sends_mono [OF _ pre grow] by blast
  next
    case (2 c)
    then show ?thesis using assms(7) by blast
  next
    case 3
    then have "sends x (shared p) e' \<or> owes x c'" using audit assms(3) by (rule owes_perform)
    then show ?thesis using sends_later [OF pre] assms(6) by blast
  qed
  moreover have "\<not> audit_mode e'" using audit base_ok_audit [OF assms(4)] by simp
  ultimately show ?thesis
    using assms(5) prefix_order.trans [OF pre grow] by (simp add: settled_def)
qed

lemma settled_step:
  assumes "admits t a adm" "pool_step waits adm p p'" "pool_ok t a e0 p" "settled x e p"
  shows "settled x e p'"
proof -
  have base: "base_ok (shared p) e'" if "c \<in> set (threads p)" "perform c (shared p) = Some (e', c')" for c c' e'
  proof -
    have "abides t a c" "stands t a (shared p)" using assms(3) that(1) by (simp_all add: pool_ok_def)
    from abides_perform [OF this that(2)] show ?thesis by (simp add: fair_move_def)
  qed
  show ?thesis
    using assms(2)
  proof cases
    case (receives i)
    then show ?thesis using assms(4) by (auto simp: settled_def threads_def)
  next
    case (begins i)
    then show ?thesis using assms(4) by (auto simp: settled_def threads_def)
  next
    case (consumes e' c)
    have c0: "consumer p \<in> set (threads p)" by (simp add: threads_def)
    show ?thesis
      by (rule settled_perform [OF assms(4) c0 consumes(3) base [OF c0 consumes(3)]])
        (auto simp: consumes(1) threads_def)
  next
    case (works n e' c)
    have c0: "workers p ! n \<in> set (threads p)" using works(2) by (simp add: threads_def)
    have kept: "d \<in> set ((workers p)[n := c])" if d: "d \<in> set (workers p)" "d \<noteq> workers p ! n" for d
    proof -
      obtain j where j: "j < length (workers p)" "workers p ! j = d"
        using d(1) by (auto simp: in_set_conv_nth)
      from j(2) d(2) have "n \<noteq> j" by blast
      then have "(workers p)[n := c] ! j = d" by (simp add: j(2))
      then show ?thesis using j(1) nth_mem [of j "(workers p)[n := c]"] by simp
    qed
    show ?thesis
    proof (rule settled_perform [OF assms(4) c0 works(4) base [OF c0 works(4)]])
      show "shared p' = e'" by (simp add: works(1))
      show "c \<in> set (threads p')" using works(2) by (simp add: works(1) threads_def set_update_memI)
      show "d \<in> set (threads p')" if "d \<in> set (threads p)" "d \<noteq> workers p ! n" for d
        using that kept by (auto simp: works(1) threads_def)
    qed
  qed
qed

lemma settled_runs:
  assumes "admits t a adm" "pool_runs waits adm p p'" "pool_ok t a e0 p" "settled x e p"
  shows "settled x e p'"
  using assms(2)
proof (induction rule: rtranclp_induct)
  case (step q r)
  have "pool_ok t a e0 q" using pool_ok_runs [OF assms(1) step.hyps(1) assms(3)] .
  then show ?case using settled_step [OF assms(1) step.hyps(2)] step.IH by blast
qed (rule assms(4))

lemma owed_is_kept:
  assumes "admits t a adm" "pool_runs waits adm p p'" "pool_ok t a e0 p" "\<not> audit_mode (shared p)"
    and "c \<in> set (threads p)" "owes x c"
  shows "sends x (shared p) (shared p') \<or> (\<exists>c \<in> set (threads p'). owes x c)"
proof -
  have "settled x (shared p) p" using assms(4-6) by (auto simp: settled_def)
  then have "settled x (shared p) p'" by (rule settled_runs [OF assms(1-3)])
  then show ?thesis by (simp add: settled_def)
qed

lemma at_rest_owes_nothing: "at_rest p \<Longrightarrow> c \<in> set (threads p) \<Longrightarrow> \<not> owes x c"
  by (auto simp: at_rest_def list_all_iff)

end
