(* ===== verification/Interleaving.thy ===== *)
theory Interleaving
  imports Pool
begin

section \<open>What interleaving changes\<close>

text \<open>
  The properties of the agent whose threads interleave action by action, wait for each other's guards in
  any way, and may block for ever: the invariant and the silence of audit mode hold there as well, and a
  containment once decided is never dropped. And there are runs, without any waiting, that no
  order of whole handlers explains: a release overtaken by a suspension already decided, and a creation
  judged by two sets of rules.
\<close>

subsection \<open>A run with overlapping threads\<close>

text \<open>The consumer has begun to handle a creation when a purge runs.\<close>

definition overlap :: "move list" where
  "overlap = [Receive (quiet_env, Telemetry parent_event), Consume, Consume, Begin (quiet_env, PurgeTick), Work 0]"

lemma handler_code_create:
  "wf_process_create_details d \<Longrightarrow>
     handler_code w (create_event ts p d) k = process_create_code w (header (create_event ts p d)) d k"
  using process_create_details_codec.dec_exact [of d]
  by (simp add: handler_code_def create_event_def Let_def)

lemma overlap_run:
  assumes "\<not> consumer_ended e"
  shows "\<exists>c. make_moves overlap (idle_pool e) =
    Some \<lparr>shared = purge_expired_states quiet_env e, consumer = c, workers = [Halt]\<rparr> \<and> c \<noteq> Halt"
proof -
  let ?d = "create_details 7 1 ''/usr/bin/npm''"
  have "\<not> is_anonymous_exec ''/usr/bin/npm''" by code_simp
  then have path: "\<not> is_anonymous_exec (cstr (pc_child_image_path ?d))"
    by (simp add: is_ascii_text_def)
  have code: "handler_code consumer_env parent_event Halt =
      process_create_code consumer_env (header parent_event) ?d Halt"
    unfolding parent_event_def by (rule handler_code_create) (simp add: wf_create_details)
  show ?thesis
    using assms path
    by (simp add: overlap_def idle_pool_def ask_def act_def purge_code_def code
        process_create_code_def only_if_def Let_def)
qed

lemma overlap_started:
  "\<exists>e0 p. run_agent (sample_startup audit quiet_config) = Inr e0 \<and>
     audit_mode e0 = (audit = Some ''true'' \<or> audit = Some ''1'') \<and>
     make_moves overlap (idle_pool e0) = Some p \<and> consumer p \<noteq> Halt"
proof -
  obtain e0 where e0: "run_agent (sample_startup audit quiet_config) = Inr e0" "\<not> consumer_ended e0"
    "audit_mode e0 = (audit = Some ''true'' \<or> audit = Some ''1'')"
    using start_sample by blast
  then show ?thesis using overlap_run [OF e0(2)] by auto
qed

lemma runs_from_start:
  assumes "run_agent s = Inr e0" "pool_runs waits adm (idle_pool e0) p" "admits t a adm" "a \<Longrightarrow> audit_mode e0"
  shows "pool_ok t a e0 p"
proof (rule pool_ok_runs [OF assms(3,2)], rule pool_ok_idle)
  show "stands t a e0"
    using assms(4) timed_start [OF assms(1)] run_agent_inv [OF assms(1)]
    by (auto simp: stands_def audited_def no_prompt_def)
qed

subsection \<open>What holds in every interleaving\<close>

text \<open>C5. The state invariant holds, and signals, alerts and kernel-map updates are only ever appended, also
  between the actions of the handlers: in every state any interleaving of the threads can reach, however
  they wait for each other.\<close>

theorem interleaved_invariant:
  assumes "run_agent s = Inr e0" "pool_runs waits any_input (idle_pool e0) p"
  shows "engine_inv (shared p) \<and> effects_grow e0 (shared p)"
  using runs_from_start [OF assms admits_inputs(1)] run_agent_inv [OF assms(1)]
  by (simp add: pool_ok_def base_ok_def)

theorem interleaved_invariant_witness:
  "\<exists>e0 p. run_agent (sample_startup None quiet_config) = Inr e0 \<and>
     pool_runs unhindered any_input (idle_pool e0) p \<and> consumer p \<noteq> Halt \<and>
     engine_inv (shared p) \<and> effects_grow e0 (shared p)"
proof -
  obtain e0 p where e0: "run_agent (sample_startup None quiet_config) = Inr e0"
    "make_moves overlap (idle_pool e0) = Some p" "consumer p \<noteq> Halt"
    using overlap_started by blast
  have "inputs_ok any_input overlap" by (simp add: overlap_def any_input_def)
  then have "pool_runs unhindered any_input (idle_pool e0) p" using e0(2) by (intro make_moves_runs)
  then show ?thesis using interleaved_invariant [OF e0(1)] e0 by blast
qed

text \<open>C6. In audit mode no interleaving of the threads sends a signal, however they wait for each other, as
  long as no command arrives on the control socket.\<close>

theorem interleaved_audit_silent:
  assumes "run_agent s = Inr e0" "audit_mode e0" "pool_runs waits unattended_input (idle_pool e0) p"
  shows "signals (shared p) = []"
  using runs_from_start [OF assms(1,3) admits_inputs(3)] assms(2) run_agent_inv [OF assms(1)]
  by (simp add: pool_ok_def)

theorem interleaved_audit_silent_witness:
  "\<exists>e0 p. audit_mode e0 \<and> pool_runs unhindered unattended_input (idle_pool e0) p \<and> consumer p \<noteq> Halt \<and>
     signals (shared p) = []"
proof -
  obtain e0 p where e0: "run_agent (sample_startup (Some ''true'') quiet_config) = Inr e0" "audit_mode e0"
    "make_moves overlap (idle_pool e0) = Some p" "consumer p \<noteq> Halt"
    using overlap_started [of "Some ''true''"] by auto
  have "inputs_ok unattended_input overlap" by (simp add: overlap_def unattended_input_def)
  then have "pool_runs unhindered unattended_input (idle_pool e0) p" using e0(3) by (intro make_moves_runs)
  then show ?thesis using interleaved_audit_silent [OF e0(1,2)] e0 by blast
qed

subsection \<open>A release overtaken by a decided suspension\<close>

text \<open>Another thread runs from start to end between two actions of the consumer.\<close>

lemma between:
  assumes "adm i" "\<not> is_telemetry (snd i)" "run_code (input_code i) e1 = Some e2" "run_code c e2 = Some e3"
  shows "pool_runs unhindered adm \<lparr>shared = e1, consumer = c, workers = []\<rparr> \<lparr>shared = e3, consumer = Halt, workers = [Halt]\<rparr>"
proof -
  let ?p = "\<lparr>shared = e1, consumer = c, workers = []\<rparr>"
  let ?q = "\<lparr>shared = e1, consumer = c, workers = [input_code i]\<rparr>"
  let ?r = "\<lparr>shared = e2, consumer = c, workers = [Halt]\<rparr>"
  have "pool_step unhindered adm ?p ?q"
    using pool_step.begins [where adm = adm and p = ?p and i = i, OF assms(1,2)] by simp
  moreover have "pool_runs unhindered adm ?q ?r"
    using worker_solo [of 0 ?q e2 adm] assms(3) by simp
  moreover have "pool_runs unhindered adm ?r \<lparr>shared = e3, consumer = Halt, workers = [Halt]\<rparr>"
    using consumer_solo [of ?r e3 adm] assms(4) by simp
  ultimately show ?thesis by (meson converse_rtranclp_into_rtranclp rtranclp_trans)
qed

text \<open>The consumer after it has recorded a connection that calls for a suspension.\<close>

lemma connect_decided:
  assumes "engine_inv e" "\<not> consumer_ended e" "hdr_event_type (header raw) = NetworkConnect"
    and "find_live (process_map e) (hdr_pid (header raw)) = Some (k, s)" "category_flags s \<noteq> 0"
  shows "make_moves [Receive (w, Telemetry raw), Consume, Consume, Consume] (idle_pool e) =
    Some \<lparr>shared = alter_entry k note_connect e,
      consumer = peek k (\<lambda>v. suspend_code (w\<lparr>on_runtime := False\<rparr>) k forward_path_reason
        (case v of None \<Rightarrow> ''network'' | Some s \<Rightarrow> connect_category_name (category_flags s)) '''' Halt),
      workers = []\<rparr>"
  using assms live_entry [OF assms(1,4)]
  by (simp add: idle_pool_def ask_def change_def handler_code_def Let_def network_connect_code_def
      seek_def note_connect_access_def)

lemma clear_note [simp]:
  "clear_threat (note_connect s) = s\<lparr>category_flags := 0, pending_network_connect := False\<rparr>"
  by (simp add: clear_threat_def note_connect_def)

lemma timed_alter_entry: "timed e \<Longrightarrow> timed (alter_entry k f e)"
  by (simp add: alter_entry_def)

lemma connect_overtaken:
  assumes "timed e" "engine_inv e" "\<not> audit_mode e" "\<not> consumer_ended e"
    and "hdr_event_type (header raw) = NetworkConnect" "hdr_pid (header raw) = pid"
    and "find_live (process_map e) pid = Some (k, s)" "category_flags s \<noteq> 0"
    and "adm (w, Telemetry raw)" "adm (w', Request (ReleaseContainment pid))"
  shows "\<exists>p. pool_runs unhindered adm (idle_pool e) p \<and> at_rest p \<and>
      signals (shared p) = signals e @ [(SIGCONT, sint pid), (SIGSTOP, sint pid)] \<and>
      find_live (process_map (shared p)) pid =
        Some (k, s\<lparr>category_flags := 0, pending_network_connect := False\<rparr>)"
proof -
  let ?w = "w\<lparr>on_runtime := False\<rparr>" and ?h = "header raw"
  have live: "find_live (process_map e) (hdr_pid ?h) = Some (k, s)" using assms(6,7) by simp
  have k: "pk_start_time k \<noteq> 0" "pk_pid k = pid"
    using timed_live_key [OF assms(1,7)] find_live_SomeD [OF assms(7)] by simp_all
  let ?e1 = "alter_entry k note_connect e"
  have t1: "timed ?e1" using assms(1) by (simp add: alter_entry_def)
  have l1: "find_live (process_map ?e1) pid = Some (k, note_connect s)"
    by (simp add: alter_entry_def find_live_alter_same assms(7))
  obtain e2 where e2: "release_process_tree w' pid ?e1 = Some (Inr e2)" "timed e2"
    "signals e2 = signals ?e1 @ [(SIGCONT, sint pid)]" "audit_mode e2 = audit_mode ?e1"
    "process_map e2 = dm_alter k clear_threat (process_map ?e1)"
    by (rule release_timed [OF t1 l1, of w']) (simp add: k)
  let ?c = "\<lambda>v. suspend_code ?w k forward_path_reason
    (case v of None \<Rightarrow> ''network'' | Some s \<Rightarrow> connect_category_name (category_flags s)) '''' Halt"
  let ?cat = "case dm_get (process_map e2) k of None \<Rightarrow> ''network''
    | Some s \<Rightarrow> connect_category_name (category_flags s)"
  have "\<not> audit_mode e2" using e2(4) assms(3) by (simp add: alter_entry_def)
  then obtain e3 where e3: "suspend_process_tree ?w k forward_path_reason ?cat '''' e2 = Some e3"
    "signals e3 = signals e2 @ [(SIGSTOP, sint pid)]" "process_map e3 = process_map e2"
    using suspend_timed [OF e2(2) k(1), of ?w forward_path_reason ?cat "''''"] k(2) by auto
  have a: "pool_runs unhindered adm (idle_pool e) \<lparr>shared = ?e1, consumer = peek k ?c, workers = []\<rparr>"
    by (rule make_moves_runs [OF connect_decided [OF assms(2,4,5) live assms(8)]]) (simp add: assms(9))
  have "pool_runs unhindered adm \<lparr>shared = ?e1, consumer = peek k ?c, workers = []\<rparr>
      \<lparr>shared = e3, consumer = Halt, workers = [Halt]\<rparr>"
    using assms(10)
    by (rule between) (simp_all add: run_release e2(1), rule e3(1))
  then have "pool_runs unhindered adm (idle_pool e) \<lparr>shared = e3, consumer = Halt, workers = [Halt]\<rparr>"
    by (rule rtranclp_trans [OF a])
  moreover have "find_live (process_map e3) pid = Some (k, s\<lparr>category_flags := 0, pending_network_connect := False\<rparr>)"
    by (simp add: e3(3) e2(5) find_live_alter_same [OF _ l1])
  ultimately show ?thesis
    using e3(2) e2(3)
    by (intro exI [of _ "\<lparr>shared = e3, consumer = Halt, workers = [Halt]\<rparr>"])
      (simp add: at_rest_def threads_def alter_entry_def)
qed

lemma connect_then_release:
  assumes "timed e" "engine_inv e" "\<not> audit_mode e" "\<not> consumer_ended e"
    and "hdr_event_type (header raw) = NetworkConnect" "hdr_pid (header raw) = pid"
    and "find_live (process_map e) pid = Some (k, s)" "category_flags s \<noteq> 0"
  shows "\<exists>e1 e2. agent_exec (w, Telemetry raw) e = Some e1 \<and>
      agent_exec (w', Request (ReleaseContainment pid)) e1 = Some e2 \<and>
      signals e2 = signals e @ [(SIGSTOP, sint pid), (SIGCONT, sint pid)]"
proof -
  let ?w = "w\<lparr>on_runtime := False\<rparr>" and ?h = "header raw" and ?d = "dec_network_connect_details (details_buffer raw)"
  have live: "find_live (process_map e) (hdr_pid ?h) = Some (k, s)" using assms(6,7) by simp
  have pid: "pk_pid k = pid" using find_live_SomeD [OF assms(7)] by simp
  obtain e1 where e1: "network_connect ?w ?h ?d e = Some e1" "timed e1"
    "find_live (process_map e1) (hdr_pid ?h) = Some (k, note_connect s)"
    "signals e1 = signals e @ [(SIGSTOP, sint pid)]"
    by (rule network_connect_timed [OF assms(1) live, of ?w ?d]) (use assms in simp)
  obtain e2 where "release_process_tree w' pid e1 = Some (Inr e2)"
    "signals e2 = signals e1 @ [(SIGCONT, sint pid)]"
    by (rule release_timed [OF e1(2), of pid k "note_connect s" w']) (use e1(3) assms(6) pid in simp_all)
  then show ?thesis
    using e1(1,4) assms(4,5) by (auto simp: handle_event_def Let_def reply_def)
qed

lemma release_then_connect:
  assumes "timed e" "engine_inv e" "\<not> audit_mode e" "\<not> consumer_ended e"
    and "hdr_event_type (header raw) = NetworkConnect" "hdr_pid (header raw) = pid"
    and "find_live (process_map e) pid = Some (k, s)" "category_flags s \<noteq> 0"
  shows "\<exists>e1 e2. agent_exec (w', Request (ReleaseContainment pid)) e = Some e1 \<and>
      agent_exec (w, Telemetry raw) e1 = Some e2 \<and> signals e2 = signals e @ [(SIGCONT, sint pid)]"
proof -
  let ?w = "w\<lparr>on_runtime := False\<rparr>" and ?h = "header raw" and ?d = "dec_network_connect_details (details_buffer raw)"
  have pid: "pk_pid k = pid" using find_live_SomeD [OF assms(7)] by simp
  obtain e1 where e1: "release_process_tree w' pid e = Some (Inr e1)" "timed e1"
    "signals e1 = signals e @ [(SIGCONT, sint pid)]"
    "process_map e1 = dm_alter k clear_threat (process_map e)"
    by (rule release_timed [OF assms(1,7), of w']) (simp add: pid)
  have "base_ok e e1" using e1(1) by (rule release_base)
  have live: "find_live (process_map e1) (hdr_pid ?h) = Some (k, clear_threat s)"
    by (simp add: e1(4) assms(6) find_live_alter_same [OF _ assms(7)])
  obtain e2 where "network_connect ?w ?h ?d e1 = Some e2" "signals e2 = signals e1"
    by (rule network_connect_timed [OF e1(2) live, of ?w ?d]) simp
  moreover have "\<not> consumer_panicked e1"
    using e1(1) assms(4) by (auto simp: release_process_tree_def engine_simps Let_def split: option.splits prod.splits)
  ultimately show ?thesis
    using e1(1,3) assms(5) by (auto simp: handle_event_def Let_def reply_def)
qed

text \<open>C8. A release can be overtaken: the command finds the process, resumes it and clears its record between
  the handler's decision to stop it and the stop signal. The process then stays stopped, although the
  last command on it succeeded and its record shows no threat; handled one after the other, in either
  order, the resume signal is the last.\<close>

theorem release_overtaken:
  assumes "timed e" "engine_inv e" "\<not> audit_mode e" "\<not> consumer_ended e"
    and "hdr_event_type (header raw) = NetworkConnect" "hdr_pid (header raw) = pid"
    and "find_live (process_map e) pid = Some (k, s)" "category_flags s \<noteq> 0"
    and "adm (w, Telemetry raw)" "adm (w', Request (ReleaseContainment pid))"
  shows "(\<exists>p. pool_runs unhindered adm (idle_pool e) p \<and> at_rest p \<and>
      signals (shared p) = signals e @ [(SIGCONT, sint pid), (SIGSTOP, sint pid)] \<and>
      find_live (process_map (shared p)) pid =
        Some (k, s\<lparr>category_flags := 0, pending_network_connect := False\<rparr>)) \<and>
    (\<exists>e1 e2. agent_exec (w, Telemetry raw) e = Some e1 \<and>
      agent_exec (w', Request (ReleaseContainment pid)) e1 = Some e2 \<and>
      signals e2 = signals e @ [(SIGSTOP, sint pid), (SIGCONT, sint pid)]) \<and>
    (\<exists>e1 e2. agent_exec (w', Request (ReleaseContainment pid)) e = Some e1 \<and>
      agent_exec (w, Telemetry raw) e1 = Some e2 \<and> signals e2 = signals e @ [(SIGCONT, sint pid)])"
  using connect_overtaken [of e raw pid k s adm w w', OF assms]
    connect_then_release [OF assms(1-8), of w w'] release_then_connect [OF assms(1-8), of w' w]
  by (intro conjI)

theorem release_overtaken_witness:
  "\<exists>p. pool_runs unhindered any_input (idle_pool (sample_engine quiet_config None
      ((sample_process ''/bin/x'' False)\<lparr>category_flags := 4\<rparr>))) p \<and> at_rest p \<and>
     signals (shared p) = [(SIGCONT, 7), (SIGSTOP, 7)]"
proof -
  let ?s = "(sample_process ''/bin/x'' False)\<lparr>category_flags := 4\<rparr>"
  let ?e = "sample_engine quiet_config None ?s"
  have "entry_ok sample_key ?s" by (simp add: entry_ok_def)
  then have "engine_inv ?e" by (rule engine_inv_sample)
  moreover have "\<not> consumer_ended ?e" by (simp add: sample_engine_def new_engine_def)
  moreover have "\<not> audit_mode ?e" by simp
  ultimately show ?thesis
    using release_overtaken [OF timed_sample, of quiet_config None ?s connect_event 7 sample_key ?s any_input
        quiet_env quiet_env]
    by (simp add: connect_event_def any_input_def) blast
qed

subsection \<open>A decided containment is carried out\<close>

lemma suspend_decided:
  assumes "engine_inv e" "\<not> consumer_ended e" "hdr_event_type (header raw) = NetworkConnect"
    and "find_live (process_map e) (hdr_pid (header raw)) = Some (k, s)" "category_flags s \<noteq> 0"
  shows "\<exists>cat. make_moves [Receive (w, Telemetry raw), Consume, Consume, Consume, Consume] (idle_pool e) =
    Some \<lparr>shared = alter_entry k note_connect e,
      consumer = suspend_code (w\<lparr>on_runtime := False\<rparr>) k forward_path_reason cat '''' Halt,
      workers = []\<rparr>"
  using assms live_entry [OF assms(1,4)]
  by (simp add: idle_pool_def ask_def change_def handler_code_def Let_def network_connect_code_def
      seek_def note_connect_access_def peek_def) blast

text \<open>C7. While the agent enforces, a decision to stop or to kill a process is never dropped: once a thread
  has reached a containment, then in every later state, whatever the other threads do in between (a release, a
  reload, a purge or the exit of the process included) and however the threads wait for each other, either
  the process has got its signal since, or some thread still owes it: every way that thread can go on
  sends it. So the threads never come to rest without the signal. This includes the containment that
  then blocks its thread. That the thread gets to act again is not claimed.\<close>

theorem decided_containment_is_sent:
  assumes "timed e" "engine_inv e" "\<not> audit_mode e" "pool_runs waits stamped_input (idle_pool e) p"
    and "pool_runs waits stamped_input p p'"
  shows "(suspend_code w key reason cat r k \<in> set (threads p) \<longrightarrow>
      (let x = (SIGSTOP, sint (pk_pid key)); new = drop (length (signals (shared p))) (signals (shared p'))
       in (x \<in> set new \<or> (\<exists>c \<in> set (threads p'). owes x c)) \<and> (at_rest p' \<longrightarrow> x \<in> set new))) \<and>
    (terminate_code w key reason cat r k \<in> set (threads p) \<or>
     terminate_holding_code w key reason cat r k \<in> set (threads p) \<longrightarrow>
      (let x = (SIGKILL, sint (pk_pid key)); new = drop (length (signals (shared p))) (signals (shared p'))
       in (x \<in> set new \<or> (\<exists>c \<in> set (threads p'). owes x c)) \<and> (at_rest p' \<longrightarrow> x \<in> set new)))"
proof -
  have "stands True False e" using assms(1,2) by (simp add: stands_def)
  then have ok: "pool_ok True False e p"
    using pool_ok_runs [OF admits_inputs(2) assms(4)] pool_ok_idle by blast
  then have audit: "\<not> audit_mode (shared p)" using assms(3) base_ok_audit by (auto simp: pool_ok_def)
  let ?new = "drop (length (signals (shared p))) (signals (shared p'))"
  have kept: "(x \<in> set ?new \<or> (\<exists>c \<in> set (threads p'). owes x c)) \<and> (at_rest p' \<longrightarrow> x \<in> set ?new)"
    if "c \<in> set (threads p)" "owes x c" for x c
    using owed_is_kept [OF admits_inputs(2) assms(5) ok audit that] at_rest_owes_nothing [of p' _ x]
    unfolding sends_def by blast
  show ?thesis
    unfolding Let_def
    by (intro conjI impI; (elim disjE)?)
      (use kept [OF _ owes_suspend] kept [OF _ owes_terminate] kept [OF _ owes_terminate_holding] in simp_all)
qed

theorem decided_containment_is_sent_witness:
  "\<exists>p p' w cat. consumer p = suspend_code w sample_key forward_path_reason cat '''' Halt \<and>
     signals (shared p) = [] \<and> pool_runs unhindered stamped_input p p' \<and> at_rest p' \<and>
     (SIGSTOP, 7) \<in> set (signals (shared p'))"
proof -
  let ?s = "(sample_process ''/bin/x'' False)\<lparr>category_flags := 4\<rparr>"
  let ?e = "sample_engine quiet_config None ?s"
  let ?code = "\<lambda>cat. suspend_code consumer_env sample_key forward_path_reason cat '''' Halt"
  have inv: "engine_inv ?e" by (rule engine_inv_sample) (simp add: entry_ok_def)
  have "\<not> consumer_ended ?e" by (simp add: sample_engine_def new_engine_def)
  then obtain cat where m: "make_moves
      [Receive (quiet_env, Telemetry connect_event), Consume, Consume, Consume, Consume] (idle_pool ?e) =
    Some \<lparr>shared = alter_entry sample_key note_connect ?e, consumer = ?code cat, workers = []\<rparr>"
      (is "_ = Some ?p")
    using suspend_decided [OF inv, of connect_event sample_key ?s quiet_env]
    by (auto simp: connect_event_def)
  have r: "pool_runs unhindered stamped_input (idle_pool ?e) ?p"
    by (rule make_moves_runs [OF m]) (simp add: stamped_input_def connect_event_def)
  have sig: "signals (shared ?p) = []" by (simp add: alter_entry_def)
  have t: "?code cat \<in> set (threads ?p)" by (simp add: threads_def)
  have "timed (shared ?p)" using timed_alter_entry [OF timed_sample] by simp
  then obtain e' where e': "run_code (consumer ?p) (shared ?p) = Some e'"
    using suspend_timed [of "shared ?p" sample_key consumer_env forward_path_reason cat "''''"]
    by auto
  let ?p' = "?p\<lparr>shared := e', consumer := Halt\<rparr>"
  have r': "pool_runs unhindered stamped_input ?p ?p'" using e' by (rule consumer_solo)
  have rest: "at_rest ?p'" by (simp add: at_rest_def threads_def)
  have "\<not> audit_mode ?e" by simp
  from decided_containment_is_sent [OF timed_sample inv this r r', of consumer_env sample_key
      forward_path_reason cat "''''" Halt] t rest
  have "(SIGSTOP, sint (pk_pid sample_key)) \<in> set (drop (length (signals (shared ?p))) (signals (shared ?p')))"
    by (simp add: Let_def)
  then show ?thesis
    using sig r' rest by (intro exI [of _ ?p] exI [of _ ?p'] exI [of _ consumer_env] exI [of _ cat]) simp
qed

subsection \<open>A creation judged by two sets of rules\<close>

lemma get_process_env_runtime [simp]:
  "get_process_env (w\<lparr>on_runtime := b\<rparr>) pid x = get_process_env w pid x"
  by (simp add: get_process_env_def)

lemma create_rules_runtime [simp]:
  "is_display_hijack (w\<lparr>on_runtime := b\<rparr>) cfg pid path = is_display_hijack w cfg pid path"
  "is_demoted_script (w\<lparr>on_runtime := b\<rparr>) cfg pid path cmd = is_demoted_script w cfg pid path cmd"
  "create_untrusted (w\<lparr>on_runtime := b\<rparr>) cfg pid path cmd = create_untrusted w cfg pid path cmd"
  by (simp_all add: create_untrusted_def is_display_hijack_def is_demoted_script_def is_stdin_tty_def)

text \<open>What is left of a creation once the exclusion has been read.\<close>

definition after_exclusion ::
  "env \<Rightarrow> telemetry_header \<Rightarrow> process_create_details \<Rightarrow> bool \<Rightarrow> thread_code" where
  "after_exclusion w h d excluded =
     (let pid = pc_child_pid d;
          path = cstr (pc_child_image_path d); cmd = cstr (pc_child_command_line d) in
      ask (\<lambda>e. is_trusted_vendor (config_cell e) assumed_signer) (\<lambda>vendor.
      ask (\<lambda>e. is_display_hijack w (config_cell e) pid path) (\<lambda>hijack.
      ask config_cell (\<lambda>cfg.
      ask (\<lambda>e. parent_context (process_map e) (pc_real_parent_pid d)) (\<lambda>context.
      register_code w h d
        (built_state w cfg context
          (staged_untrusted path excluded vendor \<or> hijack \<or> is_demoted_script w cfg pid path cmd) h d)
        Halt)))))"

lemma creation_begun:
  assumes "\<not> consumer_ended e" "wf_process_create_details d"
    and "\<not> is_anonymous_exec (cstr (pc_child_image_path d))"
  shows "make_moves [Receive (w, Telemetry (create_event ts p d)), Consume, Consume] (idle_pool e) =
    Some \<lparr>shared = e,
      consumer = after_exclusion (w\<lparr>on_runtime := False\<rparr>) (header (create_event ts p d)) d
        (is_path_excluded (config_cell e) (cstr (pc_child_image_path d))),
      workers = []\<rparr>"
  using assms
  by (simp add: idle_pool_def ask_def handler_code_create process_create_code_def only_if_def Let_def
      after_exclusion_def)

text \<open>Registering a trusted process with an honest parent queues no scan.\<close>

lemma register_trusted:
  assumes "run_code (register_code w h d s Halt) e = Some e'" "\<not> is_untrusted s" "\<not> is_spoofed s"
  shows "process_map e' = rehash w (dm_put (ps_key s) s (process_map e)) \<and> config_cell e' = config_cell e \<and>
    (\<forall>k path. YaraScan k path \<in> set (tasks e') \<longrightarrow> YaraScan k path \<in> set (tasks e))"
  using assms
  by (auto simp: register_code_def Let_def call_ffi_def insert_entry_def insert_child_def
      suspend_process_tree_def engine_simps split: option.splits if_splits)

lemma mixed_creation:
  assumes "timed e" "engine_inv e" "\<not> consumer_ended e" "wf_process_create_details d" "env_ok w" "ts \<noteq> 0"
    and "pc_real_parent_pid d = p" "path = cstr (pc_child_image_path d)" "cmd = cstr (pc_child_command_line d)"
    and "is_path_excluded (config_cell e) path" "\<not> is_anonymous_exec path"
    and "\<not> is_display_hijack w new (pc_child_pid d) path" "\<not> is_demoted_script w new (pc_child_pid d) path cmd"
    and "load_rules_db w' = Inr new"
    and "adm (w, Telemetry (create_event ts p d))" "adm (w', Request ReloadRules)"
  shows "\<exists>q. pool_runs unhindered adm (idle_pool e) q \<and> at_rest q \<and> config_cell (shared q) = new \<and>
    (\<exists>c. dm_get (process_map (shared q)) \<lparr>pk_pid = pc_child_pid d, pk_start_time = ts\<rparr> = Some c \<and>
       \<not> is_untrusted c) \<and>
    (\<forall>k path. YaraScan k path \<in> set (tasks (shared q)) \<longrightarrow> YaraScan k path \<in> set (tasks e))"
proof -
  let ?w = "w\<lparr>on_runtime := False\<rparr>" and ?h = "header (create_event ts p d)"
  define e2 where "e2 = e\<lparr>config_cell := new,
    ffi_log := ffi_log e @ register_sensitive w' new @ register_protected w' new\<rparr>"
  define s where "s = built_state ?w new (parent_context (process_map e) p) False ?h d"
  have run: "run_code (after_exclusion ?w ?h d True) e2 = run_code (register_code ?w ?h d s Halt) e2"
    using assms(7-9,12,13)
    by (simp add: after_exclusion_def Let_def staged_untrusted_def e2_def s_def)
  have "abides True False (register_code ?w ?h d s Halt)"
    unfolding s_def by (rule abides_register) (simp_all add: assms(5,6))
  moreover have "stands True False e2" using assms(1) by (simp add: stands_def e2_def timed_def)
  ultimately obtain e3 where e3: "run_code (register_code ?w ?h d s Halt) e2 = Some e3"
    using abides_run by blast
  have "\<not> is_spoofed s" using assms(7) by (simp add: s_def is_spoofed_def built_state_def Let_def split: prod.split)
  then have r: "process_map e3 = rehash ?w (dm_put (ps_key s) s (process_map e2))" "config_cell e3 = config_cell e2"
    "\<forall>k path. YaraScan k path \<in> set (tasks e3) \<longrightarrow> YaraScan k path \<in> set (tasks e2)"
    using register_trusted [OF e3] by (simp_all add: s_def)
  have dm: "dm_ok (dm_put (ps_key s) s (process_map e2))"
    using assms(2) by (simp add: e2_def engine_inv_def entries_ok_def dm.ok_put)
  have "ps_key s = \<lparr>pk_pid = pc_child_pid d, pk_start_time = ts\<rparr>" "\<not> is_untrusted s" by (simp_all add: s_def)
  then have entry: "\<exists>c. dm_get (process_map e3) \<lparr>pk_pid = pc_child_pid d, pk_start_time = ts\<rparr> = Some c \<and> \<not> is_untrusted c"
    using dm assms(5) by (simp add: r(1) dm_get_rehash dm.get_put)
  have a: "pool_runs unhindered adm (idle_pool e) \<lparr>shared = e, consumer = after_exclusion ?w ?h d True, workers = []\<rparr>"
    by (rule make_moves_runs [where ms = "[Receive (w, Telemetry (create_event ts p d)), Consume, Consume]"])
      (use creation_begun [OF assms(3,4)] assms(8,10,11,15) in simp_all)
  have "pool_runs unhindered adm \<lparr>shared = e, consumer = after_exclusion ?w ?h d True, workers = []\<rparr>
      \<lparr>shared = e3, consumer = Halt, workers = [Halt]\<rparr>"
    using assms(16) by (rule between) (simp_all add: run_reload reload_rules_def assms(14) e2_def [symmetric], simp only: run e3)
  then have "pool_runs unhindered adm (idle_pool e) \<lparr>shared = e3, consumer = Halt, workers = [Halt]\<rparr>"
    by (rule rtranclp_trans [OF a])
  then show ?thesis
    using entry r(2,3)
    by (intro exI [of _ "\<lparr>shared = e3, consumer = Halt, workers = [Halt]\<rparr>"])
      (simp add: at_rest_def threads_def e2_def)
qed

lemma judged_untrusted:
  assumes "engine_inv e" "env_ok w" "wf_process_create_details d"
    and "create_untrusted w (config_cell e) (pc_child_pid d) (cstr (pc_child_image_path d))
           (cstr (pc_child_command_line d))"
    and "\<not> consumer_ended e" "agent_exec (w, Telemetry (create_event ts p d)) e = Some e'"
  shows "\<exists>c. dm_get (process_map e') \<lparr>pk_pid = pc_child_pid d, pk_start_time = ts\<rparr> = Some c \<and> is_untrusted c"
proof -
  have "process_create (w\<lparr>on_runtime := False\<rparr>) (header (create_event ts p d)) d e = Some e'"
    using assms(5,6) by (simp add: handle_create_event [OF assms(3)])
  from process_create_stores(1) [OF _ assms(1) this] show ?thesis
    using assms(2,4) by (simp add: stored_untrusted)
qed

text \<open>C9. A creation can be judged by rules that were never in force: the handler reads the exclusion under
  one guard and the vendor, the display and the interpreters under later ones. If the rules are reloaded
  in between, a process both rule sets call untrusted is recorded as trusted and not scanned;
  handled before or after the reload it is recorded as untrusted.\<close>

theorem rules_mixed:
  assumes "timed e" "engine_inv e" "\<not> consumer_ended e" "wf_process_create_details d" "env_ok w" "ts \<noteq> 0"
    and "pc_real_parent_pid d = p" "path = cstr (pc_child_image_path d)" "cmd = cstr (pc_child_command_line d)"
    and "is_path_excluded (config_cell e) path" "\<not> is_anonymous_exec path"
    and "\<not> is_display_hijack w new (pc_child_pid d) path" "\<not> is_demoted_script w new (pc_child_pid d) path cmd"
    and "load_rules_db w' = Inr new"
    and "adm (w, Telemetry (create_event ts p d))" "adm (w', Request ReloadRules)"
    and "create_untrusted w (config_cell e) (pc_child_pid d) path cmd"
    and "create_untrusted w new (pc_child_pid d) path cmd"
  shows "(\<exists>q. pool_runs unhindered adm (idle_pool e) q \<and> at_rest q \<and> config_cell (shared q) = new \<and>
      (\<exists>c. dm_get (process_map (shared q)) \<lparr>pk_pid = pc_child_pid d, pk_start_time = ts\<rparr> = Some c \<and>
         \<not> is_untrusted c) \<and>
      (\<forall>k path. YaraScan k path \<in> set (tasks (shared q)) \<longrightarrow> YaraScan k path \<in> set (tasks e))) \<and>
    (\<forall>e'. agent_exec (w, Telemetry (create_event ts p d)) e = Some e' \<longrightarrow>
      (\<exists>c. dm_get (process_map e') \<lparr>pk_pid = pc_child_pid d, pk_start_time = ts\<rparr> = Some c \<and> is_untrusted c)) \<and>
    (\<forall>e'. agent_exec (w, Telemetry (create_event ts p d)) (e\<lparr>config_cell := new\<rparr>) = Some e' \<longrightarrow>
      (\<exists>c. dm_get (process_map e') \<lparr>pk_pid = pc_child_pid d, pk_start_time = ts\<rparr> = Some c \<and> is_untrusted c))"
proof (intro conjI allI impI)
  show "\<exists>c. dm_get (process_map e') \<lparr>pk_pid = pc_child_pid d, pk_start_time = ts\<rparr> = Some c \<and> is_untrusted c"
    if "agent_exec (w, Telemetry (create_event ts p d)) e = Some e'" for e'
    using judged_untrusted [OF assms(2,5,4) _ assms(3) that] assms(8,9,17) by simp
  show "\<exists>c. dm_get (process_map e') \<lparr>pk_pid = pc_child_pid d, pk_start_time = ts\<rparr> = Some c \<and> is_untrusted c"
    if "agent_exec (w, Telemetry (create_event ts p d)) (e\<lparr>config_cell := new\<rparr>) = Some e'" for e'
    by (rule judged_untrusted [OF _ assms(5,4) _ _ that])
      (use assms(2,3,8,9,18) in \<open>simp_all add: engine_inv_def\<close>)
qed (rule mixed_creation [OF assms(1-16)])

definition strict_config :: config where
  "strict_config = quiet_config\<lparr>is_path_excluded := (\<lambda>_. True), script_interpreters := [''sh'']\<rparr>"

theorem rules_mixed_witness:
  "\<exists>q c. pool_runs unhindered any_input (idle_pool (sample_engine strict_config None (sample_process ''/bin/sh'' False))) q \<and>
     at_rest q \<and> dm_get (process_map (shared q)) \<lparr>pk_pid = 8, pk_start_time = 6\<rparr> = Some c \<and> \<not> is_untrusted c \<and>
     (\<forall>k path. YaraScan k path \<notin> set (tasks (shared q)))"
proof -
  let ?e = "sample_engine strict_config None (sample_process ''/bin/sh'' False)"
  let ?d = "create_details 8 7 ''/tmp/sh''"
  have p: "cstr (pc_child_image_path ?d) = ''/tmp/sh''" "cstr (pc_child_command_line ?d) = ''/tmp/sh''"
    "pc_child_pid ?d = 8" "pc_real_parent_pid ?d = 7"
    by (simp_all add: is_ascii_text_def)
  have "is_path_excluded strict_config ''/tmp/sh''" "\<not> is_anonymous_exec ''/tmp/sh''"
    "\<not> is_display_hijack quiet_env quiet_config 8 ''/tmp/sh''"
    "\<not> is_demoted_script quiet_env quiet_config 8 ''/tmp/sh'' ''/tmp/sh''"
    "create_untrusted quiet_env strict_config 8 ''/tmp/sh'' ''/tmp/sh''"
    "create_untrusted quiet_env quiet_config 8 ''/tmp/sh'' ''/tmp/sh''"
    by code_simp+
  moreover have "\<not> consumer_ended ?e" by (simp add: sample_engine_def new_engine_def)
  ultimately show ?thesis
    using rules_mixed [OF timed_sample engine_inv_sample [OF entry_ok_sample], of strict_config None
        "''/bin/sh''" False ?d quiet_env 6 7 "''/tmp/sh''" "''/tmp/sh''" quiet_config
        "quiet_env\<lparr>load_rules_db := Inr quiet_config\<rparr>" any_input]
    by (auto simp: p wf_create_details any_input_def env_ok_def quiet_env_def)
qed

end
