(* ===== verification/Schema.thy ===== *)
theory Schema
  imports Control
begin

section \<open>The types of the control socket's answers\<close>

text \<open>
  Every answer of the control socket is built inline in \<^verbatim>\<open>control.rs\<close>. Here is the schema
  a client may rely on, one type per request, and the proof that the answers have it.
\<close>

datatype json_type =
    TyBool
  | TyUnsigned nat
  | TyCount
  | TyString
  | TyArray json_type
  | TyObject "(string \<times> json_type) list"
  | TyMap json_type

inductive has_type :: "json \<Rightarrow> json_type \<Rightarrow> bool" where
  "has_type (JBool b) TyBool"
| "0 \<le> i \<Longrightarrow> i < 2 ^ n \<Longrightarrow> has_type (JInt i) (TyUnsigned n)"
| "0 \<le> i \<Longrightarrow> has_type (JInt i) TyCount"
| "has_type (JString s) TyString"
| "\<forall>j \<in> set js. has_type j t \<Longrightarrow> has_type (JArray js) (TyArray t)"
| "map fst kvs = map fst fts \<Longrightarrow> \<forall>i < length kvs. has_type (snd (kvs ! i)) (snd (fts ! i)) \<Longrightarrow>
     has_type (JObject kvs) (TyObject fts)"
| "\<forall>kv \<in> set kvs. has_type (snd kv) t \<Longrightarrow> has_type (JObject kvs) (TyMap t)"

inductive_simps has_type_simps [simp]:
  "has_type (JBool b) t" "has_type (JInt i) t" "has_type (JString s) t"

inductive_cases has_type_objectE: "has_type (JObject kvs) (TyObject fts)"

lemma has_type_fields:
  "list_all2 (\<lambda>kv ft. fst kv = fst ft \<and> has_type (snd kv) (snd ft)) kvs fts \<Longrightarrow>
     has_type (JObject kvs) (TyObject fts)"
  by (rule has_type.intros) (auto simp: list_all2_conv_all_nth intro: nth_equalityI)

subsection \<open>The schema\<close>

definition message_type :: json_type where
  "message_type = TyObject [(''message'', TyString)]"

definition process_type :: json_type where
  "process_type =
     TyObject [(''pid'', TyUnsigned 32), (''ppid'', TyUnsigned 32), (''exe'', TyString),
       (''cmdline'', TyString), (''category_flags'', TyUnsigned 32), (''contained'', TyBool),
       (''untrusted'', TyBool), (''naked_tty'', TyBool), (''env'', TyMap TyString)]"

fun answer_type :: "cli_request \<Rightarrow> json_type" where
  "answer_type Status =
     TyObject [(''running'', TyBool), (''daemon_version'', TyString), (''rules_version'', TyString),
       (''rules_timestamp'', TyUnsigned 64), (''active_processes'', TyCount), (''lsm_active'', TyBool)]"
| "answer_type ListProcesses = TyObject [(''processes'', TyArray process_type)]"
| "answer_type ListRules =
     TyObject [(''rules'', TyArray (TyObject [(''path'', TyString), (''category_flags'', TyUnsigned 32)]))]"
| "answer_type _ = message_type"

text \<open>The requests that can be answered with an error.\<close>

fun can_fail :: "cli_request \<Rightarrow> bool" where
  "can_fail Status = False"
| "can_fail ListProcesses = False"
| "can_fail ListRules = False"
| "can_fail Subscribe = False"
| "can_fail _ = True"

lemma message_typed [simp]: "has_type (message m) message_type"
  unfolding message_def message_type_def by (rule has_type_fields) simp

lemma uint_32_bound [simp]: "uint (x :: u32) < 4294967296"
  using uint_bounded [of x] by simp

lemma uint_64_bound [simp]: "uint (x :: u64) < 18446744073709551616"
  using uint_bounded [of x] by simp

lemma process_typed: "has_type (process_json w s) process_type"
  unfolding process_json_def process_type_def
  by (rule has_type_fields) (auto intro!: has_type.intros)

lemma reply_typed:
  "reply ok f r = (resp, e') \<Longrightarrow> can_fail req \<Longrightarrow> answer_type req = message_type \<Longrightarrow>
     (case resp of Success j \<Rightarrow> has_type j (answer_type req) | Error _ \<Rightarrow> can_fail req)"
  by (cases r) (auto simp: reply_def)

text \<open>C31. Whatever the state, and whatever the other threads do meanwhile, the answer to a request conforms to the schema: a successful one has the type
  of its request (fields, order, integer widths), and only reloading and the commands on a process
  can fail.\<close>

theorem answers_typed:
  assumes "serve_request meanwhile w req e = Some (resp, e')"
  shows "case resp of Success j \<Rightarrow> has_type j (answer_type req) | Error _ \<Rightarrow> can_fail req"
proof (cases req)
  case Status
  then show ?thesis
    using assms by (auto simp: status_report_def intro!: has_type_fields)
next
  case ListProcesses
  then show ?thesis
    using assms process_typed
    by (auto simp: list_processes_def intro!: has_type_fields has_type.intros(5))
next
  case ListRules
  then show ?thesis
    using assms by (auto simp: list_rules_def intro!: has_type_fields has_type.intros(5))
next
  case (AllowProcessTree pid)
  then show ?thesis
    using assms by (auto simp: allow_process_tree_def Let_def split: option.splits dest: reply_typed [of _ _ _ _ _ req])
next
  case (DenyProcessTree pid)
  then show ?thesis
    using assms by (auto simp: deny_process_tree_def Let_def split: option.splits dest: reply_typed [of _ _ _ _ _ req])
qed (use assms in \<open>auto dest: reply_typed [of _ _ _ _ _ req]\<close>)

theorem answers_typed_witness:
  "case fst (the (handle_request quiet_env Status (sample_engine quiet_config None (sample_process ''/bin/sh'' False)))) of
     Success j \<Rightarrow> has_type j (answer_type Status) | Error _ \<Rightarrow> can_fail Status"
proof -
  let ?e = "sample_engine quiet_config None (sample_process ''/bin/sh'' False)"
  have "handle_request quiet_env Status ?e = Some (Success (status_report quiet_env ?e), ?e)" by simp
  from answers_typed [OF this] show ?thesis by simp
qed

end
