(* ===== verification/Subscribe.thy ===== *)
theory Subscribe
  imports Runs
begin

section \<open>Subscriptions to the alert stream\<close>

text \<open>
  The \<^verbatim>\<open>Subscribe\<close> request of \<^verbatim>\<open>control.rs\<close>, one small step per call the
  connection awaits, beside an agent that goes on raising alerts: it subscribes, writes the confirmation,
  then receives and forwards one alert after the other until receiving or writing fails.

  The broadcast channel is Tokio's. Every alert the agent raises is sent to it, so its contents are read off
  \<open>alerts\<close>: a receiver is a position in that list, \<^verbatim>\<open>subscribe\<close> starts at its end, and
  \<^verbatim>\<open>recv\<close> behaves as documented (\<open>recv_alert\<close>): it waits at the end of the list, it
  reports a receiver that is behind by more than the capacity as lagged and moves it to the oldest alert
  kept, and otherwise it returns the next alert. The capacity \<open>cap\<close> is a parameter: the source asks for
  100, the channel may keep more. The serialisation \<open>ser\<close> of an alert and the serialised confirmation
  \<open>resp\<close> are parameters as well.
\<close>

datatype recv_result = Received alert | Lagged nat

abbreviation newline :: bytes where
  "newline \<equiv> [10]"

definition recv_alert :: "nat \<Rightarrow> alert list \<Rightarrow> nat \<Rightarrow> (recv_result \<times> nat) option" where
  "recv_alert cap sent_alerts next_at =
     (if length sent_alerts \<le> next_at then None
      else if cap < length sent_alerts - next_at
      then Some (Lagged (length sent_alerts - cap - next_at), length sent_alerts - cap)
      else Some (Received (sent_alerts ! next_at), Suc next_at))"

datatype sub_stage = Requested | Confirming "bytes list" | Receiving | Forwarding "bytes list" | Closed

record subscriber =
  sub_agent :: engine
  sub_stage :: sub_stage
  cursor :: nat
  delivered :: "bytes list"

text \<open>A step of the agent, or of the connection: \<open>Acts ok\<close>, with the outcome of its write if it makes one.
  Errors while the confirmation is written are ignored; afterwards they end the subscription, and so does a
  lagged receiver.\<close>

datatype sub_event = AgentActs "env \<times> input" | Acts bool

definition confirmation :: "bytes option \<Rightarrow> bytes list" where
  "confirmation resp = (case resp of None \<Rightarrow> [] | Some b \<Rightarrow> [b, newline])"

definition forward_alert :: "(alert \<Rightarrow> bytes option) \<Rightarrow> alert \<Rightarrow> sub_stage" where
  "forward_alert ser al = (case ser al of None \<Rightarrow> Receiving | Some b \<Rightarrow> Forwarding [b, newline])"

fun connection_step ::
  "(alert \<Rightarrow> bytes option) \<Rightarrow> bytes option \<Rightarrow> nat \<Rightarrow> bool \<Rightarrow> subscriber \<Rightarrow> sub_stage \<Rightarrow> subscriber option" where
  "connection_step ser resp cap ok c Requested =
     Some (c\<lparr>cursor := length (alerts (sub_agent c)), sub_stage := Confirming (confirmation resp)\<rparr>)"
| "connection_step ser resp cap ok c (Confirming []) = Some (c\<lparr>sub_stage := Receiving\<rparr>)"
| "connection_step ser resp cap ok c (Confirming (b # bs)) =
     Some (c\<lparr>sub_stage := Confirming bs, delivered := delivered c @ (if ok then [b] else [])\<rparr>)"
| "connection_step ser resp cap ok c Receiving =
     (case recv_alert cap (alerts (sub_agent c)) (cursor c) of
        None \<Rightarrow> None
      | Some (Received al, n) \<Rightarrow> Some (c\<lparr>cursor := n, sub_stage := forward_alert ser al\<rparr>)
      | Some (Lagged _, n) \<Rightarrow> Some (c\<lparr>cursor := n, sub_stage := Closed\<rparr>))"
| "connection_step ser resp cap ok c (Forwarding []) = Some (c\<lparr>sub_stage := Receiving\<rparr>)"
| "connection_step ser resp cap ok c (Forwarding (b # bs)) =
     Some (if ok then c\<lparr>sub_stage := Forwarding bs, delivered := delivered c @ [b]\<rparr>
       else c\<lparr>sub_stage := Closed\<rparr>)"
| "connection_step ser resp cap ok c Closed = None"

fun sub_step ::
  "(alert \<Rightarrow> bytes option) \<Rightarrow> bytes option \<Rightarrow> nat \<Rightarrow> sub_event \<Rightarrow> subscriber \<Rightarrow> subscriber option" where
  "sub_step ser resp cap (AgentActs i) c = map_option (\<lambda>e. c\<lparr>sub_agent := e\<rparr>) (agent_exec i (sub_agent c))"
| "sub_step ser resp cap (Acts ok) c = connection_step ser resp cap ok c (sub_stage c)"

fun sub_run ::
  "(alert \<Rightarrow> bytes option) \<Rightarrow> bytes option \<Rightarrow> nat \<Rightarrow> sub_event list \<Rightarrow> subscriber \<Rightarrow> subscriber option" where
  "sub_run ser resp cap [] c = Some c"
| "sub_run ser resp cap (ev # evs) c = Option.bind (sub_step ser resp cap ev c) (sub_run ser resp cap evs)"

text \<open>The connection that has read a \<^verbatim>\<open>Subscribe\<close> request.\<close>

definition subscribe_request :: "engine \<Rightarrow> subscriber" where
  "subscribe_request e = \<lparr>sub_agent = e, sub_stage = Requested, cursor = 0, delivered = []\<rparr>"

subsection \<open>What the peer has been sent\<close>

definition alert_lines :: "(alert \<Rightarrow> bytes option) \<Rightarrow> alert list \<Rightarrow> bytes list" where
  "alert_lines ser als = concat (map (\<lambda>b. [b, newline]) (List.map_filter ser als))"

lemma alert_lines_simps [simp]:
  "alert_lines ser [] = []"
  "alert_lines ser (al # als) =
     (case ser al of None \<Rightarrow> alert_lines ser als | Some b \<Rightarrow> b # newline # alert_lines ser als)"
  by (simp_all add: alert_lines_def split: option.split)

lemma alert_lines_append [simp]: "alert_lines ser (xs @ ys) = alert_lines ser xs @ alert_lines ser ys"
  by (induction xs) (simp_all split: option.split)

lemma forward_alert_lines:
  "forward_alert ser al = (if alert_lines ser [al] = [] then Receiving else Forwarding (alert_lines ser [al]))"
  by (simp add: forward_alert_def split: option.split)

text \<open>The alerts from the subscription, at \<open>b\<close>, up to position \<open>n\<close>.\<close>

definition since :: "nat \<Rightarrow> nat \<Rightarrow> engine \<Rightarrow> alert list" where
  "since b n e = drop b (take n (alerts e))"

lemma since_empty [simp]: "since b b e = []"
  by (simp add: since_def)

lemma since_next:
  "b \<le> n \<Longrightarrow> n < length (alerts e) \<Longrightarrow> since b (Suc n) e = since b n e @ [alerts e ! n]"
  by (simp add: since_def take_Suc_conv_app_nth)

lemma since_grow: "prefix (alerts e) (alerts f) \<Longrightarrow> n \<le> length (alerts e) \<Longrightarrow> since b n f = since b n e"
  by (auto simp: since_def prefix_def)

lemma since_prefix: "prefix (since b n e) (drop b (alerts e))"
  unfolding since_def drop_take by (rule take_is_prefix)

text \<open>The state of a subscription made when \<open>b\<close> alerts had been raised, as long as every write succeeds.\<close>

definition in_step :: "(alert \<Rightarrow> bytes option) \<Rightarrow> bytes list \<Rightarrow> nat \<Rightarrow> nat \<Rightarrow> subscriber \<Rightarrow> bool" where
  "in_step ser conf cap b c \<longleftrightarrow>
     b \<le> cursor c \<and> cursor c \<le> length (alerts (sub_agent c)) \<and>
     (case sub_stage c of
        Requested \<Rightarrow> False
      | Confirming bs \<Rightarrow> delivered c @ bs = conf \<and> cursor c = b
      | Receiving \<Rightarrow> delivered c = conf @ alert_lines ser (since b (cursor c) (sub_agent c))
      | Forwarding bs \<Rightarrow> delivered c @ bs = conf @ alert_lines ser (since b (cursor c) (sub_agent c))
      | Closed \<Rightarrow> \<exists>n \<ge> b. n + cap < length (alerts (sub_agent c)) \<and>
          delivered c = conf @ alert_lines ser (since b n (sub_agent c)))"

lemma in_step_agent:
  assumes "in_step ser conf cap b c" "prefix (alerts (sub_agent c)) (alerts e)"
  shows "in_step ser conf cap b (c\<lparr>sub_agent := e\<rparr>)"
proof -
  have len: "length (alerts (sub_agent c)) \<le> length (alerts e)" using assms(2) by (rule prefix_length_le)
  show ?thesis
  proof (cases "sub_stage c")
    case Closed
    then obtain n where n: "b \<le> n" "n + cap < length (alerts (sub_agent c))"
      "delivered c = conf @ alert_lines ser (since b n (sub_agent c))"
      using assms(1) by (auto simp: in_step_def)
    moreover have "since b n e = since b n (sub_agent c)" using since_grow [OF assms(2)] n(2) by simp
    ultimately show ?thesis using assms(1) Closed len by (auto simp: in_step_def)
  qed (use assms(1) since_grow [OF assms(2)] len in \<open>auto simp: in_step_def\<close>)
qed

lemma in_step_receives:
  assumes "in_step ser conf cap b c" "sub_stage c = Receiving" "connection_step ser resp cap ok c Receiving = Some c'"
  shows "in_step ser conf cap b c'"
proof -
  let ?als = "alerts (sub_agent c)"
  have c: "b \<le> cursor c" "cursor c < length ?als"
    "delivered c = conf @ alert_lines ser (since b (cursor c) (sub_agent c))"
    using assms by (auto simp: in_step_def recv_alert_def split: if_splits)
  show ?thesis
  proof (cases "cap < length ?als - cursor c")
    case True
    then have "\<exists>n \<ge> b. n + cap < length ?als \<and> delivered c = conf @ alert_lines ser (since b n (sub_agent c))"
      using c by (intro exI [of _ "cursor c"]) simp
    then show ?thesis using True assms(3) c by (auto simp: in_step_def recv_alert_def)
  next
    case False
    then have c': "c' = c\<lparr>cursor := Suc (cursor c), sub_stage := forward_alert ser (?als ! cursor c)\<rparr>"
      using assms(3) c(2) by (auto simp: recv_alert_def)
    have "alert_lines ser (since b (Suc (cursor c)) (sub_agent c)) =
        alert_lines ser (since b (cursor c) (sub_agent c)) @ alert_lines ser [?als ! cursor c]"
      using c(1,2) by (simp only: since_next alert_lines_append)
    then show ?thesis using c unfolding c' by (simp add: in_step_def forward_alert_lines)
  qed
qed

lemma in_step_step:
  assumes "in_step ser conf cap b c" "sub_step ser resp cap ev c = Some c'" "ev \<noteq> Acts False"
    and "\<And>i. ev = AgentActs i \<Longrightarrow> any_input i"
  shows "in_step ser conf cap b c'"
proof (cases ev)
  case (AgentActs i)
  then obtain e where e: "agent_exec i (sub_agent c) = Some e" "c' = c\<lparr>sub_agent := e\<rparr>"
    using assms(2) by auto
  have "prefix (alerts (sub_agent c)) (alerts e)"
    using agent.op_base [OF assms(4) [OF AgentActs] e(1)] by (simp add: base_ok_def effects_grow_def)
  then show ?thesis unfolding e(2) by (rule in_step_agent [OF assms(1)])
next
  case (Acts ok)
  then have r: "connection_step ser resp cap True c (sub_stage c) = Some c'" using assms(2,3) by simp
  show ?thesis
  proof (cases "sub_stage c")
    case Receiving
    then show ?thesis using in_step_receives [OF assms(1) Receiving] r by simp
  next
    case (Confirming bs)
    then show ?thesis using assms(1) r by (cases bs) (auto simp: in_step_def)
  next
    case (Forwarding bs)
    then show ?thesis using assms(1) r by (cases bs) (auto simp: in_step_def)
  qed (use assms(1) r in \<open>auto simp: in_step_def\<close>)
qed

lemma in_step_run:
  assumes "sub_run ser resp cap evs c0 = Some c" "in_step ser conf cap b c0" "Acts False \<notin> set evs"
    and "\<And>i. AgentActs i \<in> set evs \<Longrightarrow> any_input i"
  shows "in_step ser conf cap b c"
  using assms
proof (induction evs arbitrary: c0)
  case (Cons ev evs)
  then obtain c1 where c1: "sub_step ser resp cap ev c0 = Some c1" "sub_run ser resp cap evs c1 = Some c"
    by (auto simp: bind_eq_Some_conv)
  have "in_step ser conf cap b c1"
    using Cons.prems(2) c1(1) by (rule in_step_step) (use Cons.prems(3,4) in auto)
  then show ?case using Cons.IH [OF c1(2)] Cons.prems(3,4) by simp
qed simp

lemma sub_run_alerts:
  assumes "sub_run ser resp cap evs c0 = Some c" "\<And>i. AgentActs i \<in> set evs \<Longrightarrow> any_input i"
  shows "prefix (alerts (sub_agent c0)) (alerts (sub_agent c))"
  using assms
proof (induction evs arbitrary: c0)
  case (Cons ev evs)
  then obtain c1 where c1: "sub_step ser resp cap ev c0 = Some c1" "sub_run ser resp cap evs c1 = Some c"
    by (auto simp: bind_eq_Some_conv)
  have "prefix (alerts (sub_agent c0)) (alerts (sub_agent c1))"
  proof (cases ev)
    case (AgentActs i)
    then show ?thesis
      using c1(1) Cons.prems(2) agent.op_base [of i "sub_agent c0"] by (auto simp: base_ok_def effects_grow_def)
  next
    case (Acts ok)
    then have "sub_agent c1 = sub_agent c0"
      using c1(1) by (cases "(ser, resp, cap, ok, c0, sub_stage c0)" rule: connection_step.cases)
        (auto split: option.splits recv_result.splits if_splits)
    then show ?thesis by simp
  qed
  then show ?case using Cons.IH [OF c1(2)] Cons.prems(2) prefix_order.trans by fastforce
qed simp

text \<open>A peer that reads line by line gets back each serialisation, provided the JSON writer puts no
  newline byte inside a document.\<close>

lemma split_at_line: "\<forall>x \<in> set b. \<not> p x \<Longrightarrow> p sep \<Longrightarrow> split_at p (b @ sep # rest) = b # split_at p rest"
  by (induction b) simp_all

lemma subscription_lines_back:
  assumes "\<And>al b. ser al = Some b \<Longrightarrow> 10 \<notin> set b"
  shows "split_at (\<lambda>x. x = 10) (concat (alert_lines ser als)) = List.map_filter ser als @ [[]]"
proof (induction als)
  case (Cons al als)
  show ?case
  proof (cases "ser al")
    case (Some b)
    then have "\<forall>x \<in> set b. x \<noteq> 10" using assms by auto
    then show ?thesis using Some Cons.IH by (simp add: split_at_line)
  qed (use Cons.IH in simp)
qed simp

lemma alert_lines_prefix: "prefix xs ys \<Longrightarrow> prefix (alert_lines ser xs) (alert_lines ser ys)"
  by (auto simp: prefix_def)

text \<open>C32. A subscriber gets the alerts raised since its subscription, in order and each once, and the
  subscription begins before the confirmation is written: also what the agent raises while that is still
  under way. As long as no write fails, the peer has at every moment been sent the confirmation and then a
  beginning of those alerts, one line each; when the connection has caught up, all of them, which read line
  by line are the serialisations. Only a subscriber for which more alerts were raised than the channel keeps
  can be cut off.\<close>

theorem subscriber_sees_new_alerts:
  assumes "sub_step ser (Some resp) cap (Acts ok) (subscribe_request e) = Some c0"
    and "sub_run ser (Some resp) cap evs c0 = Some c" "Acts False \<notin> set evs"
    and "\<And>i. AgentActs i \<in> set evs \<Longrightarrow> any_input i"
    and "10 \<notin> set resp" "\<And>al b. ser al = Some b \<Longrightarrow> 10 \<notin> set b"
  shows "\<exists>new. alerts (sub_agent c) = alerts e @ new \<and>
    prefix (delivered c) (resp # newline # alert_lines ser new) \<and>
    (sub_stage c = Receiving \<and> cursor c = length (alerts (sub_agent c)) \<longrightarrow>
       split_at (\<lambda>x. x = 10) (concat (delivered c)) = resp # List.map_filter ser new @ [[]]) \<and>
    (sub_stage c = Closed \<longrightarrow> cap < length new)"
proof -
  let ?conf = "[resp, newline]" and ?b = "length (alerts e)"
  have c0: "sub_agent c0 = e" "in_step ser ?conf cap ?b c0"
    using assms(1) by (auto simp: subscribe_request_def in_step_def confirmation_def)
  have inv: "in_step ser ?conf cap ?b c" using in_step_run [OF assms(2) c0(2) assms(3,4)] .
  obtain new where new: "alerts (sub_agent c) = alerts e @ new"
    using sub_run_alerts [OF assms(2,4)] by (auto simp: c0(1) prefix_def)
  have part: "prefix (?conf @ alert_lines ser (since ?b n (sub_agent c))) (resp # newline # alert_lines ser new)" for n
    using alert_lines_prefix [OF since_prefix, of ser ?b n "sub_agent c"] by (simp add: new)
  have "prefix (delivered c) (resp # newline # alert_lines ser new)"
  proof (cases "sub_stage c")
    case (Confirming bs)
    then have "?conf = delivered c @ bs" using inv by (simp add: in_step_def)
    then have "prefix (delivered c) (?conf @ alert_lines ser new)" by (metis append.assoc prefixI)
    then show ?thesis by simp
  next
    case (Forwarding bs)
    then have "delivered c @ bs = ?conf @ alert_lines ser (since ?b (cursor c) (sub_agent c))"
      using inv by (simp add: in_step_def)
    then show ?thesis using part [of "cursor c"] by (metis append_prefixD)
  next
    case Closed
    then obtain n where "delivered c = ?conf @ alert_lines ser (since ?b n (sub_agent c))"
      using inv by (auto simp: in_step_def)
    then show ?thesis using part by simp
  qed (use inv part in \<open>simp_all add: in_step_def\<close>)
  moreover have "split_at (\<lambda>x. x = 10) (concat (delivered c)) = resp # List.map_filter ser new @ [[]]"
    if "sub_stage c = Receiving" "cursor c = length (alerts (sub_agent c))"
  proof -
    have "delivered c = resp # newline # alert_lines ser new"
      using inv that by (simp add: in_step_def since_def new)
    moreover have "\<forall>x \<in> set resp. x \<noteq> 10" using assms(5) by auto
    ultimately show ?thesis using subscription_lines_back [of ser new] assms(6) by (simp add: split_at_line)
  qed
  moreover have "cap < length new" if "sub_stage c = Closed"
    using inv that by (auto simp: in_step_def new)
  ultimately show ?thesis using new by blast
qed

definition sample_ser :: "alert \<Rightarrow> bytes option" where
  "sample_ser al = Some (filter (\<lambda>b. b \<noteq> 10) (map char_byte (al_category al)))"

text \<open>A process is killed, which raises an alert, before the confirmation has been written.\<close>

theorem subscriber_sees_new_alerts_witness:
  "\<exists>c0 c new. sub_step sample_ser (Some [65]) 100 (Acts True) (subscribe_request
       (sample_engine quiet_config None (sample_process ''/bin/sh'' False))) = Some c0 \<and>
    sub_run sample_ser (Some [65]) 100 (AgentActs (quiet_env, Request (KillProcessTree 7)) # replicate 7 (Acts True)) c0 =
      Some c \<and>
    alerts (sub_agent c) = new \<and> length new = 1 \<and>
    split_at (\<lambda>x. x = 10) (concat (delivered c)) = [65] # List.map_filter sample_ser new @ [[]]"
proof -
  let ?e = "sample_engine quiet_config None (sample_process ''/bin/sh'' False)"
  let ?c0 = "(subscribe_request ?e)\<lparr>sub_stage := Confirming (confirmation (Some [65]))\<rparr>"
  let ?evs = "AgentActs (quiet_env, Request (KillProcessTree 7)) # replicate 7 (Acts True)"
  obtain f where f: "kill_process_tree quiet_env 7 ?e = Some (Inr f)" "length (alerts f) = 1"
    by (simp add: kill_process_tree_def collect_no_entry alerts_write_alert engine_simps Let_def)
  then have step: "agent_exec (quiet_env, Request (KillProcessTree 7)) ?e = Some f"
    by (simp add: reply_def)
  have c0: "sub_step sample_ser (Some [65]) 100 (Acts True) (subscribe_request ?e) = Some ?c0"
    by (simp add: subscribe_request_def)
  have seven: "replicate 7 (Acts True) = [Acts True, Acts True, Acts True, Acts True, Acts True, Acts True, Acts True]"
    by (simp add: numeral_eq_Suc)
  obtain c where c: "sub_run sample_ser (Some [65]) 100 ?evs ?c0 = Some c"
    "sub_stage c = Receiving" "sub_agent c = f" "cursor c = 1"
    using f(2)
    by (simp add: seven step subscribe_request_def confirmation_def recv_alert_def forward_alert_def sample_ser_def
        del: agent_exec.simps)
  have "\<exists>new. alerts (sub_agent c) = alerts ?e @ new \<and> prefix (delivered c) ([65] # newline # alert_lines sample_ser new) \<and>
      (sub_stage c = Receiving \<and> cursor c = length (alerts (sub_agent c)) \<longrightarrow>
         split_at (\<lambda>x. x = 10) (concat (delivered c)) = [65] # List.map_filter sample_ser new @ [[]]) \<and>
      (sub_stage c = Closed \<longrightarrow> 100 < length new)"
    by (rule subscriber_sees_new_alerts [OF c0 c(1)]) (auto simp: any_input_def sample_ser_def)
  then show ?thesis using c0 c f(2) by auto
qed

end
