(* ===== verification/Sockets.thy ===== *)
theory Sockets
  imports Prelude
begin

section \<open>Opening the sockets\<close>

text \<open>
  The first half of the three \<^verbatim>\<open>start\<close> functions (\<^verbatim>\<open>ipc.rs\<close>,
  \<^verbatim>\<open>control.rs\<close>, \<^verbatim>\<open>tty_listener.rs\<close>) on Unix: remove what is at the path, create
  the parent directories, bind, restrict the mode; then their accept loops, and the named pipes of
  the Windows build. The file system is what \<^verbatim>\<open>lstat\<close> says of each literal path
  (\<open>nodes\<close>); \<open>denied\<close> lets the operating system refuse any operation, and \<open>umask\<close> is the mask
  new sockets are created with. Other processes do not change the files in between.
\<close>

subsection \<open>The file system as the code uses it\<close>

datatype node = Directory | RegularFile | SocketFile u32 | Symlink string

datatype os_op = Remove | MakeDir | Bind | SetMode

datatype os_error =
    PermissionDenied | NotFound | IsADirectory | NotADirectory | AddrInUse | InvalidInput

record os =
  nodes :: "string \<Rightarrow> node option"
  denied :: "os_op \<Rightarrow> string \<Rightarrow> bool"
  umask :: u32

text \<open>Following symbolic links; the kernel gives up after 40.\<close>

fun follow :: "nat \<Rightarrow> os \<Rightarrow> string \<Rightarrow> node option" where
  "follow fuel s p =
     (case nodes s p of
        Some (Symlink q) \<Rightarrow> (case fuel of 0 \<Rightarrow> None | Suc n \<Rightarrow> follow n s q)
      | r \<Rightarrow> r)"

declare follow.simps [simp del]

abbreviation max_links :: nat where
  "max_links \<equiv> 40"

definition path_exists :: "os \<Rightarrow> string \<Rightarrow> bool" where
  "path_exists s p \<longleftrightarrow> follow max_links s p \<noteq> None"

definition is_dir :: "os \<Rightarrow> string \<Rightarrow> bool" where
  "is_dir s p \<longleftrightarrow> follow max_links s p = Some Directory"

text \<open>\<^verbatim>\<open>Path::parent\<close> of a path without trailing slash: what precedes the last slash.\<close>

definition parent_dir :: "string \<Rightarrow> string option" where
  "parent_dir p =
     (let before = dropWhile (\<lambda>c. c \<noteq> CHR ''/'') (rev p) in
      if p = '''' \<or> p = ''/'' then None
      else if before = [] then Some ''''
      else if tl before = [] then Some ''/''
      else Some (rev (tl before)))"

text \<open>The path and all its proper ancestors below the root, outermost first.\<close>

fun ancestors_from :: "string \<Rightarrow> string \<Rightarrow> string list" where
  "ancestors_from done [] = (if done = '''' then [] else [done])"
| "ancestors_from done (c # cs) =
     (if c = CHR ''/'' \<and> done \<noteq> '''' then done # ancestors_from (done @ [c]) cs
      else ancestors_from (done @ [c]) cs)"

definition ancestors :: "string \<Rightarrow> string list" where
  "ancestors p = ancestors_from '''' p"

subsection \<open>The operations\<close>

text \<open>An operation returns the error, if any, and the file system it leaves.\<close>

type_synonym os_result = "os_error option \<times> os"

definition remove_file :: "string \<Rightarrow> os \<Rightarrow> os_result" where
  "remove_file p s =
     (if denied s Remove p then (Some PermissionDenied, s)
      else case nodes s p of
             None \<Rightarrow> (Some NotFound, s)
           | Some Directory \<Rightarrow> (Some IsADirectory, s)
           | Some _ \<Rightarrow> (None, s\<lparr>nodes := (nodes s)(p := None)\<rparr>))"

fun make_dirs :: "string list \<Rightarrow> os \<Rightarrow> os_result" where
  "make_dirs [] s = (None, s)"
| "make_dirs (d # ds) s =
     (if is_dir s d then make_dirs ds s
      else if nodes s d \<noteq> None then (Some NotADirectory, s)
      else if denied s MakeDir d then (Some PermissionDenied, s)
      else make_dirs ds (s\<lparr>nodes := (nodes s)(d := Some Directory)\<rparr>))"

definition create_dir_all :: "string \<Rightarrow> os \<Rightarrow> os_result" where
  "create_dir_all p s = (if p = '''' \<or> is_dir s p then (None, s) else make_dirs (ancestors p) s)"

text \<open>\<^verbatim>\<open>UnixListener::bind\<close>: the address must be free (a symbolic link occupies it, whatever
  it points to) and shorter than 108 bytes.\<close>

definition bind_listener :: "string \<Rightarrow> os \<Rightarrow> os_result" where
  "bind_listener p s =
     (if 108 \<le> length p then (Some InvalidInput, s)
      else if denied s Bind p then (Some PermissionDenied, s)
      else if nodes s p \<noteq> None then (Some AddrInUse, s)
      else (None, s\<lparr>nodes := (nodes s)(p := Some (SocketFile (0x1FF AND NOT (umask s))))\<rparr>))"

definition set_permissions :: "u32 \<Rightarrow> string \<Rightarrow> os \<Rightarrow> os_result" where
  "set_permissions mode p s =
     (if denied s SetMode p then (Some PermissionDenied, s)
      else case nodes s p of
             Some (SocketFile _) \<Rightarrow> (None, s\<lparr>nodes := (nodes s)(p := Some (SocketFile mode))\<rparr>)
           | Some _ \<Rightarrow> (None, s)
           | None \<Rightarrow> (Some NotFound, s))"

text \<open>The mode of a new socket is 0777 (0x1FF) less the mask; \<open>set_permissions\<close> is
  \<^verbatim>\<open>metadata\<close> and \<^verbatim>\<open>set_permissions\<close> with the mode replaced.\<close>

text \<open>The question mark operator: an error returns at once.\<close>

definition and_then :: "os_result \<Rightarrow> (os \<Rightarrow> os_result) \<Rightarrow> os_result" where
  "and_then r f = (case r of (Some err, s) \<Rightarrow> (Some err, s) | (None, s) \<Rightarrow> f s)"

lemma and_then_simps [simp]:
  "and_then (Some err, s) f = (Some err, s)" "and_then (None, s) f = f s"
  by (simp_all add: and_then_def)

text \<open>The common head of the three \<^verbatim>\<open>start\<close> functions. The modes are 0660 (0x1B0) for
  the telemetry and the TTY socket and 0600 (0x180) for the control socket.\<close>

definition open_socket :: "u32 \<Rightarrow> string \<Rightarrow> os \<Rightarrow> os_result" where
  "open_socket mode p s =
     and_then (if path_exists s p then remove_file p s else (None, s)) (\<lambda>s1.
     and_then (case parent_dir p of None \<Rightarrow> (None, s1) | Some d \<Rightarrow> create_dir_all d s1) (\<lambda>s2.
     and_then (bind_listener p s2) (\<lambda>s3.
     set_permissions mode p s3)))"

definition ipc_start :: "string \<Rightarrow> os \<Rightarrow> os_result" where
  "ipc_start = open_socket 0x1B0"

definition control_start :: "string \<Rightarrow> os \<Rightarrow> os_result" where
  "control_start = open_socket 0x180"

definition tty_start :: "string \<Rightarrow> os \<Rightarrow> os_result" where
  "tty_start = open_socket 0x1B0"

text \<open>The accept loops never end: every accepted connection gets a task of its own, a failed accept
  is reported and the loop goes on. On the list of results of \<^verbatim>\<open>accept\<close> so far: the
  connections being served.\<close>

fun accept_loop :: "(os_error + 's) list \<Rightarrow> 's list" where
  "accept_loop [] = []"
| "accept_loop (Inr conn # rest) = conn # accept_loop rest"
| "accept_loop (Inl _ # rest) = accept_loop rest"

subsection \<open>Named pipes\<close>

text \<open>Windows: the telemetry server takes its path when it names a pipe, else a fixed name. One turn
  of the loop creates an instance of the pipe (asking to be its first instance until one was created)
  and waits for a client; a failed creation sleeps and retries.\<close>

definition pipe_prefix :: string where
  "pipe_prefix = [CHR 0x5C, CHR 0x5C, CHR ''.'', CHR 0x5C] @ ''pipe'' @ [CHR 0x5C]"

definition ipc_pipe_name :: "string \<Rightarrow> string" where
  "ipc_pipe_name socket_path =
     (if starts_with socket_path pipe_prefix then socket_path else pipe_prefix @ ''kinnector-ipc'')"

definition control_pipe_name :: string where
  "control_pipe_name = pipe_prefix @ ''kinnector-control''"

text \<open>One turn's results: the creation failed, the wait for a client failed, or a client came.\<close>

datatype 's pipe_turn = CreateFailed | ConnectFailed | Connected 's

text \<open>The flags passed to \<^verbatim>\<open>first_pipe_instance\<close>, turn by turn, and the clients served.\<close>

fun pipe_loop :: "bool \<Rightarrow> 's pipe_turn list \<Rightarrow> bool list \<times> 's list" where
  "pipe_loop first [] = ([], [])"
| "pipe_loop first (t # ts) =
     (let (flags, conns) = pipe_loop (case t of CreateFailed \<Rightarrow> first | _ \<Rightarrow> False) ts
      in (first # flags, (case t of Connected c \<Rightarrow> c # conns | _ \<Rightarrow> conns)))"

text \<open>The two servers on Windows: the name of the pipe, the flags of its creations, the clients. The
  control server ignores the path it was given.\<close>

definition ipc_start_windows :: "string \<Rightarrow> 's pipe_turn list \<Rightarrow> string \<times> bool list \<times> 's list" where
  "ipc_start_windows socket_path turns = (ipc_pipe_name socket_path, pipe_loop True turns)"

definition control_start_windows :: "string \<Rightarrow> 's pipe_turn list \<Rightarrow> string \<times> bool list \<times> 's list" where
  "control_start_windows socket_path turns = (control_pipe_name, pipe_loop True turns)"

subsection \<open>Facts\<close>

lemma ancestors_from_shorter: "a \<in> set (ancestors_from d cs) \<Longrightarrow> length a \<le> length d + length cs"
  by (induction d cs rule: ancestors_from.induct) (auto split: if_splits)

lemma ancestors_shorter: "a \<in> set (ancestors p) \<Longrightarrow> length a \<le> length p"
  using ancestors_from_shorter [of a "''''" p] by (simp add: ancestors_def)

lemma parent_dir_shorter: "parent_dir p = Some d \<Longrightarrow> length d < length p"
proof -
  assume p: "parent_dir p = Some d"
  let ?b = "dropWhile (\<lambda>c. c \<noteq> CHR ''/'') (rev p)"
  have "length ?b \<le> length p" using length_dropWhile_le [of _ "rev p"] by simp
  moreover have "p \<noteq> '''' \<and> p \<noteq> ''/'' \<and> (d = '''' \<or> d = ''/'' \<and> tl ?b = [] \<and> ?b \<noteq> [] \<or> d = rev (tl ?b) \<and> ?b \<noteq> [])"
    using p by (auto simp: parent_dir_def Let_def split: if_splits)
  moreover have "length p \<noteq> 1" if "?b \<noteq> []" "p \<noteq> ''/''"
    using that by (cases p) (auto split: if_splits)
  ultimately show ?thesis
    by (cases ?b; cases "length p") auto
qed

lemma is_dir_node: "nodes s a = Some Directory \<Longrightarrow> is_dir s a"
  by (simp add: is_dir_def follow.simps)

text \<open>A chain of directories of which an initial part exists is completed.\<close>

definition with_dirs :: "string list \<Rightarrow> os \<Rightarrow> os" where
  "with_dirs ds s = s\<lparr>nodes := (\<lambda>q. if q \<in> set ds then Some Directory else nodes s q)\<rparr>"

lemma make_dirs_missing:
  assumes "\<forall>a \<in> set ds. nodes s a = None \<or> nodes s a = Some Directory" "\<forall>q. \<not> denied s MakeDir q"
  shows "make_dirs ds s = (None, with_dirs ds s)"
  using assms
proof (induction ds arbitrary: s)
  case Nil
  then show ?case by (simp add: with_dirs_def)
next
  case (Cons d ds)
  show ?case
  proof (cases "nodes s d")
    case None
    let ?s = "s\<lparr>nodes := (nodes s)(d := Some Directory)\<rparr>"
    have "make_dirs ds ?s = (None, with_dirs ds ?s)" by (rule Cons.IH) (use Cons.prems in auto)
    moreover have "with_dirs ds ?s = with_dirs (d # ds) s" by (auto simp: with_dirs_def fun_eq_iff)
    moreover have "\<not> is_dir s d" using None by (simp add: is_dir_def follow.simps)
    ultimately show ?thesis using None Cons.prems(2) by simp
  next
    case (Some n)
    then have d: "nodes s d = Some Directory" using Cons.prems(1) by simp
    have "with_dirs (d # ds) s = with_dirs ds s" using d by (auto simp: with_dirs_def fun_eq_iff)
    then show ?thesis using Cons.IH [of s] Cons.prems by (simp add: is_dir_node [OF d])
  qed
qed

lemma make_dirs_append:
  "\<forall>a \<in> set there. is_dir s a \<Longrightarrow> make_dirs (there @ ds) s = make_dirs ds s"
  by (induction there) simp_all

lemma create_dir_all_chain:
  assumes "ancestors d = there @ missing" "\<forall>a \<in> set there. is_dir s a"
    and "\<forall>a \<in> set missing. nodes s a = None" "\<forall>q. \<not> denied s MakeDir q" "d \<noteq> ''''"
  shows "create_dir_all d s = (None, with_dirs missing s) \<or>
    is_dir s d \<and> create_dir_all d s = (None, s)"
proof (cases "is_dir s d")
  case False
  have "make_dirs (ancestors d) s = (None, with_dirs missing s)"
    unfolding assms(1) make_dirs_append [OF assms(2)]
    by (rule make_dirs_missing) (use assms(3,4) in simp_all)
  then show ?thesis using False assms(5) by (simp add: create_dir_all_def)
qed (simp add: create_dir_all_def)

lemma ancestors_last: "d \<noteq> '''' \<Longrightarrow> last (ancestors d) = d \<and> ancestors d \<noteq> []"
proof -
  have "x @ cs \<noteq> '''' \<Longrightarrow> last (ancestors_from x cs) = x @ cs \<and> ancestors_from x cs \<noteq> []" for x cs
    by (induction x cs rule: ancestors_from.induct) auto
  from this [of "''''" d] show "d \<noteq> '''' \<Longrightarrow> ?thesis" by (simp add: ancestors_def)
qed

text \<open>A symbolic link that leads nowhere: not seen by \<^verbatim>\<open>exists\<close>, but in the way of
  \<^verbatim>\<open>bind\<close>.\<close>

definition dangling :: "os \<Rightarrow> string \<Rightarrow> bool" where
  "dangling s p \<longleftrightarrow> nodes s p \<noteq> None \<and> \<not> path_exists s p"

definition unlinked :: "string \<Rightarrow> os \<Rightarrow> os" where
  "unlinked p s = s\<lparr>nodes := (nodes s)(p := None)\<rparr>"

lemma parent_chain:
  assumes "parent_dir p = Some d" "d \<noteq> ''''" "ancestors d = there @ missing"
    and "\<forall>a \<in> set there. is_dir s a" "\<forall>a \<in> set missing. nodes s a = None"
    and "\<forall>op q. \<not> denied s op q"
  shows "create_dir_all d s = (None, with_dirs missing s) \<and> p \<notin> set missing"
proof
  have "d = last (there @ missing)" using ancestors_last [OF assms(2)] assms(3) by simp
  then have "is_dir s d \<Longrightarrow> missing = []"
    using assms(5) ancestors_last [OF assms(2)] assms(3)
    by (cases missing rule: rev_cases) (auto simp: is_dir_def follow.simps)
  then show "create_dir_all d s = (None, with_dirs missing s)"
    using create_dir_all_chain [OF assms(3-5) _ assms(2)] assms(6)
    by (auto simp: with_dirs_def)
  show "p \<notin> set missing"
    using parent_dir_shorter [OF assms(1)] ancestors_shorter [of p d] assms(3) by auto
qed

lemma open_socket_result:
  assumes "\<forall>op q. \<not> denied s op q" "length p < 108"
    and "parent_dir p = Some d" "d \<noteq> ''''" "ancestors d = there @ missing"
    and "\<forall>a \<in> set there. is_dir s a \<and> is_dir (unlinked p s) a" "\<forall>a \<in> set missing. nodes s a = None"
  shows "open_socket mode p s =
    (if nodes s p = Some Directory then (Some IsADirectory, s)
     else if dangling s p then (Some AddrInUse, with_dirs missing s)
     else (None, with_dirs missing s\<lparr>nodes := (nodes (with_dirs missing s))(p := Some (SocketFile mode))\<rparr>))"
proof -
  have p: "p \<notin> set missing"
    using parent_dir_shorter [OF assms(3)] ancestors_shorter [of p d] assms(5) by auto
  have dirs: "create_dir_all d s1 = (None, with_dirs missing s1)" if "s1 = s \<or> s1 = unlinked p s" for s1
  proof -
    have "\<forall>a \<in> set missing. nodes s1 a = None" using that assms(7) by (auto simp: unlinked_def)
    moreover have "\<forall>a \<in> set there. is_dir s1 a" using that assms(6) by auto
    moreover have "\<forall>op q. \<not> denied s1 op q" using that assms(1) by (auto simp: unlinked_def)
    ultimately show ?thesis using parent_chain [OF assms(3-5)] by blast
  qed
  have rest: "and_then (bind_listener p (with_dirs missing s1)) (set_permissions mode p) =
      (None, with_dirs missing s\<lparr>nodes := (nodes (with_dirs missing s))(p := Some (SocketFile mode))\<rparr>)"
    if "s1 = s \<and> nodes s p = None \<or> s1 = unlinked p s" for s1
    using that assms(1,2) p
    by (auto simp: bind_listener_def set_permissions_def with_dirs_def unlinked_def fun_eq_iff)
  show ?thesis
  proof (cases "path_exists s p")
    case True
    then obtain n where n: "nodes s p = Some n"
      by (cases "nodes s p") (simp_all add: path_exists_def follow.simps)
    have "remove_file p s = (if n = Directory then (Some IsADirectory, s) else (None, unlinked p s))"
      using n assms(1) by (cases n) (simp_all add: remove_file_def unlinked_def)
    then show ?thesis
      using True n dirs [of "unlinked p s"] rest [of "unlinked p s"] assms(3)
      by (simp add: open_socket_def dangling_def)
  next
    case False
    then have "nodes s p \<noteq> Some Directory" by (auto simp: path_exists_def follow.simps)
    moreover have "bind_listener p (with_dirs missing s) = (Some AddrInUse, with_dirs missing s)"
      if "nodes s p \<noteq> None"
      using that assms(1,2) p by (simp add: bind_listener_def with_dirs_def)
    ultimately show ?thesis
      using False dirs [of s] rest [of s] assms(3) by (auto simp: open_socket_def dangling_def)
  qed
qed

text \<open>Opening a socket when nothing is refused and the existing ancestors of its directory are
  directories: a directory at the path is an error, and so is a dangling symbolic link, which the
  removal step does not see and \<^verbatim>\<open>bind\<close> trips over; anything else at the path, such as
  the socket of an earlier run, is replaced, the missing directories are created, and the
  socket ends with exactly the given mode; no other path changes.\<close>

theorem open_socket_exact:
  assumes "\<forall>op q. \<not> denied s op q" "length p < 108"
    and "parent_dir p = Some d" "d \<noteq> ''''" "ancestors d = there @ missing"
    and "\<forall>a \<in> set there. is_dir s a \<and> is_dir (unlinked p s) a" "\<forall>a \<in> set missing. nodes s a = None"
  shows "open_socket mode p s =
    (if nodes s p = Some Directory then (Some IsADirectory, s)
     else if dangling s p then (Some AddrInUse, with_dirs missing s)
     else (None, with_dirs missing s\<lparr>nodes := (nodes (with_dirs missing s))(p := Some (SocketFile mode))\<rparr>))"
  using assms by (rule open_socket_result)

text \<open>The control socket's path on a system with a stale socket of an earlier run, reached through the
  usual link from \<^verbatim>\<open>/var/run\<close>.\<close>

definition sample_os :: os where
  "sample_os = \<lparr>nodes = [''/var'' \<mapsto> Directory, ''/run'' \<mapsto> Directory, ''/var/run'' \<mapsto> Symlink ''/run'',
       ''/var/run/kinnector'' \<mapsto> Directory, ''/var/run/kinnector/control.sock'' \<mapsto> SocketFile 0x1FF],
     denied = (\<lambda>_ _. False), umask = 0x12\<rparr>"

theorem open_socket_exact_witness:
  "fst (open_socket 0x180 ''/var/run/kinnector/control.sock'' sample_os) = None \<and>
   nodes (snd (open_socket 0x180 ''/var/run/kinnector/control.sock'' sample_os))
     ''/var/run/kinnector/control.sock'' = Some (SocketFile 0x180)"
proof -
  have "\<forall>a \<in> set [''/var'', ''/var/run'', ''/var/run/kinnector'']. is_dir sample_os a \<and>
      is_dir (unlinked ''/var/run/kinnector/control.sock'' sample_os) a"
    by (simp add: is_dir_def follow.simps sample_os_def unlinked_def eval_nat_numeral)
  then have "open_socket 0x180 ''/var/run/kinnector/control.sock'' sample_os =
      (None, with_dirs [] sample_os\<lparr>nodes := (nodes (with_dirs [] sample_os))
        (''/var/run/kinnector/control.sock'' := Some (SocketFile 0x180))\<rparr>)"
    by (subst open_socket_exact [where d = "''/var/run/kinnector''" and missing = "[]"
          and there = "[''/var'', ''/var/run'', ''/var/run/kinnector'']"])
      (simp_all add: sample_os_def parent_dir_def ancestors_def dangling_def path_exists_def follow.simps)
  then show ?thesis by simp
qed

text \<open>Between \<^verbatim>\<open>bind\<close> and \<^verbatim>\<open>set_permissions\<close> the socket has the mode
  the mask leaves: with an empty mask everyone may connect to it.\<close>

lemma bound_mode:
  "bind_listener p s = (None, s') \<Longrightarrow> nodes s' p = Some (SocketFile (0x1FF AND NOT (umask s)))"
  by (auto simp: bind_listener_def split: if_splits)

text \<open>The pipe server asks for the first instance exactly until one was created, and serves every
  client that connects.\<close>

theorem pipe_loop_first:
  "fst (pipe_loop True ts) = map (\<lambda>n. \<forall>t \<in> set (take n ts). t = CreateFailed) [0..<length ts] \<and>
   snd (pipe_loop b ts) = [c. Connected c \<leftarrow> ts]"
proof
  have later: "fst (pipe_loop False us) = replicate (length us) False" for us :: "'a pipe_turn list"
    by (induction us) (auto simp: Let_def case_prod_beta split: pipe_turn.splits)
  show "fst (pipe_loop True ts) = map (\<lambda>n. \<forall>t \<in> set (take n ts). t = CreateFailed) [0..<length ts]"
  proof (induction ts)
    case (Cons t ts)
    then show ?case
      by (cases t) (simp_all add: case_prod_beta later upt_rec [of 0] map_Suc_upt [symmetric]
        comp_def map_replicate_const del: upt_Suc)
  qed simp
  show "snd (pipe_loop b ts) = [c. Connected c \<leftarrow> ts]"
    by (induction ts arbitrary: b) (auto simp: Let_def case_prod_beta split: pipe_turn.splits)
qed

end
