(* ===== verification/Startup.thy ===== *)
theory Startup
  imports Runs Sockets
begin

section \<open>Start-up and shutdown of the daemon\<close>

text \<open>
  What \<^verbatim>\<open>run_agent\<close> of \<^verbatim>\<open>lib.rs\<close> does around the engine: the fixed paths and
  the token, the choice of the sensor's object file, the three servers (two of them background tasks
  whose failure is only reported), and the Ctrl-C handler. \<open>Agent.run_agent\<close> is the part before the
  servers start.
\<close>

subsection \<open>Constants\<close>

definition telemetry_socket_path :: string where
  "telemetry_socket_path = ''/var/run/kinnector/telemetry.sock''"

definition control_socket_path :: string where
  "control_socket_path = ''/var/run/kinnector/control.sock''"

definition tty_socket_path :: string where
  "tty_socket_path = ''/var/run/kinnector/tty_telemetry.sock''"

definition auth_token :: string where
  "auth_token = ''super-secret-agent-token-12345''"

definition telemetry_pipe_windows :: string where
  "telemetry_pipe_windows = pipe_prefix @ ''kinnector-telemetry''"

text \<open>The packaged object file if it exists, else a path of the developer's workspace.\<close>

definition bpf_path :: "os \<Rightarrow> string" where
  "bpf_path s =
     (if path_exists s ''/usr/lib/kinnector/kinnector.bpf.o'' then ''/usr/lib/kinnector/kinnector.bpf.o''
      else ''/home/user/Documents/kinnector/core/build/kinnector.bpf.o'')"

text \<open>The arguments of \<^verbatim>\<open>initialize_telemetry_engine\<close>; \<^verbatim>\<open>CString::new\<close>
  fails on a zero character.\<close>

definition c_string :: "string \<Rightarrow> string option" where
  "c_string s = (if CHR 0x00 \<in> set s then None else Some s)"

definition init_arguments :: "os \<Rightarrow> (string \<times> string \<times> string) option" where
  "init_arguments s =
     Option.bind (c_string (bpf_path s)) (\<lambda>b.
     Option.bind (c_string telemetry_socket_path) (\<lambda>p.
     Option.bind (c_string auth_token) (\<lambda>t. Some (b, p, t))))"

lemma init_arguments_valid: "init_arguments s = Some (bpf_path s, telemetry_socket_path, auth_token)"
  by (simp add: init_arguments_def c_string_def bpf_path_def telemetry_socket_path_def auth_token_def)

subsection \<open>The servers\<close>

datatype server = ControlSocket | TtySocket | TelemetrySocket

fun server_path :: "server \<Rightarrow> string" where
  "server_path ControlSocket = control_socket_path"
| "server_path TtySocket = tty_socket_path"
| "server_path TelemetrySocket = telemetry_socket_path"

fun start_server :: "server \<Rightarrow> os \<Rightarrow> os_result" where
  "start_server ControlSocket = control_start control_socket_path"
| "start_server TtySocket = tty_start tty_socket_path"
| "start_server TelemetrySocket = ipc_start telemetry_socket_path"

text \<open>The servers start concurrently; each opening is taken as one step, in any order. The result
  lists the errors.\<close>

fun start_servers :: "server list \<Rightarrow> os \<Rightarrow> (server \<times> os_error) list \<times> os" where
  "start_servers [] s = ([], s)"
| "start_servers (sv # svs) s =
     (let (err, s1) = start_server sv s; (errs, s2) = start_servers svs s1
      in ((case err of None \<Rightarrow> errs | Some x \<Rightarrow> (sv, x) # errs), s2))"

text \<open>Only the telemetry server runs in the main task: its error ends the agent.\<close>

definition agent_ends :: "(server \<times> os_error) list \<Rightarrow> os_error option" where
  "agent_ends errs = map_of errs TelemetrySocket"

text \<open>\<^verbatim>\<open>main\<close> passes the result on: an error ends the process with status 1. \<^term>\<open>None\<close>: it keeps
  running.\<close>

definition main_status :: "startup_env \<Rightarrow> (server \<times> os_error) list \<Rightarrow> nat option" where
  "main_status s errs =
     (case run_agent s of
        Inl _ \<Rightarrow> Some 1
      | Inr _ \<Rightarrow> (case agent_ends errs of None \<Rightarrow> None | Some _ \<Rightarrow> Some 1))"

subsection \<open>Shutdown\<close>

text \<open>Ctrl-C stops the telemetry engine and exits with status 0.\<close>

definition on_ctrl_c :: "engine \<Rightarrow> engine \<times> nat" where
  "on_ctrl_c e = (e\<lparr>ffi_log := ffi_log e @ [StopTelemetryEngine]\<rparr>, 0)"

subsection \<open>Starting on an ordinary system\<close>

text \<open>The run directory, itself or through the usual link, a directory of the agent that may be missing,
  and at each socket's path nothing, a file or the socket of an earlier run.\<close>

definition run_dir_ok :: "os \<Rightarrow> bool" where
  "run_dir_ok s \<longleftrightarrow>
     (\<forall>op q. \<not> denied s op q) \<and>
     nodes s ''/var'' = Some Directory \<and> nodes s ''/run'' = Some Directory \<and>
     nodes s ''/var/run'' \<in> {Some Directory, Some (Symlink ''/run'')} \<and>
     nodes s ''/var/run/kinnector'' \<in> {None, Some Directory} \<and>
     (\<forall>sv. case nodes s (server_path sv) of Some Directory \<Rightarrow> False | Some (Symlink _) \<Rightarrow> False | _ \<Rightarrow> True)"

fun server_mode :: "server \<Rightarrow> u32" where
  "server_mode ControlSocket = 0x180"
| "server_mode _ = 0x1B0"

lemma start_server_eq: "start_server sv = open_socket (server_mode sv) (server_path sv)"
  by (cases sv) (simp_all add: control_start_def tty_start_def ipc_start_def)

lemmas server_paths = control_socket_path_def tty_socket_path_def telemetry_socket_path_def

lemma server_path_facts:
  "length (server_path sv) < 108" "parent_dir (server_path sv) = Some ''/var/run/kinnector''"
  "server_path sv \<noteq> ''/var''" "server_path sv \<noteq> ''/run''" "server_path sv \<noteq> ''/var/run''"
  "server_path sv \<noteq> ''/var/run/kinnector''"
  by (cases sv; simp add: server_paths parent_dir_def)+

lemma run_ancestors: "ancestors ''/var/run/kinnector'' = [''/var'', ''/var/run'', ''/var/run/kinnector'']"
  by (simp add: ancestors_def)

lemma run_dirs:
  assumes "run_dir_ok s"
  shows "is_dir s ''/var'' \<and> is_dir s ''/var/run''"
    "nodes s ''/var/run/kinnector'' = Some Directory \<Longrightarrow> is_dir s ''/var/run/kinnector''"
  using assms by (auto simp: run_dir_ok_def is_dir_def follow.simps eval_nat_numeral)

lemma run_dir_ok_unlinked: "run_dir_ok s \<Longrightarrow> run_dir_ok (unlinked (server_path sv) s)"
  using server_path_facts(3-6) [of sv] by (auto simp: run_dir_ok_def unlinked_def)

lemma start_server_ok:
  assumes "run_dir_ok s"
  shows "\<exists>s'. start_server sv s = (None, s') \<and> run_dir_ok s' \<and>
    nodes s' (server_path sv) = Some (SocketFile (server_mode sv)) \<and>
    (\<forall>sv'. sv' \<noteq> sv \<longrightarrow> nodes s' (server_path sv') = nodes s (server_path sv'))"
proof -
  let ?p = "server_path sv"
  let ?k = "''/var/run/kinnector''"
  let ?missing = "if nodes s ?k = None then [?k] else []"
  let ?there = "if nodes s ?k = None then [''/var'', ''/var/run''] else [''/var'', ''/var/run'', ?k]"
  let ?s = "with_dirs ?missing s\<lparr>nodes := (nodes (with_dirs ?missing s))(?p := Some (SocketFile (server_mode sv)))\<rparr>"
  have k: "nodes s ?k = None \<or> nodes s ?k = Some Directory" using assms by (simp add: run_dir_ok_def)
  have dirs: "\<forall>a \<in> set ?there. is_dir s a \<and> is_dir (unlinked ?p s) a"
    using run_dirs [OF assms] run_dirs [OF run_dir_ok_unlinked [OF assms, of sv]] k server_path_facts(6) [of sv]
    by (auto simp: unlinked_def)
  have "nodes s ?p \<noteq> Some Directory" "\<not> dangling s ?p"
    using assms by (auto simp: run_dir_ok_def dangling_def path_exists_def follow.simps split: option.splits node.splits
        dest!: spec [of _ sv])
  then have "start_server sv s = (None, ?s)"
    unfolding start_server_eq
    by (subst open_socket_result [where d = ?k and there = ?there and missing = ?missing])
      (use assms dirs server_path_facts(1,2) run_ancestors in \<open>auto simp: run_dir_ok_def\<close>)
  moreover have "server_path sv' = ?p \<longleftrightarrow> sv' = sv" for sv'
    by (cases sv; cases sv'; simp add: server_paths)
  moreover have "run_dir_ok ?s"
    using assms server_path_facts(3-6) [of sv] calculation(2)
    by (auto simp: run_dir_ok_def with_dirs_def server_path_facts(6) server_path_facts(6) [symmetric])
  ultimately show ?thesis by (auto simp: with_dirs_def server_path_facts(6))
qed

text \<open>C33. On an ordinary system every server starts, in whatever order and however often, over the sockets of
  earlier runs as well as on a fresh system: there is no error, and the started sockets end with the modes
  the code sets, 0600 for the control socket and 0660, open to the group, for telemetry and TTY. For
  the telemetry socket that is not what the README promises (0600, owned by root).\<close>

theorem servers_start:
  assumes "run_dir_ok s"
  shows "fst (start_servers svs s) = [] \<and> run_dir_ok (snd (start_servers svs s)) \<and>
    (\<forall>sv \<in> set svs. nodes (snd (start_servers svs s)) (server_path sv) = Some (SocketFile (server_mode sv)))"
proof -
  have "fst (start_servers svs s) = [] \<and> run_dir_ok (snd (start_servers svs s)) \<and>
    (\<forall>sv. nodes (snd (start_servers svs s)) (server_path sv) =
       (if sv \<in> set svs then Some (SocketFile (server_mode sv)) else nodes s (server_path sv)))"
    using assms
  proof (induction svs arbitrary: s)
    case (Cons sv svs)
    obtain s' where s': "start_server sv s = (None, s')" "run_dir_ok s'"
      "nodes s' (server_path sv) = Some (SocketFile (server_mode sv))"
      "\<forall>sv'. sv' \<noteq> sv \<longrightarrow> nodes s' (server_path sv') = nodes s (server_path sv')"
      using start_server_ok [OF Cons.prems] by blast
    from Cons.IH [OF s'(2)] s' show ?case by (auto simp: case_prod_beta)
  qed simp
  then show ?thesis by simp
qed

definition fresh_os :: os where
  "fresh_os = \<lparr>nodes = [''/var'' \<mapsto> Directory, ''/run'' \<mapsto> Directory, ''/var/run'' \<mapsto> Symlink ''/run''],
     denied = (\<lambda>_ _. False), umask = 0x12\<rparr>"

theorem servers_start_witness:
  "nodes (snd (start_servers [ControlSocket, TtySocket, TelemetrySocket] fresh_os)) (server_path ControlSocket)
     = Some (SocketFile 0x180)"
proof -
  have "run_dir_ok fresh_os"
    by (auto simp: run_dir_ok_def fresh_os_def server_path_facts server_paths
        split: option.split elim: server_path.elims)
  from servers_start [OF this, of "[ControlSocket, TtySocket, TelemetrySocket]"] show ?thesis by simp
qed

text \<open>A dangling link at the telemetry socket's path ends the agent; at another socket's path it only
  disables that server.\<close>

lemma dangling_telemetry_ends:
  assumes "run_dir_ok (unlinked telemetry_socket_path s)" "dangling s telemetry_socket_path"
    and "nodes s ''/var/run/kinnector'' = Some Directory"
  shows "agent_ends (fst (start_servers [TelemetrySocket] s)) = Some AddrInUse"
proof -
  let ?p = "server_path TelemetrySocket"
  have u: "nodes s q = nodes (unlinked ?p s) q" if "q \<noteq> ?p" for q
    using that by (simp add: unlinked_def)
  have run: "nodes s ''/var'' = Some Directory" "nodes s ''/run'' = Some Directory"
    "nodes s ''/var/run'' \<in> {Some Directory, Some (Symlink ''/run'')}" "\<forall>op q. \<not> denied s op q"
    using assms(1) by (auto simp: run_dir_ok_def unlinked_def server_paths)
  then have "\<forall>a \<in> set [''/var'', ''/var/run'', ''/var/run/kinnector'']. is_dir s a \<and> is_dir (unlinked ?p s) a"
    using assms(3) by (auto simp: is_dir_def follow.simps eval_nat_numeral unlinked_def server_paths)
  then have "open_socket 0x1B0 ?p s = (Some AddrInUse, with_dirs [] s)"
    using assms(2) run(4)
    by (subst open_socket_result [where d = "''/var/run/kinnector''" and missing = "[]"
          and there = "[''/var'', ''/var/run'', ''/var/run/kinnector'']"])
      (simp_all add: server_path_facts run_ancestors dangling_def path_exists_def follow.simps
        del: server_path.simps, auto simp: follow.simps)
  then show ?thesis by (simp add: ipc_start_def agent_ends_def)
qed

end
