(* ===== verification/Ingestion.thy ===== *)
theory Ingestion
  imports Runs Ipc
begin

section \<open>From the telemetry clients to the engine\<close>

text \<open>
  The connections of \<^verbatim>\<open>ipc.rs\<close> and the consumer thread of \<^verbatim>\<open>lib.rs\<close> joined by the
  bounded channel between them: a connection waits while the channel is full, the consumer takes the
  oldest event and handles it, and when it panics the channel goes with it: its events are
  lost and every connection that sends the next one is refused and ends. A consumer that blocks in a handler
  takes no further event; the channel stays, fills up, and then the connections wait for ever. The rest of the
  agent steps in between. An event in the channel carries the number of its connection, only to state the theorems.
\<close>

subsection \<open>The transition system\<close>

record ingestion =
  unsent :: "telemetry_event_raw list list"
  channel :: "(nat \<times> telemetry_event_raw) list"
  the_agent :: engine

definition event_capacity :: nat where
  "event_capacity = 4096"

fun is_telemetry :: "input \<Rightarrow> bool" where
  "is_telemetry (Telemetry _) = True"
| "is_telemetry _ = False"

inductive ingestion_step ::
  "(env \<times> input \<Rightarrow> bool) \<Rightarrow> ingestion \<Rightarrow> (nat \<times> telemetry_event_raw) list \<Rightarrow> ingestion \<Rightarrow> bool"
  for adm where
  send: "i < length (unsent p) \<Longrightarrow> unsent p ! i = ev # evs \<Longrightarrow> \<not> consumer_panicked (the_agent p) \<Longrightarrow>
     length (channel p) < event_capacity \<Longrightarrow>
     ingestion_step adm p [] (p\<lparr>unsent := (unsent p)[i := evs], channel := channel p @ [(i, ev)]\<rparr>)"
| refused: "i < length (unsent p) \<Longrightarrow> unsent p ! i = ev # evs \<Longrightarrow> consumer_panicked (the_agent p) \<Longrightarrow>
     ingestion_step adm p [] (p\<lparr>unsent := (unsent p)[i := []]\<rparr>)"
| handle: "channel p = (i, ev) # q \<Longrightarrow> \<not> consumer_ended (the_agent p) \<Longrightarrow> adm (w, Telemetry ev) \<Longrightarrow>
     agent_exec (w, Telemetry ev) (the_agent p) = Some e' \<Longrightarrow>
     ingestion_step adm p [(i, ev)]
       (p\<lparr>channel := (if consumer_panicked e' then [] else q), the_agent := e'\<rparr>)"
| other: "\<not> is_telemetry inp \<Longrightarrow> adm (w, inp) \<Longrightarrow> agent_exec (w, inp) (the_agent p) = Some e' \<Longrightarrow>
     ingestion_step adm p [] (p\<lparr>the_agent := e'\<rparr>)"

text \<open>Runs, with the events handled on the way.\<close>

inductive ingestion_run ::
  "(env \<times> input \<Rightarrow> bool) \<Rightarrow> ingestion \<Rightarrow> (nat \<times> telemetry_event_raw) list \<Rightarrow> ingestion \<Rightarrow> bool"
  for adm p0 where
  at_start: "ingestion_run adm p0 [] p0"
| onward: "ingestion_run adm p0 hs p \<Longrightarrow> ingestion_step adm p h p' \<Longrightarrow> ingestion_run adm p0 (hs @ h) p'"

definition ingestion_start :: "telemetry_event_raw list list \<Rightarrow> engine \<Rightarrow> ingestion" where
  "ingestion_start evss e = \<lparr>unsent = evss, channel = [], the_agent = e\<rparr>"

definition of_connection :: "nat \<Rightarrow> (nat \<times> telemetry_event_raw) list \<Rightarrow> telemetry_event_raw list" where
  "of_connection i xs = map snd (filter (\<lambda>x. fst x = i) xs)"

lemma of_connection_simps [simp]:
  "of_connection i [] = []"
  "of_connection i ((j, ev) # xs) = (if j = i then ev # of_connection i xs else of_connection i xs)"
  "of_connection i (xs @ ys) = of_connection i xs @ of_connection i ys"
  by (simp_all add: of_connection_def)

fun telemetry_of :: "(env \<times> input) list \<Rightarrow> telemetry_event_raw list" where
  "telemetry_of [] = []"
| "telemetry_of ((w, Telemetry ev) # is) = ev # telemetry_of is"
| "telemetry_of (_ # is) = telemetry_of is"

lemma telemetry_of_append [simp]: "telemetry_of (is @ js) = telemetry_of is @ telemetry_of js"
  by (induction "is" rule: telemetry_of.induct) simp_all

lemma telemetry_of_other [simp]: "\<not> is_telemetry inp \<Longrightarrow> telemetry_of [(w, inp)] = []"
  by (cases inp) simp_all

lemma run_all_append: "run_all op (is @ js) e = Option.bind (run_all op is e) (run_all op js)"
  by (induction "is" arbitrary: e) (simp_all split: bind_split)

subsection \<open>The channel keeps every connection's order\<close>

definition nothing_lost :: "telemetry_event_raw list list \<Rightarrow> (nat \<times> telemetry_event_raw) list \<Rightarrow> ingestion \<Rightarrow> bool" where
  "nothing_lost evss hs p \<longleftrightarrow>
     (\<forall>i < length evss. of_connection i (hs @ channel p) @ unsent p ! i = evss ! i)"

definition ingestion_ok ::
  "(env \<times> input \<Rightarrow> bool) \<Rightarrow> telemetry_event_raw list list \<Rightarrow> engine \<Rightarrow> (nat \<times> telemetry_event_raw) list \<Rightarrow> ingestion \<Rightarrow> bool" where
  "ingestion_ok adm evss e0 hs p \<longleftrightarrow>
     (\<exists>is. run_all agent_exec is e0 = Some (the_agent p) \<and> (\<forall>i \<in> set is. adm i) \<and>
        telemetry_of is = map snd hs) \<and>
     length (unsent p) = length evss \<and> length (channel p) \<le> event_capacity \<and>
     (\<forall>i < length evss. prefix (of_connection i hs) (evss ! i)) \<and>
     (\<not> consumer_panicked (the_agent p) \<longrightarrow> nothing_lost evss hs p)"

lemma ingestion_ok_agent:
  assumes "run_all agent_exec is e0 = Some e" "\<forall>i \<in> set is. adm i" "telemetry_of is = map snd hs"
    and "adm (w, inp)" "agent_exec (w, inp) e = Some e'"
  shows "\<exists>is. run_all agent_exec is e0 = Some e' \<and> (\<forall>i \<in> set is. adm i) \<and>
    telemetry_of is = map snd hs @ telemetry_of [(w, inp)]"
  using assms by (intro exI [of _ "is @ [(w, inp)]"]) (simp add: run_all_append)

lemma ingestion_step_ok:
  assumes "ingestion_step adm p h p'" "ingestion_ok adm evss e0 hs p" "\<And>i. adm i \<Longrightarrow> any_input i"
  shows "ingestion_ok adm evss e0 (hs @ h) p'"
  using assms(1)
proof cases
  case (send i ev evs)
  have "of_connection j [(i, ev)] @ (unsent p)[i := evs] ! j = unsent p ! j" if "j < length evss" for j
    using send assms(2) by (cases "j = i") (auto simp: ingestion_ok_def)
  then show ?thesis
    using send assms(2) by (auto simp: ingestion_ok_def nothing_lost_def)
next
  case (refused i ev evs)
  then show ?thesis using assms(2) by (auto simp: ingestion_ok_def)
next
  case (handle i ev q w e')
  have lost: "nothing_lost evss hs p" using handle(4) assms(2) by (simp add: ingestion_ok_def)
  have "prefix (of_connection j (hs @ [(i, ev)])) (evss ! j)" if "j < length evss" for j
  proof -
    have "evss ! j = of_connection j (hs @ [(i, ev)]) @ of_connection j q @ unsent p ! j"
      using lost that unfolding nothing_lost_def handle(3) by (metis append_assoc append_Cons append_Nil
          of_connection_simps(2,3))
    then show ?thesis by (rule prefixI)
  qed
  then show ?thesis
    using handle assms(2) ingestion_ok_agent [of _ e0 "the_agent p" adm hs w "Telemetry ev" e']
    by (auto simp: ingestion_ok_def nothing_lost_def)
next
  case (other inp w e')
  have "consumer_panicked (the_agent p) \<longrightarrow> consumer_panicked e'"
    using agent.op_base [OF assms(3) other(5)] other(4) by (simp add: base_ok_def effects_grow_def)
  then show ?thesis
    using other assms(2) ingestion_ok_agent [of _ e0 "the_agent p" adm hs w inp e']
    by (auto simp: ingestion_ok_def nothing_lost_def)
qed

lemma ingestion_run_ok:
  assumes "ingestion_run adm (ingestion_start evss e0) hs p" "\<And>i. adm i \<Longrightarrow> any_input i"
  shows "ingestion_ok adm evss e0 hs p"
  using assms(1)
proof (induction rule: ingestion_run.induct)
  case at_start
  have "run_all agent_exec [] e0 = Some e0" "telemetry_of [] = map snd []" by simp_all
  then show ?case
    by (auto simp: ingestion_ok_def ingestion_start_def nothing_lost_def intro!: exI [of _ "[]"])
next
  case (onward hs p h p')
  show ?case using onward.hyps(2) onward.IH assms(2) by (rule ingestion_step_ok)
qed

text \<open>C3. The threads and the bounded channel refine the engine handling one event after the other: whatever
  the connections, the consumer and the rest of the agent do in whatever order, the engine's state is
  that of a sequential run over exactly the handled events; the channel never exceeds its capacity; and
  as long as the consumer lives, each connection's events are handled in the order it sent them,
  none lost and none twice.\<close>

theorem ingestion_refines_agent:
  assumes "ingestion_run any_input (ingestion_start evss e0) hs p"
  shows "(\<exists>is. run_all agent_exec is e0 = Some (the_agent p) \<and> (\<forall>i \<in> set is. any_input i) \<and>
       telemetry_of is = map snd hs) \<and>
    length (channel p) \<le> event_capacity \<and>
    (\<not> consumer_panicked (the_agent p) \<longrightarrow>
       (\<forall>i < length evss. of_connection i (hs @ channel p) @ unsent p ! i = evss ! i))"
  using ingestion_run_ok [OF assms] by (simp add: ingestion_ok_def nothing_lost_def)

subsection \<open>From the wire to the engine\<close>

definition drained :: "ingestion \<Rightarrow> bool" where
  "drained p \<longleftrightarrow> (\<forall>evs \<in> set (unsent p). evs = []) \<and> channel p = []"

lemma drained_all:
  assumes "nothing_lost evss hs p" "length (unsent p) = length evss" "drained p" "i < length evss"
  shows "of_connection i hs = evss ! i"
proof -
  have "unsent p ! i \<in> set (unsent p)" using assms(2,4) by simp
  then have "unsent p ! i = []" using assms(3) by (simp add: drained_def)
  then show ?thesis using assms(1,3,4) by (auto simp: nothing_lost_def drained_def)
qed

definition delivers :: "string \<Rightarrow> stream \<Rightarrow> telemetry_event_raw list \<Rightarrow> bool" where
  "delivers token s evs \<longleftrightarrow>
     (\<forall>ev \<in> set evs. wf_event ev) \<and> accepts_writes s \<and> closes_cleanly s \<and>
     (\<exists>partial. length partial < RAW_EVENT_SIZE \<and>
        incoming s = hello token @ concat (map enc_event evs) @ partial)"

text \<open>C27. From the wire to the engine. Clients authenticate and send encoded events, whatever partial frame ends
  their streams. In every state of their ingestion, whatever the consumer and the rest of the agent have done:
  the engine has taken from each client a beginning of the events it encoded, in its order, none twice and
  none made up; as long as the consumer has not panicked, none of the rest is lost either; and when nothing
  is left to send or queued by then, the engine has taken exactly what each client sent. That everything is
  taken in the end is not claimed: a consumer that blocks leaves the rest where it is.\<close>

theorem telemetry_taken_in_order:
  assumes "length token \<le> 256" "utf8_valid (map char_byte token)"
    and "list_all2 (delivers token) streams evss"
    and "ingestion_run any_input
      (ingestion_start (map (\<lambda>s. sent (handle_connection token None s)) streams) e0) hs p"
  shows "(\<forall>i < length evss. prefix (of_connection i hs) (evss ! i)) \<and>
    (\<not> consumer_panicked (the_agent p) \<longrightarrow>
       (\<forall>i < length evss. of_connection i (hs @ channel p) @ unsent p ! i = evss ! i) \<and>
       (drained p \<longrightarrow> (\<forall>i < length evss. of_connection i hs = evss ! i)))"
proof -
  have "sent (handle_connection token None s) = evs" if "delivers token s evs" for s evs
    using that handle_connection_delivers [OF assms(1,2)] by (auto simp: delivers_def)
  then have evss: "map (\<lambda>s. sent (handle_connection token None s)) streams = evss"
    using assms(3) by (auto simp: list_all2_conv_all_nth intro: nth_equalityI)
  have ok: "ingestion_ok any_input evss e0 hs p"
    using assms(4) unfolding evss by (rule ingestion_run_ok)
  then show ?thesis
    using drained_all [of evss hs p] by (auto simp: ingestion_ok_def nothing_lost_def)
qed

text \<open>A client sending one event of a kind without handler, taken from its stream, put into the
  channel and handled.\<close>

definition create_file_event :: telemetry_event_raw where
  "create_file_event = sample_event\<lparr>header := (header sample_event)\<lparr>hdr_event_type := FileCreate\<rparr>\<rparr>"

lemma one_event_run:
  assumes "adm (quiet_env, Telemetry create_file_event)" "\<not> consumer_ended e"
  shows "ingestion_run adm (ingestion_start [[create_file_event]] e) [(0, create_file_event)]
    (ingestion_start [[]] e)"
proof -
  let ?p0 = "ingestion_start [[create_file_event]] e"
  let ?p1 = "?p0\<lparr>unsent := (unsent ?p0)[0 := []], channel := channel ?p0 @ [(0, create_file_event)]\<rparr>"
  have "ingestion_step adm ?p0 [] ?p1"
    by (rule send) (use assms(2) in \<open>simp_all add: ingestion_start_def event_capacity_def\<close>)
  then have r: "ingestion_run adm ?p0 ([] @ []) ?p1" by (rule onward [OF at_start])
  have x: "agent_exec (quiet_env, Telemetry create_file_event) e = Some e"
    using assms(2) by (simp add: handle_event_def create_file_event_def Let_def)
  have "ingestion_step adm ?p1 [(0, create_file_event)]
      (?p1\<lparr>channel := (if consumer_panicked e then [] else []), the_agent := e\<rparr>)"
    by (rule handle) (use assms x in \<open>simp_all add: ingestion_start_def\<close>)
  from onward [OF r this] show ?thesis by (simp add: ingestion_start_def)
qed

theorem ingestion_refines_agent_witness:
  "\<exists>is. run_all agent_exec is (sample_engine quiet_config None (sample_process ''/bin/sh'' False)) =
       Some (sample_engine quiet_config None (sample_process ''/bin/sh'' False)) \<and>
     telemetry_of is = [create_file_event]"
proof -
  let ?e = "sample_engine quiet_config None (sample_process ''/bin/sh'' False)"
  have "ingestion_run any_input (ingestion_start [[create_file_event]] ?e) [(0, create_file_event)]
      (ingestion_start [[]] ?e)"
    by (rule one_event_run) (simp_all add: any_input_def sample_engine_def new_engine_def)
  from ingestion_refines_agent [OF this] show ?thesis by (auto simp: ingestion_start_def)
qed

theorem telemetry_taken_in_order_witness:
  "\<exists>hs p. ingestion_run any_input (ingestion_start [[create_file_event]]
       (sample_engine quiet_config None (sample_process ''/bin/sh'' False))) hs p \<and> drained p \<and>
     of_connection 0 hs = [create_file_event]"
proof -
  let ?e = "sample_engine quiet_config None (sample_process ''/bin/sh'' False)"
  let ?s = "\<lparr>incoming = hello ''key'' @ enc_event create_file_event @ [1, 2],
     closes_cleanly = True, accepts_writes = True\<rparr>"
  have wf: "wf_event create_file_event"
    by (simp add: create_file_event_def sample_event_def wf_event_def)
  have d: "delivers ''key'' ?s [create_file_event]"
    using wf unfolding delivers_def by (auto simp: RAW_EVENT_SIZE_def intro!: exI [of _ "[1, 2]"])
  have sent: "sent (handle_connection ''key'' None ?s) = [create_file_event]"
    by (subst handle_connection_delivers [where evs = "[create_file_event]" and partial = "[1, 2]", OF _ sample_token])
      (use wf in \<open>simp_all add: RAW_EVENT_SIZE_def\<close>)
  have run: "ingestion_run any_input (ingestion_start [[create_file_event]] ?e) [(0, create_file_event)] (ingestion_start [[]] ?e)"
    by (rule one_event_run) (simp_all add: any_input_def sample_engine_def new_engine_def)
  have dr: "drained (ingestion_start [[]] ?e)" "\<not> consumer_panicked (the_agent (ingestion_start [[]] ?e))"
    by (simp_all add: drained_def ingestion_start_def sample_engine_def new_engine_def)
  have "\<forall>i < length [[create_file_event]]. of_connection i [(0, create_file_event)] = [[create_file_event]] ! i"
    using telemetry_taken_in_order [OF _ sample_token, of "[?s]" "[[create_file_event]]" ?e
        "[(0, create_file_event)]" "ingestion_start [[]] ?e"] d sent run dr by simp
  then show ?thesis using run dr(1) by (intro exI [of _ "[(0, create_file_event)]"] exI [of _ "ingestion_start [[]] ?e"]) simp
qed

end
