(* ===== verification/Notify.thy ===== *)
theory Notify
  imports Containment
begin

section \<open>Notifying the terminals\<close>

text \<open>
  What \<^verbatim>\<open>suspend_process_tree\<close> does before it suspends anything: a broadcast with
  \<^verbatim>\<open>wall\<close>, the list of clients of \<^verbatim>\<open>tmux\<close>, and a popup with the triage tool
  for each of them. Every command is awaited (\<^verbatim>\<open>output()\<close>), and meanwhile the other threads
  go on. Here the call is a sequence of small steps over the shared engine: which command it waits for, what
  it does when that command ends, and the suspension as its last step. The other theories take the notices
  as given and start with the suspension itself.
\<close>

text \<open>How a command ended: it could not be started, or it exited (successfully?) with its output. A command that
  hangs does not end.\<close>

datatype outcome = Fails | Exits bool bytes

type_synonym command = "string \<times> string list"

abbreviation dquote :: char where
  "dquote \<equiv> CHR 0x22"

abbreviation linefeed :: char where
  "linefeed \<equiv> CHR 0x0A"

definition wall_message :: "u32 \<Rightarrow> string \<Rightarrow> string" where
  "wall_message pid reason =
     replicate 3 (CHR 0x07) @ [linefeed] @ ''!!! KINNECTOR EDR ALERT !!!'' @ [linefeed] @
     ''Suspended PID '' @ show_nat (unat pid) @ ''. Reason: '' @ reason @ ''.'' @ [linefeed] @
     ''Run '' @ [CHR 0x27] @ ''antitheft-cli triage '' @ show_nat (unat pid) @ [CHR 0x27] @
     '' to triage.'' @ [linefeed]"

definition list_clients :: command where
  "list_clients = (''tmux'', [''list-clients'', ''-F'', ''#{client_name}''])"

definition tmux_clients :: "outcome \<Rightarrow> string list" where
  "tmux_clients r =
     (case r of
        Exits True out \<Rightarrow> filter (\<lambda>c. c \<noteq> '''') (map trim (text_lines (from_utf8_lossy out)))
      | _ \<Rightarrow> [])"

definition popup :: "u32 \<Rightarrow> string \<Rightarrow> command" where
  "popup pid client =
     (''sh'', [''-c'', ''tmux display-popup -c '' @ [dquote] @ client @ [dquote] @ '' -E '' @ [dquote] @
        ''antitheft-cli triage '' @ show_nat (unat pid) @ [dquote]])"

subsection \<open>The call, step by step\<close>

text \<open>Waiting for the broadcast, for the list, for the first of the popups left (none left: about to
  suspend), or back from the call.\<close>

datatype stage = Broadcasting | Listing | Prompting "command list" | Returned

record notifying =
  at_stage :: stage
  seen_engine :: engine

fun awaited :: "u32 \<Rightarrow> string \<Rightarrow> stage \<Rightarrow> command option" where
  "awaited pid reason Broadcasting = Some (''wall'', [wall_message pid reason])"
| "awaited pid reason Listing = Some list_clients"
| "awaited pid reason (Prompting (c # cs)) = Some c"
| "awaited pid reason _ = None"

text \<open>Only the output of the listing is used.\<close>

fun command_ended :: "u32 \<Rightarrow> outcome \<Rightarrow> stage \<Rightarrow> stage option" where
  "command_ended pid r Broadcasting = Some Listing"
| "command_ended pid r Listing = Some (Prompting (map (popup pid) (tmux_clients r)))"
| "command_ended pid r (Prompting (c # cs)) = Some (Prompting cs)"
| "command_ended pid r _ = None"

text \<open>The awaited command ends; another thread changes the engine; the call goes on by itself, which it can
  only once no command is left to wait for.\<close>

datatype notify_event = Ended outcome | Elsewhere engine | Proceeds

fun notify_step ::
  "env \<Rightarrow> process_key \<Rightarrow> string \<Rightarrow> string \<Rightarrow> string \<Rightarrow> notify_event \<Rightarrow> notifying \<Rightarrow> notifying option" where
  "notify_step w key reason cat r (Ended out) n =
     map_option (\<lambda>st. n\<lparr>at_stage := st\<rparr>) (command_ended (pk_pid key) out (at_stage n))"
| "notify_step w key reason cat r (Elsewhere e) n = Some (n\<lparr>seen_engine := e\<rparr>)"
| "notify_step w key reason cat r Proceeds n =
     (if at_stage n = Prompting []
      then map_option (\<lambda>e'. \<lparr>at_stage = Returned, seen_engine = e'\<rparr>)
        (suspend_process_tree w key reason cat r (seen_engine n))
      else None)"

fun notify_run ::
  "env \<Rightarrow> process_key \<Rightarrow> string \<Rightarrow> string \<Rightarrow> string \<Rightarrow> notify_event list \<Rightarrow> notifying \<Rightarrow> notifying option" where
  "notify_run w key reason cat r [] n = Some n"
| "notify_run w key reason cat r (ev # evs) n =
     Option.bind (notify_step w key reason cat r ev n) (notify_run w key reason cat r evs)"

definition notify_start :: "engine \<Rightarrow> notifying" where
  "notify_start e = \<lparr>at_stage = Broadcasting, seen_engine = e\<rparr>"

text \<open>The commands that have ended, and the engine as the other threads left it.\<close>

fun ended :: "notify_event list \<Rightarrow> outcome list" where
  "ended [] = []"
| "ended (Ended r # evs) = r # ended evs"
| "ended (_ # evs) = ended evs"

fun left_by_others :: "engine \<Rightarrow> notify_event list \<Rightarrow> engine" where
  "left_by_others e [] = e"
| "left_by_others e (Elsewhere e' # evs) = left_by_others e' evs"
| "left_by_others e (_ # evs) = left_by_others e evs"

subsection \<open>Reading the list of clients\<close>

definition plain_name :: "string \<Rightarrow> bool" where
  "plain_name c \<longleftrightarrow> c \<noteq> '''' \<and> (\<forall>x \<in> set c. 32 < (of_char x :: nat) \<and> (of_char x :: nat) < 128)"

lemma plain_char: "plain_name c \<Longrightarrow> x \<in> set c \<Longrightarrow> \<not> is_ascii_whitespace x \<and> x \<noteq> linefeed \<and> x \<noteq> CHR 0x0D"
  by (fastforce simp: plain_name_def is_ascii_whitespace_def Let_def)

lemma trim_plain:
  assumes "plain_name c"
  shows "trim c = c"
proof -
  have "dropWhile is_ascii_whitespace xs = xs" if "set xs \<subseteq> set c" for xs
    using that plain_char [OF assms] by (cases xs) auto
  from this [of c] this [of "rev c"] show ?thesis by (simp add: trim_def)
qed

lemma strip_cr_plain: "plain_name c \<Longrightarrow> strip_cr c = c"
  using plain_char [of c "last c"] last_in_set [of c] by (cases "c = []") (simp_all add: strip_cr_def)

lemma split_lines:
  "\<forall>c \<in> set cs. linefeed \<notin> set c \<Longrightarrow>
     split_at (\<lambda>x. x = linefeed) (concat (map (\<lambda>c. c @ [linefeed]) cs)) = cs @ [[]]"
proof (induction cs)
  case (Cons c cs)
  have "linefeed \<notin> set c \<Longrightarrow> split_at (\<lambda>x. x = linefeed) (c @ linefeed # rest) =
      c # split_at (\<lambda>x. x = linefeed) rest" for rest
    by (induction c) auto
  then show ?case using Cons by simp
qed simp

lemma text_lines_plain:
  assumes "\<forall>c \<in> set cs. plain_name c"
  shows "text_lines (concat (map (\<lambda>c. c @ [linefeed]) cs)) = cs"
proof -
  have "\<forall>c \<in> set cs. linefeed \<notin> set c" using assms plain_char by blast
  from split_lines [OF this] show ?thesis
    using assms by (simp add: text_lines_def Let_def strip_cr_plain map_idI)
qed

lemma from_utf8_ascii:
  assumes "\<forall>x \<in> set s. (of_char x :: nat) < 128"
  shows "from_utf8_lossy (map char_byte s) = s"
proof -
  have "\<forall>b \<in> set (map char_byte s). b < 0x80" using assms by (auto simp: char_byte_less)
  then have "utf8_lossy (map char_byte s) = map char_byte s"
    by (intro utf8_lossy_of_valid utf8_valid_ascii)
  then show ?thesis by (simp add: from_utf8_lossy_def o_def)
qed

definition client_listing :: "string list \<Rightarrow> bytes" where
  "client_listing cs = map char_byte (concat (map (\<lambda>c. c @ [linefeed]) cs))"

lemma tmux_clients_listing:
  assumes "\<forall>c \<in> set cs. plain_name c"
  shows "tmux_clients (Exits True (client_listing cs)) = cs"
proof -
  have "from_utf8_lossy (client_listing cs) = concat (map (\<lambda>c. c @ [linefeed]) cs)"
    unfolding client_listing_def
    by (rule from_utf8_ascii) (use assms in \<open>auto simp: plain_name_def\<close>)
  moreover have "map trim cs = cs" using assms by (simp add: trim_plain map_idI)
  moreover have "filter (\<lambda>c. c \<noteq> '''') cs = cs" using assms by (simp add: plain_name_def)
  ultimately show ?thesis using assms by (simp add: tmux_clients_def text_lines_plain)
qed

subsection \<open>Nothing is stopped before the popups are closed\<close>

text \<open>Once the call is back only the other threads change the engine.\<close>

lemma notify_returned:
  "notify_run w key reason cat r evs \<lparr>at_stage = Returned, seen_engine = e\<rparr> = Some n \<Longrightarrow>
     n = \<lparr>at_stage = Returned, seen_engine = left_by_others e evs\<rparr> \<and> ended evs = []"
proof (induction evs arbitrary: e)
  case (Cons ev evs)
  then show ?case by (cases ev) auto
qed simp

text \<open>With \<open>cs\<close> popups left, of which \<open>ended evs\<close> have been closed since.\<close>

lemma notify_prompting:
  assumes "notify_run w key reason cat r evs \<lparr>at_stage = Prompting cs, seen_engine = e\<rparr> = Some n"
  shows "length (ended evs) \<le> length cs \<and>
    (length (ended evs) < length cs \<longrightarrow>
       n = \<lparr>at_stage = Prompting (drop (length (ended evs)) cs), seen_engine = left_by_others e evs\<rparr>) \<and>
    (length (ended evs) = length cs \<longrightarrow>
       n = \<lparr>at_stage = Prompting [], seen_engine = left_by_others e evs\<rparr> \<or>
       (\<exists>before after e'. evs = before @ Proceeds # after \<and> length (ended before) = length cs \<and>
          suspend_process_tree w key reason cat r (left_by_others e before) = Some e' \<and>
          n = \<lparr>at_stage = Returned, seen_engine = left_by_others e' after\<rparr>))"
  using assms
proof (induction evs arbitrary: cs e)
  case (Cons ev evs)
  show ?case
  proof (cases ev)
    case (Ended x)
    then obtain c cs' where cs: "cs = c # cs'" using Cons.prems by (cases cs) auto
    have "notify_run w key reason cat r evs \<lparr>at_stage = Prompting cs', seen_engine = e\<rparr> = Some n"
      using Cons.prems by (simp add: Ended cs)
    from Cons.IH [OF this] show ?thesis
      unfolding Ended cs by simp (metis append_Cons ended.simps(2) left_by_others.simps(3) length_Cons)
  next
    case (Elsewhere e')
    have "notify_run w key reason cat r evs \<lparr>at_stage = Prompting cs, seen_engine = e'\<rparr> = Some n"
      using Cons.prems by (simp add: Elsewhere)
    from Cons.IH [OF this] show ?thesis
      unfolding Elsewhere by simp (metis append_Cons ended.simps(3) left_by_others.simps(2))
  next
    case Proceeds
    then obtain e' where e': "cs = []" "suspend_process_tree w key reason cat r e = Some e'"
      "notify_run w key reason cat r evs \<lparr>at_stage = Returned, seen_engine = e'\<rparr> = Some n"
      using Cons.prems by (auto simp: bind_eq_Some_conv split: if_splits)
    have "ended (ev # evs) = []" "ev # evs = [] @ Proceeds # evs"
      "n = \<lparr>at_stage = Returned, seen_engine = left_by_others e' evs\<rparr>"
      using notify_returned [OF e'(3)] by (simp_all add: Proceeds)
    moreover have "suspend_process_tree w key reason cat r (left_by_others e []) = Some e'" using e'(2) by simp
    ultimately have "\<exists>before after e'. ev # evs = before @ Proceeds # after \<and> length (ended before) = length cs \<and>
        suspend_process_tree w key reason cat r (left_by_others e before) = Some e' \<and>
        n = \<lparr>at_stage = Returned, seen_engine = left_by_others e' after\<rparr>"
      using e'(1) by (metis ended.simps(1) list.size(3))
    then show ?thesis using \<open>ended (ev # evs) = []\<close> e'(1) by simp
  qed
qed auto

lemma notify_listing:
  assumes "notify_run w key reason cat r evs \<lparr>at_stage = Listing, seen_engine = e\<rparr> = Some n"
    and "ended evs = out # rs"
  shows "\<exists>es before. notify_run w key reason cat r es
      \<lparr>at_stage = Prompting (map (popup (pk_pid key)) (tmux_clients out)), seen_engine = left_by_others e before\<rparr> = Some n \<and>
    ended es = rs \<and> evs = before @ Ended out # es \<and> ended before = [] \<and> Proceeds \<notin> set before"
  using assms
proof (induction evs arbitrary: e)
  case (Cons ev evs)
  show ?case
  proof (cases ev)
    case (Ended x)
    then show ?thesis using Cons.prems by (intro exI [of _ evs] exI [of _ "[]"]) simp
  next
    case (Elsewhere e')
    then show ?thesis using Cons.prems Cons.IH [of e'] by simp (metis append_Cons ended.simps(3)
        left_by_others.simps(2) set_ConsD notify_event.distinct(5))
  qed (use Cons.prems in simp)
qed simp

lemma left_by_others_append [simp]:
  "left_by_others e (xs @ ys) = left_by_others (left_by_others e xs) ys"
  by (induction e xs rule: left_by_others.induct) simp_all

lemma ended_append [simp]: "ended (xs @ ys) = ended xs @ ended ys"
  by (induction xs rule: ended.induct) simp_all

lemma notify_broadcasting:
  assumes "notify_run w key reason cat r evs \<lparr>at_stage = Broadcasting, seen_engine = e\<rparr> = Some n"
    and "ended evs = out # rs"
  shows "\<exists>es before. notify_run w key reason cat r es
      \<lparr>at_stage = Listing, seen_engine = left_by_others e before\<rparr> = Some n \<and>
    ended es = rs \<and> evs = before @ Ended out # es \<and> ended before = []"
  using assms
proof (induction evs arbitrary: e)
  case (Cons ev evs)
  show ?case
  proof (cases ev)
    case (Ended x)
    then show ?thesis using Cons.prems by (intro exI [of _ evs] exI [of _ "[]"]) simp
  next
    case (Elsewhere e')
    then show ?thesis using Cons.prems Cons.IH [of e'] by simp (metis append_Cons ended.simps(3)
        left_by_others.simps(2))
  qed (use Cons.prems in simp)
qed simp

text \<open>C29. Containment waits for the administrators. Every terminal attached to tmux gets one popup, in order;
  while any of them is open the call is waiting for it and has changed nothing, so no process of the tree
  has been stopped: the engine is as the other threads have left it. Only after the last popup is closed
  can the call proceed, and then it suspends the tree as it is at that moment.\<close>

theorem suspension_waits_for_popups:
  assumes "notify_run w key reason cat r evs (notify_start e) = Some n"
    and "ended evs = wall # Exits True (client_listing cs) # closed" "\<forall>c \<in> set cs. plain_name c"
  shows "length closed \<le> length cs \<and>
    (length closed < length cs \<longrightarrow>
       awaited (pk_pid key) reason (at_stage n) = Some (popup (pk_pid key) (cs ! length closed)) \<and>
       seen_engine n = left_by_others e evs) \<and>
    (length closed = length cs \<longrightarrow>
       n = \<lparr>at_stage = Prompting [], seen_engine = left_by_others e evs\<rparr> \<or>
       (\<exists>before after e'. evs = before @ Proceeds # after \<and> length (ended before) = 2 + length cs \<and>
          suspend_process_tree w key reason cat r (left_by_others e before) = Some e' \<and>
          n = \<lparr>at_stage = Returned, seen_engine = left_by_others e' after\<rparr>))"
proof -
  obtain es1 b1 where 1: "notify_run w key reason cat r es1 \<lparr>at_stage = Listing, seen_engine = left_by_others e b1\<rparr> = Some n"
    "ended es1 = Exits True (client_listing cs) # closed" "evs = b1 @ Ended wall # es1" "ended b1 = []"
    using notify_broadcasting [OF assms(1) [unfolded notify_start_def] assms(2)] by blast
  obtain es b2 where 2: "notify_run w key reason cat r es \<lparr>at_stage = Prompting (map (popup (pk_pid key)) cs),
      seen_engine = left_by_others (left_by_others e b1) b2\<rparr> = Some n"
    "ended es = closed" "es1 = b2 @ Ended (Exits True (client_listing cs)) # es" "ended b2 = []"
    using notify_listing [OF 1(1,2)] tmux_clients_listing [OF assms(3)] by metis
  define b where "b = b1 @ Ended wall # b2 @ [Ended (Exits True (client_listing cs))]"
  have b: "evs = b @ es" "length (ended b) = 2" and run: "notify_run w key reason cat r es
      \<lparr>at_stage = Prompting (map (popup (pk_pid key)) cs), seen_engine = left_by_others e b\<rparr> = Some n"
    using 1(3,4) 2(1,3,4) by (simp_all add: b_def)
  note p = notify_prompting [OF run, unfolded 2(2) length_map]
  have "awaited (pk_pid key) reason (at_stage n) = Some (popup (pk_pid key) (cs ! length closed)) \<and>
      seen_engine n = left_by_others e evs" if "length closed < length cs"
    using p that by (simp add: b(1) drop_map Cons_nth_drop_Suc [symmetric])
  moreover have "n = \<lparr>at_stage = Prompting [], seen_engine = left_by_others e evs\<rparr> \<or>
      (\<exists>before after e'. evs = before @ Proceeds # after \<and> length (ended before) = 2 + length cs \<and>
        suspend_process_tree w key reason cat r (left_by_others e before) = Some e' \<and>
        n = \<lparr>at_stage = Returned, seen_engine = left_by_others e' after\<rparr>)" if all: "length closed = length cs"
  proof (cases "n = \<lparr>at_stage = Prompting [], seen_engine = left_by_others e evs\<rparr>")
    case False
    then obtain before after e' where x: "es = before @ Proceeds # after" "length (ended before) = length cs"
      "suspend_process_tree w key reason cat r (left_by_others (left_by_others e b) before) = Some e'"
      "n = \<lparr>at_stage = Returned, seen_engine = left_by_others e' after\<rparr>"
      using p all by (auto simp: b(1))
    then show ?thesis
      by (intro disjI2 exI [of _ "b @ before"] exI [of _ after] exI [of _ e']) (simp add: b)
  qed simp
  ultimately show ?thesis using p by blast
qed

text \<open>Two terminals; the popup of the first is closed, that of the second is open, and another thread has
  killed the process in the meantime.\<close>

theorem suspension_waits_for_popups_witness:
  "\<exists>e n. notify_run quiet_env sample_key ''r'' ''c'' ''p''
      [Ended Fails, Ended (Exits True (client_listing [''/dev/pts/0'', ''/dev/pts/1''])),
       Elsewhere (terminate_process 7 e), Ended Fails] (notify_start e) = Some n \<and>
    awaited 7 ''r'' (at_stage n) = Some (popup 7 ''/dev/pts/1'') \<and>
    signals e = [] \<and> signals (seen_engine n) = [(SIGKILL, 7)]"
proof -
  let ?cs = "[''/dev/pts/0'', ''/dev/pts/1'']" and ?e = "sample_engine quiet_config None (sample_process ''/bin/sh'' False)"
  let ?evs = "[Ended Fails, Ended (Exits True (client_listing ?cs)), Elsewhere (terminate_process 7 ?e), Ended Fails]"
  have cs: "\<forall>c \<in> set ?cs. plain_name c" by (simp add: plain_name_def)
  obtain n where n: "notify_run quiet_env sample_key ''r'' ''c'' ''p'' ?evs (notify_start ?e) = Some n"
    using tmux_clients_listing [OF cs] by (simp add: notify_start_def)
  have "ended ?evs = Fails # Exits True (client_listing ?cs) # [Fails]" by simp
  from suspension_waits_for_popups [OF n this cs]
  have "awaited 7 ''r'' (at_stage n) = Some (popup 7 ''/dev/pts/1'')"
    "signals (seen_engine n) = [(SIGKILL, 7)]" by (simp_all add: terminate_process_def)
  then show ?thesis using n by (intro exI [of _ ?e] exI [of _ n]) simp
qed

text \<open>When no command can be started, as on a system without terminals, nothing waits.\<close>

lemma suspension_without_terminals:
  "notify_run w key reason cat r [Ended Fails, Ended Fails, Proceeds] (notify_start e) =
     map_option (\<lambda>e'. \<lparr>at_stage = Returned, seen_engine = e'\<rparr>) (suspend_process_tree w key reason cat r e)"
  by (cases "suspend_process_tree w key reason cat r e") (simp_all add: notify_start_def tmux_clients_def)

end
