(* ===== verification/Clipboard.thy ===== *)
theory Clipboard
  imports Prelude
begin

section \<open>The clipboard helper of the Windows build\<close>

text \<open>
  \<^verbatim>\<open>clipboard_helper.rs\<close>: a process that listens for clipboard changes and reports
  each new text with the previous one to a named pipe. Here a Rust string is the list of its Unicode
  scalar values (\<open>utext\<close>), because the report formats it character by character. What Windows answers
  (the window class, the clipboard, the pipe, the clock) is input. \<^term>\<open>None\<close> as the state
  after a message means that the process is gone: clipboard data without a terminating zero is read
  beyond its end (undefined), and a clock before 1970 panics in a callback that must not unwind.
\<close>

type_synonym utext = "nat list"

definition chars :: "string \<Rightarrow> utext" where
  "chars s = map of_char s"

definition is_scalar :: "nat \<Rightarrow> bool" where
  "is_scalar c \<longleftrightarrow> c < 0x110000 \<and> \<not> (0xD800 \<le> c \<and> c < 0xE000)"

subsection \<open>UTF-16\<close>

definition is_high :: "u16 \<Rightarrow> bool" where
  "is_high u \<longleftrightarrow> 0xD800 \<le> unat u \<and> unat u < 0xDC00"

definition is_low :: "u16 \<Rightarrow> bool" where
  "is_low u \<longleftrightarrow> 0xDC00 \<le> unat u \<and> unat u < 0xE000"

definition replacement :: nat where
  "replacement = 0xFFFD"

text \<open>\<^verbatim>\<open>String::from_utf16_lossy\<close>: an unpaired surrogate becomes the replacement
  character, and the unit after a high one that is not low is read again.\<close>

fun from_utf16_lossy :: "u16 list \<Rightarrow> utext" where
  "from_utf16_lossy [] = []"
| "from_utf16_lossy [u] = [if is_high u \<or> is_low u then replacement else unat u]"
| "from_utf16_lossy (u # v # us) =
     (if is_high u then
        if is_low v
        then (0x10000 + (unat u - 0xD800) * 0x400 + (unat v - 0xDC00)) # from_utf16_lossy us
        else replacement # from_utf16_lossy (v # us)
      else (if is_low u then replacement else unat u) # from_utf16_lossy (v # us))"

definition encode_utf16_char :: "nat \<Rightarrow> u16 list" where
  "encode_utf16_char c =
     (if c < 0x10000 then [of_nat c]
      else [of_nat (0xD800 + (c - 0x10000) div 0x400), of_nat (0xDC00 + (c - 0x10000) mod 0x400)])"

text \<open>\<^verbatim>\<open>encode_wide\<close> of the helper: UTF-16 with a final zero.\<close>

definition encode_wide :: "utext \<Rightarrow> u16 list" where
  "encode_wide s = concat (map encode_utf16_char s) @ [0]"

text \<open>The units before the first zero.\<close>

fun read_wide :: "u16 list \<Rightarrow> u16 list option" where
  "read_wide [] = None"
| "read_wide (u # us) = (if u = 0 then Some [] else map_option ((#) u) (read_wide us))"

subsection \<open>The report\<close>

text \<open>\<^verbatim>\<open>char::escape_debug\<close> as the \<^verbatim>\<open>{:?}\<close> of a string uses it. Whether a
  character outside ASCII is printable is decided by Rust's Unicode tables: the argument
  \<open>shown\<close>.\<close>

definition printable :: "(nat \<Rightarrow> bool) \<Rightarrow> nat \<Rightarrow> bool" where
  "printable shown c \<longleftrightarrow> (if c < 128 then 32 \<le> c \<and> c < 127 else shown c)"

definition escape_debug :: "(nat \<Rightarrow> bool) \<Rightarrow> nat \<Rightarrow> utext" where
  "escape_debug shown c =
     (if c = 0 then [92, 48]
      else if c = 9 then [92, 116]
      else if c = 13 then [92, 114]
      else if c = 10 then [92, 110]
      else if c = 34 \<or> c = 92 then [92, c]
      else if printable shown c then [c]
      else chars [CHR 0x5C, CHR ''u'', CHR 0x7B] @ chars (show_base 16 c) @ [125])"

definition debug_str :: "(nat \<Rightarrow> bool) \<Rightarrow> utext \<Rightarrow> utext" where
  "debug_str shown s = [34] @ concat (map (escape_debug shown) s) @ [34]"

definition report :: "(nat \<Rightarrow> bool) \<Rightarrow> u32 \<Rightarrow> utext \<Rightarrow> utext \<Rightarrow> u64 \<Rightarrow> utext" where
  "report shown writing_pid new_content prev_content timestamp =
     [123] @ debug_str shown (chars ''pid'') @ [58] @ chars (show_nat (unat writing_pid)) @
     [44] @ debug_str shown (chars ''new_content'') @ [58] @ debug_str shown new_content @
     [44] @ debug_str shown (chars ''prev_content'') @ [58] @ debug_str shown prev_content @
     [44] @ debug_str shown (chars ''timestamp'') @ [58] @ chars (show_nat (unat timestamp)) @ [125]"

subsection \<open>The window procedure\<close>

text \<open>What Windows shows during one update: the process owning the clipboard (0: none), whether the
  clipboard opens, its Unicode text (\<^term>\<open>None\<close>: no such data or no access), the time in
  nanoseconds, and whether the pipe opens
  for writing and takes the line.\<close>

record clipboard_view =
  owner_pid :: u32
  clipboard_opens :: bool
  unicode_text :: "u16 list option"
  unix_nanos :: int
  pipe_opens :: bool

record helper =
  prev_content :: utext
  reports :: "utext list"

definition read_clipboard :: "clipboard_view \<Rightarrow> utext option" where
  "read_clipboard v =
     (if clipboard_opens v then
        case unicode_text v of
          None \<Rightarrow> Some []
        | Some units \<Rightarrow> map_option from_utf16_lossy (read_wide units)
      else Some [])"

definition clipboard_update :: "(nat \<Rightarrow> bool) \<Rightarrow> clipboard_view \<Rightarrow> helper \<Rightarrow> helper option" where
  "clipboard_update shown v h =
     (case read_clipboard v of
        None \<Rightarrow> None
      | Some new_content \<Rightarrow>
          if new_content \<noteq> prev_content h \<and> new_content \<noteq> [] then
            if unix_nanos v < 0 then None
            else
              let timestamp = of_int (unix_nanos v);
                  json = report shown (owner_pid v) new_content (prev_content h) timestamp;
                  h1 = (if pipe_opens v then h\<lparr>reports := reports h @ [json]\<rparr> else h)
              in Some (h1\<lparr>prev_content := new_content\<rparr>)
          else Some h)"

datatype window_message = ClipboardUpdate clipboard_view | OtherMessage

definition window_proc :: "(nat \<Rightarrow> bool) \<Rightarrow> window_message \<Rightarrow> helper \<Rightarrow> helper option" where
  "window_proc shown m h =
     (case m of ClipboardUpdate v \<Rightarrow> clipboard_update shown v h | OtherMessage \<Rightarrow> Some h)"

text \<open>The message loop, on the messages until \<^verbatim>\<open>GetMessageW\<close> fails or reports the end.\<close>

fun message_loop :: "(nat \<Rightarrow> bool) \<Rightarrow> window_message list \<Rightarrow> helper \<Rightarrow> helper option" where
  "message_loop shown [] h = Some h"
| "message_loop shown (m # ms) h = Option.bind (window_proc shown m h) (message_loop shown ms)"

record startup_view =
  class_registered :: bool
  window_created :: bool
  listener_added :: bool
  first_view :: clipboard_view

text \<open>The helper returns at once when any registration fails; otherwise it takes the present text as
  the previous content and enters the loop.\<close>

definition clipboard_main :: "(nat \<Rightarrow> bool) \<Rightarrow> startup_view \<Rightarrow> window_message list \<Rightarrow> helper option" where
  "clipboard_main shown sv ms =
     (let h0 = \<lparr>prev_content = [], reports = []\<rparr> in
      if class_registered sv \<and> window_created sv \<and> listener_added sv then
        case read_clipboard (first_view sv) of
          None \<Rightarrow> None
        | Some t \<Rightarrow> message_loop shown ms (h0\<lparr>prev_content := t\<rparr>)
      else Some h0)"

definition pipe_name :: "u32 \<Rightarrow> string" where
  "pipe_name session_id =
     [CHR 0x5C, CHR 0x5C, CHR ''.'', CHR 0x5C] @ ''pipe'' @ [CHR 0x5C] @ ''kinnect-clipboard-'' @
     show_nat (unat session_id)"

subsection \<open>UTF-16 round trip\<close>

lemma unat_of_nat_u16: "n < 0x10000 \<Longrightarrow> unat (of_nat n :: u16) = n"
  by (simp add: unat_of_nat)

lemma from_utf16_plain:
  "\<not> is_high u \<Longrightarrow> \<not> is_low u \<Longrightarrow> from_utf16_lossy (u # us) = unat u # from_utf16_lossy us"
  by (cases us) simp_all

lemma from_utf16_encoded:
  assumes "is_scalar c"
  shows "from_utf16_lossy (encode_utf16_char c @ us) = c # from_utf16_lossy us"
proof (cases "c < 0x10000")
  case True
  then have c: "unat (of_nat c :: u16) = c" by (rule unat_of_nat_u16)
  then have "\<not> is_high (of_nat c)" "\<not> is_low (of_nat c)"
    using assms by (auto simp: is_scalar_def is_high_def is_low_def)
  then show ?thesis
    using True from_utf16_plain [of "of_nat c" us] c by (simp add: encode_utf16_char_def)
next
  case False
  let ?d = "c - 0x10000"
  have d: "?d < 0x100000" using assms False by (auto simp: is_scalar_def)
  then have q: "?d div 0x400 < 0x400" by (simp add: less_mult_imp_div_less)
  have h: "unat (of_nat (0xD800 + ?d div 0x400) :: u16) = 0xD800 + ?d div 0x400"
    by (rule unat_of_nat_u16) (use q in simp)
  have "?d mod 0x400 < 0x400" by simp
  then have l: "unat (of_nat (0xDC00 + ?d mod 0x400) :: u16) = 0xDC00 + ?d mod 0x400"
    by (intro unat_of_nat_u16) linarith
  have "is_high (of_nat (0xD800 + ?d div 0x400))" using q unfolding is_high_def h by simp
  moreover have "is_low (of_nat (0xDC00 + ?d mod 0x400))"
    using \<open>?d mod 0x400 < 0x400\<close> unfolding is_low_def l by simp
  moreover have "0x10000 + ?d div 0x400 * 0x400 + ?d mod 0x400 = c"
    using False div_mult_mod_eq [of ?d "0x400"] by linarith
  ultimately show ?thesis
    using False by (simp add: encode_utf16_char_def h l del: of_nat_add)
qed

lemma from_utf16_encode: "\<forall>c \<in> set s. is_scalar c \<Longrightarrow> from_utf16_lossy (concat (map encode_utf16_char s)) = s"
  by (induction s) (simp_all add: from_utf16_encoded)

lemma encode_nonzero: "is_scalar c \<Longrightarrow> c \<noteq> 0 \<Longrightarrow> 0 \<notin> set (encode_utf16_char c)"
proof
  assume c: "is_scalar c" "c \<noteq> 0" and z: "0 \<in> set (encode_utf16_char c)"
  have e: "(0 :: u16) = of_nat n \<Longrightarrow> n < 0x10000 \<Longrightarrow> n = 0" for n
    using unat_of_nat_u16 [of n] by (metis unat_0)
  have d: "(c - 0x10000) div 0x400 < 0x400" using c(1) by (intro less_mult_imp_div_less) (auto simp: is_scalar_def)
  have m: "(c - 0x10000) mod 0x400 < 0x400" by simp
  show False
    using z e [of c] e [of "0xD800 + (c - 0x10000) div 0x400"] e [of "0xDC00 + (c - 0x10000) mod 0x400"] d m c(2)
    by (auto simp: encode_utf16_char_def simp del: of_nat_add split: if_splits)
qed

lemma read_wide_terminated: "0 \<notin> set us \<Longrightarrow> read_wide (us @ 0 # junk) = Some us"
  by (induction us) auto

lemma read_clipboard_encoded:
  assumes "\<forall>c \<in> set s. is_scalar c \<and> c \<noteq> 0"
    and "clipboard_opens v" "unicode_text v = Some (encode_wide s @ junk)"
  shows "read_clipboard v = Some s"
proof -
  have "0 \<notin> set (concat (map encode_utf16_char s))" using assms(1) encode_nonzero by fastforce
  then have "read_wide (encode_wide s @ junk) = Some (concat (map encode_utf16_char s))"
    by (simp add: encode_wide_def read_wide_terminated)
  then show ?thesis using assms by (simp add: read_clipboard_def from_utf16_encode)
qed

text \<open>What another program puts on the clipboard is read back exactly: any text without the zero
  character, encoded in UTF-16 with its terminator, whatever follows in memory.\<close>

theorem clipboard_roundtrip:
  assumes "\<forall>c \<in> set s. is_scalar c \<and> c \<noteq> 0"
    and "clipboard_opens v" "unicode_text v = Some (encode_wide s @ junk)"
  shows "read_clipboard v = Some s"
  using assms by (rule read_clipboard_encoded)

text \<open>Whatever the clipboard holds, the text read is one of scalar values: malformed UTF-16 becomes
  replacement characters.\<close>

lemma from_utf16_scalar: "c \<in> set (from_utf16_lossy us) \<Longrightarrow> is_scalar c"
proof (induction us rule: from_utf16_lossy.induct)
  case (2 u)
  then show ?case
    using unsigned_less [of u, where 'a = nat]
    by (auto simp: is_scalar_def replacement_def is_high_def is_low_def split: if_splits)
next
  case (3 u v us)
  have u: "unat u < 0x10000" using unsigned_less [of u, where 'a = nat] by simp
  show ?case
  proof (cases "is_high u \<and> is_low v \<and> c = 0x10000 + (unat u - 0xD800) * 0x400 + (unat v - 0xDC00)")
    case True
    then have "unat u - 0xD800 < 0x400" "unat v - 0xDC00 < 0x400"
      by (auto simp: is_high_def is_low_def)
    then show ?thesis using True by (auto simp: is_scalar_def)
  next
    case False
    then show ?thesis
      using 3 u by (auto simp: is_scalar_def replacement_def is_high_def is_low_def split: if_splits)
  qed
qed simp

subsection \<open>Reading the report\<close>

text \<open>The reader's side, from RFC 8259: a string literal behind its opening quote, with the escapes
  JSON knows. (Four-digit escapes are read as single code units.) The result is the text and the
  rest.\<close>

definition hex_value :: "nat \<Rightarrow> nat option" where
  "hex_value c =
     (if 48 \<le> c \<and> c \<le> 57 then Some (c - 48)
      else if 65 \<le> c \<and> c \<le> 70 then Some (c - 55)
      else if 97 \<le> c \<and> c \<le> 102 then Some (c - 87) else None)"

definition simple_escape :: "nat \<Rightarrow> nat option" where
  "simple_escape e = map_of [(34, 34), (92, 92), (47, 47), (98, 8), (102, 12), (110, 10), (114, 13), (116, 9)] e"

fun json_string :: "utext \<Rightarrow> (utext \<times> utext) option" where
  "json_string [] = None"
| "json_string (c # cs) =
     (if c = 34 then Some ([], cs)
      else if c < 32 then None
      else if c \<noteq> 92 then map_option (\<lambda>(t, r). (c # t, r)) (json_string cs)
      else (case cs of
          [] \<Rightarrow> None
        | e # es \<Rightarrow>
            if e = 117 then
              (case es of
                 a # b # c # d # fs \<Rightarrow>
                   (case (hex_value a, hex_value b, hex_value c, hex_value d) of
                      (Some w, Some x, Some y, Some z) \<Rightarrow>
                        map_option (\<lambda>(t, r). ((((w * 16 + x) * 16 + y) * 16 + z) # t, r)) (json_string fs)
                    | _ \<Rightarrow> None)
               | _ \<Rightarrow> None)
            else (case simple_escape e of
                    None \<Rightarrow> None
                  | Some v \<Rightarrow> map_option (\<lambda>(t, r). (v # t, r)) (json_string es))))"

text \<open>The characters whose debug form is also their JSON form.\<close>

definition json_safe :: "(nat \<Rightarrow> bool) \<Rightarrow> nat \<Rightarrow> bool" where
  "json_safe shown c \<longleftrightarrow> c = 9 \<or> c = 10 \<or> c = 13 \<or> printable shown c"

lemma json_escape_safe:
  assumes "json_safe shown c" "c \<noteq> 0"
  shows "json_string (escape_debug shown c @ rest) = map_option (\<lambda>(t, r). (c # t, r)) (json_string rest)"
  using assms by (auto simp: escape_debug_def json_safe_def simple_escape_def printable_def)

lemma json_escape_unsafe:
  assumes "\<not> json_safe shown c"
  shows "json_string (escape_debug shown c @ rest) = None"
  using assms
  by (auto simp: escape_debug_def json_safe_def simple_escape_def chars_def hex_value_def printable_def
      split: list.split option.split)

text \<open>A JSON reader gets the clipboard text back from its place in the report exactly when every
  character is printable, a tab or a line break; the debug escapes for all other characters are not
  JSON, so with one of them the report cannot be parsed.\<close>

theorem report_string_readable:
  "json_string (tl (debug_str shown s) @ rest) =
     (if list_all (json_safe shown) s then Some (s, rest) else None)"
proof -
  have "json_string (concat (map (escape_debug shown) s) @ 34 # rest) =
      (if list_all (json_safe shown) s then Some (s, rest) else None)"
  proof (induction s)
    case (Cons c s)
    have "c \<noteq> 0" if "json_safe shown c" using that
      by (cases "c = 0") (auto simp: json_safe_def printable_def)
    then show ?case
      using Cons by (cases "json_safe shown c") (simp_all add: json_escape_safe json_escape_unsafe)
  qed simp
  then show ?thesis by (simp add: debug_str_def)
qed

definition sample_view :: "utext \<Rightarrow> clipboard_view" where
  "sample_view t = \<lparr>owner_pid = 7, clipboard_opens = True, unicode_text = Some (encode_wide t),
     unix_nanos = 5, pipe_opens = True\<rparr>"

theorem clipboard_roundtrip_witness:
  "read_clipboard (sample_view [104, 0x1F600]) = Some [104, 0x1F600]"
  by (rule clipboard_roundtrip [where junk = "[]"]) (simp_all add: sample_view_def is_scalar_def)

subsection \<open>What is reported\<close>

text \<open>The changes of a sequence of texts: neighbours after empty texts and repetitions are dropped.\<close>

definition text_changes :: "utext \<Rightarrow> utext list \<Rightarrow> (utext \<times> utext) list" where
  "text_changes prev ts = (let xs = remdups_adj (prev # filter (\<lambda>t. t \<noteq> []) ts) in zip xs (tl xs))"

lemma text_changes_simps [simp]:
  "text_changes p [] = []"
  "text_changes p (t # ts) =
     (if t = [] \<or> t = p then text_changes p ts else (p, t) # text_changes t ts)"
  by (auto simp: text_changes_def remdups_adj_Cons split: list.split)

definition report_of :: "(nat \<Rightarrow> bool) \<Rightarrow> clipboard_view \<times> utext \<times> utext \<Rightarrow> utext" where
  "report_of shown z =
     (case z of (v, p, n) \<Rightarrow> report shown (owner_pid v) n p (of_int (unix_nanos v)))"

text \<open>C40. While the pipe can be opened, the helper reports exactly the changes of the clipboard's text:
  one report per change, in order, naming the text before and after; updates that leave the text
  as it was, or leave none, are not reported.\<close>

theorem clipboard_reports_changes:
  assumes "\<forall>v \<in> set vs. 0 \<le> unix_nanos v \<and> pipe_opens v" "map read_clipboard vs = map Some ts"
  shows "\<exists>h' zs. message_loop shown (map ClipboardUpdate vs) h = Some h' \<and>
    reports h' = reports h @ map (report_of shown) zs \<and>
    map snd zs = text_changes (prev_content h) ts \<and> subseq (map fst zs) vs"
  using assms
proof (induction vs arbitrary: ts h)
  case (Cons v vs)
  then obtain t ts' where ts: "ts = t # ts'" "read_clipboard v = Some t" "map read_clipboard vs = map Some ts'"
    by (cases ts) auto
  let ?changed = "t \<noteq> prev_content h \<and> t \<noteq> []"
  let ?h = "if ?changed then \<lparr>prev_content = t, reports = reports h @ [report_of shown (v, prev_content h, t)]\<rparr>
      else h"
  have step: "window_proc shown (ClipboardUpdate v) h = Some ?h"
    using Cons.prems(1) ts(2) by (simp add: window_proc_def clipboard_update_def report_of_def Let_def)
  obtain h' zs where IH: "message_loop shown (map ClipboardUpdate vs) ?h = Some h'"
    "reports h' = reports ?h @ map (report_of shown) zs"
    "map snd zs = text_changes (prev_content ?h) ts'" "subseq (map fst zs) vs"
    using Cons.IH [of ts' ?h] Cons.prems(1) ts(3) by auto
  let ?zs = "if ?changed then (v, prev_content h, t) # zs else zs"
  have "reports h' = reports h @ map (report_of shown) ?zs"
    "map snd ?zs = text_changes (prev_content h) ts" "subseq (map fst ?zs) (v # vs)"
    using IH ts(1) by auto
  then show ?case using step IH(1) by (auto intro!: exI [of _ h'] exI [of _ ?zs])
qed simp

theorem clipboard_reports_changes_witness:
  "\<exists>h' zs. message_loop (\<lambda>_. True) (map ClipboardUpdate [sample_view [65], sample_view [65], sample_view [66]])
       \<lparr>prev_content = [], reports = []\<rparr> = Some h' \<and>
     reports h' = map (report_of (\<lambda>_. True)) zs \<and> map snd zs = [([], [65]), ([65], [66])]"
proof -
  have r: "read_clipboard (sample_view t) = Some t" if "\<forall>c \<in> set t. is_scalar c \<and> c \<noteq> 0" for t
    using that by (rule read_clipboard_encoded [where junk = "[]"]) (simp_all add: sample_view_def)
  have "\<forall>v \<in> set [sample_view [65], sample_view [65], sample_view [66]]. 0 \<le> unix_nanos v \<and> pipe_opens v"
    "map read_clipboard [sample_view [65], sample_view [65], sample_view [66]] = map Some [[65], [65], [66]]"
    by (simp_all add: r is_scalar_def) (simp_all add: sample_view_def)
  note run = clipboard_reports_changes [OF this, of "\<lambda>_. True" "\<lparr>prev_content = [], reports = []\<rparr>"]
  have "text_changes [] [[65], [65], [66]] = [([], [65]), ([65], [66])]" by simp
  with run show ?thesis
    by (elim exE conjE) (intro exI conjI, assumption, simp_all only: helper.simps append_Nil)
qed

text \<open>A change that happens while the pipe cannot be opened is lost: the text counts as reported.\<close>

lemma lost_change:
  assumes "\<not> pipe_opens v" "read_clipboard v = Some t" "0 \<le> unix_nanos v"
    and "clipboard_update shown v h = Some h1" "read_clipboard v' = Some t"
  shows "reports h1 = reports h \<and> clipboard_update shown v' h1 = Some h1"
  using assms by (auto simp: clipboard_update_def Let_def split: if_splits)

end
