(* ===== verification/TrustWindows.thy ===== *)
theory TrustWindows
  imports Trust
begin

section \<open>The trust cache of the Windows build\<close>

text \<open>
  The Windows half of \<^verbatim>\<open>trust_cache.rs\<close>: the user's lists become in-memory sets of
  lower-case hashes at start-up, and adding an executable extends both the file and the set. The
  hash comes from a PowerShell command; \<open>ps\<close> gives the output of a successful run of a command. The
  records of the lists are those of \<open>Trust\<close>; creating their directory is part of \<open>db_writable\<close>.
\<close>

subsection \<open>Hashing a file\<close>

abbreviation quote :: char where
  "quote \<equiv> CHR 0x27"

definition hash_command :: "string \<Rightarrow> string" where
  "hash_command path = ''(Get-FileHash '' @ [quote] @ path @ [quote] @ '' -Algorithm SHA256).Hash''"

definition get_file_sha256_windows :: "(string \<Rightarrow> string option) \<Rightarrow> string \<Rightarrow> string option" where
  "get_file_sha256_windows ps path =
     (case ps (hash_command path) of
        None \<Rightarrow> None
      | Some stdout \<Rightarrow>
          let hash_str = to_lowercase (trim stdout)
          in if hash_str = '''' then None else Some hash_str)"

subsection \<open>Start-up and additions\<close>

definition hash_set :: "trust_file \<Rightarrow> string list" where
  "hash_set f = fold (\<lambda>e. hs_insert (to_lowercase (te_sha256 e))) (file_entries f) []"

definition initialize_trust_cache_windows :: "trust_state \<Rightarrow> trust_state" where
  "initialize_trust_cache_windows t =
     t\<lparr>allow_set := Some (hash_set (allow_file t)), deny_set := Some (hash_set (deny_file t))\<rparr>"

definition add_to_user_allowlist_windows ::
  "(string \<Rightarrow> string option) \<Rightarrow> env \<Rightarrow> string \<Rightarrow> trust_state \<Rightarrow> trust_state" where
  "add_to_user_allowlist_windows ps w path t =
     (case get_file_sha256_windows ps path of
        None \<Rightarrow> t
      | Some hash \<Rightarrow>
          let t1 = (if \<not> has_path path (allow_file t) \<and> db_writable w
                    then t\<lparr>allow_file := Entries (file_entries (allow_file t) @
                            [\<lparr>te_path = path, te_sha256 = hash\<rparr>])\<rparr>
                    else t)
          in t1\<lparr>allow_set := map_option (hs_insert hash) (allow_set t1)\<rparr>)"

definition add_to_user_denylist_windows ::
  "(string \<Rightarrow> string option) \<Rightarrow> env \<Rightarrow> string \<Rightarrow> trust_state \<Rightarrow> trust_state" where
  "add_to_user_denylist_windows ps w path t =
     (case get_file_sha256_windows ps path of
        None \<Rightarrow> t
      | Some hash \<Rightarrow>
          let t1 = (if \<not> has_path path (deny_file t) \<and> db_writable w
                    then t\<lparr>deny_file := Entries (file_entries (deny_file t) @
                            [\<lparr>te_path = path, te_sha256 = hash\<rparr>])\<rparr>
                    else t)
          in t1\<lparr>deny_set := map_option (hs_insert hash) (deny_set t1)\<rparr>)"

subsection \<open>What the lists remember\<close>

lemma fold_hs_insert: "set (fold (\<lambda>e. hs_insert (f e)) es acc) = f ` set es \<union> set acc"
  by (induction es arbitrary: acc) auto

lemma set_hash_set: "set (hash_set f) = (\<lambda>e. to_lowercase (te_sha256 e)) ` set (file_entries f)"
  by (simp add: hash_set_def fold_hs_insert)

lemma hash_lower:
  "get_file_sha256_windows ps path = Some h \<Longrightarrow> to_lowercase h = h"
  by (auto simp: get_file_sha256_windows_def Let_def split: option.splits if_splits)

text \<open>On Windows a denied executable counts as denied at once, whatever case its hash is written in;
  after a restart it still does if its hash is in the file, which happens when its path was not listed
  before and the file could be written. A listed executable that has changed is denied only until
  the next restart.\<close>

theorem windows_denylist:
  assumes "get_file_sha256_windows ps path = Some h" "deny_set t \<noteq> None"
  shows "(is_hash_denylisted (add_to_user_denylist_windows ps w path t) x \<longleftrightarrow>
      to_lowercase x = h \<or> is_hash_denylisted t x) \<and>
    (is_hash_denylisted (initialize_trust_cache_windows (add_to_user_denylist_windows ps w path t)) x \<longleftrightarrow>
      is_hash_denylisted (initialize_trust_cache_windows t) x \<or>
      (\<not> has_path path (deny_file t) \<and> db_writable w \<and> to_lowercase x = h))"
  using assms hash_lower [OF assms(1)]
  by (auto simp: add_to_user_denylist_windows_def Let_def is_hash_denylisted_def
      initialize_trust_cache_windows_def set_hash_set)

text \<open>The allowlist behaves alike.\<close>

lemma windows_allowlist:
  fixes w :: env
  assumes "get_file_sha256_windows ps path = Some h" "allow_set t \<noteq> None"
  shows "is_hash_allowlisted (add_to_user_allowlist_windows ps w path t) x \<longleftrightarrow>
    to_lowercase x = h \<or> is_hash_allowlisted t x"
  using assms(1,2)
  by (auto simp: add_to_user_allowlist_windows_def Let_def is_hash_allowlisted_def)

definition sample_ps :: "string \<Rightarrow> string option" where
  "sample_ps cmd = (if cmd = hash_command ''C:/a.exe'' then Some ''ABC12 '' else None)"

lemma sample_ps_hash: "get_file_sha256_windows sample_ps ''C:/a.exe'' = Some ''abc12''"
  by code_simp

theorem windows_denylist_witness:
  "is_hash_denylisted (add_to_user_denylist_windows sample_ps quiet_env ''C:/a.exe''
     (initialize_trust_cache_windows (trust_at_start Absent Absent))) ''ABC12''"
proof -
  have low: "to_lowercase ''ABC12'' = ''abc12''" by code_simp
  have "deny_set (initialize_trust_cache_windows (trust_at_start Absent Absent)) \<noteq> None"
    by (simp add: initialize_trust_cache_windows_def)
  from windows_denylist [OF sample_ps_hash this, of quiet_env "''ABC12''"] low show ?thesis by simp
qed

subsection \<open>The path inside the command\<close>

text \<open>How PowerShell reads a single-quoted literal, from behind the opening quote: a doubled quote
  stands for one, a single one ends the literal. The result is the text and what follows.\<close>

fun ps_literal :: "string \<Rightarrow> (string \<times> string) option" where
  "ps_literal [] = None"
| "ps_literal (c # cs) =
     (if c \<noteq> quote then map_option (\<lambda>(t, r). (c # t, r)) (ps_literal cs)
      else case cs of
             d # ds \<Rightarrow> if d = quote then map_option (\<lambda>(t, r). (quote # t, r)) (ps_literal ds)
                        else Some ('''', cs)
           | [] \<Rightarrow> Some ('''', []))"

lemma ps_literal_plain:
  "quote \<notin> set p \<Longrightarrow> rest = [] \<or> hd rest \<noteq> quote \<Longrightarrow> ps_literal (p @ quote # rest) = Some (p, rest)"
  by (induction p) (auto split: list.split)

lemma ps_literal_text: "ps_literal s = Some (t, r) \<Longrightarrow> length t + length r < length s"
  by (induction s arbitrary: t r rule: ps_literal.induct) (fastforce split: if_splits list.splits)+

lemma ps_literal_quote:
  "ps_literal (p @ quote # rest) = Some (t, r) \<Longrightarrow> quote \<in> set p \<Longrightarrow> (t, r) \<noteq> (p, rest)"
proof (induction p arbitrary: t r rule: ps_literal.induct)
  case (2 c cs)
  show ?case
  proof (cases "c = quote")
    case False
    then show ?thesis using 2 by auto
  next
    case True
    show ?thesis
    proof (cases cs)
      case (Cons d ds)
      then show ?thesis
        using True "2.prems"(1) ps_literal_text [of "ds @ quote # rest"]
        by (auto split: if_splits)
    qed (use True "2.prems"(1) in \<open>auto split: list.splits if_splits dest: ps_literal_text\<close>)
  qed
qed simp

text \<open>PowerShell hashes the intended file exactly when its path has no quote: the path is pasted
  between quotes unescaped, so a path with a quote is read as another text, and what follows its
  quote is run as part of the command.\<close>

theorem hash_command_reads_path:
  "ps_literal (drop 15 (hash_command path)) = Some (path, '' -Algorithm SHA256).Hash'') \<longleftrightarrow>
     quote \<notin> set path"
proof -
  have "drop 15 (hash_command path) = path @ quote # '' -Algorithm SHA256).Hash''"
    by (simp add: hash_command_def)
  then show ?thesis using ps_literal_plain [of path] ps_literal_quote by fastforce
qed

end
