(* ===== verification/WindowsRules.thy ===== *)
theory WindowsRules
  imports FileRules BehaviourRules Lifecycle TrustWindows
begin

section \<open>The rules of the Windows build\<close>

text \<open>
  The parts of \<^verbatim>\<open>heuristics.rs\<close> and \<^verbatim>\<open>os_utils.rs\<close> compiled for Windows: how a
  signal request becomes system calls, the console prompt, the suspension with its session test, and
  the four handlers with Windows branches. The engine's \<open>signals\<close> remain the requests
  (\<^verbatim>\<open>os_utils\<close> is called with the PID); \<open>realise\<close> turns a request into the calls made.
  Handlers without a Windows branch are those of the Unix theories with the suspension of this one.
\<close>

subsection \<open>System calls\<close>

text \<open>What the system grants: which processes can be opened, whether the undocumented functions are
  found in \<^verbatim>\<open>ntdll\<close>, the console session (all ones: none), and the message box's
  result and response.\<close>

record win_os =
  can_open :: "u32 \<Rightarrow> bool"
  ntdll_loaded :: bool
  suspend_found :: bool
  resume_found :: bool
  console_session :: u32
  box_result :: int
  box_response :: int
  power_shell :: "string \<Rightarrow> string option"

datatype win_call =
    OpenProcess u32
  | TerminateProcess u32 u32
  | NtSuspendProcess u32
  | NtResumeProcess u32
  | CloseHandle u32

definition terminate_process_windows :: "win_os \<Rightarrow> u32 \<Rightarrow> win_call list" where
  "terminate_process_windows wo pid =
     OpenProcess pid # (if can_open wo pid then [TerminateProcess pid 1, CloseHandle pid] else [])"

definition suspend_process_windows :: "win_os \<Rightarrow> u32 \<Rightarrow> win_call list" where
  "suspend_process_windows wo pid =
     OpenProcess pid #
     (if can_open wo pid then
        (if ntdll_loaded wo \<and> suspend_found wo then [NtSuspendProcess pid] else []) @ [CloseHandle pid]
      else [])"

definition release_process_windows :: "win_os \<Rightarrow> u32 \<Rightarrow> win_call list" where
  "release_process_windows wo pid =
     OpenProcess pid #
     (if can_open wo pid then
        (if ntdll_loaded wo \<and> resume_found wo then [NtResumeProcess pid] else []) @ [CloseHandle pid]
      else [])"

fun realise :: "win_os \<Rightarrow> signal \<times> int \<Rightarrow> win_call list" where
  "realise wo (SIGKILL, p) = terminate_process_windows wo (of_int p)"
| "realise wo (SIGSTOP, p) = suspend_process_windows wo (of_int p)"
| "realise wo (SIGCONT, p) = release_process_windows wo (of_int p)"

subsection \<open>Session and prompt\<close>

definition get_process_env_windows :: "u32 \<Rightarrow> string \<Rightarrow> string option" where
  "get_process_env_windows pid var_name = None"

definition get_process_env_all_windows :: "u32 \<Rightarrow> (string, string) dmap" where
  "get_process_env_all_windows pid = []"

definition has_gui :: "win_os \<Rightarrow> bool" where
  "has_gui wo \<longleftrightarrow> console_session wo \<noteq> 0xFFFFFFFF"

definition prompt_text :: "u32 \<Rightarrow> string \<Rightarrow> string \<Rightarrow> string" where
  "prompt_text pid path reason =
     ''Process '' @ [quote] @ path @ [quote] @ '' (PID: '' @ show_nat (unat pid) @
     '') was suspended.'' @ [CHR 0x0A, CHR 0x0A] @ ''Reason: '' @ reason @ [CHR 0x0A, CHR 0x0A] @
     ''Do you want to ALLOW this process to continue?'' @ [CHR 0x0A, CHR 0x0A] @
     ''(Click '' @ [quote] @ ''No'' @ [quote] @ '' or let it timeout to terminate)''"

text \<open>\<^verbatim>\<open>CString::new\<close> fails on an interior zero, and the \<^verbatim>\<open>unwrap\<close> then
  panics: \<^term>\<open>None\<close>. \<open>IDYES\<close> is 6.\<close>

definition trigger_desktop_prompt_windows :: "win_os \<Rightarrow> u32 \<Rightarrow> string \<Rightarrow> string \<Rightarrow> bool option" where
  "trigger_desktop_prompt_windows wo pid path reason =
     (if \<not> has_gui wo then Some False
      else if CHR 0x00 \<in> set (prompt_text pid path reason) then None
      else Some (box_result wo \<noteq> 0 \<and> box_response wo = 6))"

text \<open>A panic of the prompt counts as a denial (\<^verbatim>\<open>unwrap_or(false)\<close>).\<close>

definition run_desktop_prompt_windows ::
  "win_os \<Rightarrow> env \<Rightarrow> process_key \<Rightarrow> string \<Rightarrow> string \<Rightarrow> engine \<Rightarrow> engine option" where
  "run_desktop_prompt_windows wo w root_key root_path reason e =
     (let allowed = (case trigger_desktop_prompt_windows wo (pk_pid root_key) root_path reason of
            None \<Rightarrow> False | Some b \<Rightarrow> b) in
      case collect_descendants_static (children_map e) root_key of
        None \<Rightarrow> None
      | Some below \<Rightarrow>
          let pids_to_resolve = below @ [pk_pid root_key] in
          if allowed then
            let e1 = e\<lparr>trust := add_to_user_allowlist_windows (power_shell wo) w root_path (trust e)\<rparr>;
                e2 = fold release_process pids_to_resolve e1
            in Some (e2\<lparr>process_map := dm_alter root_key clear_threat (process_map e2)\<rparr>)
          else Some (fold terminate_process pids_to_resolve e))"

definition suspend_process_tree_windows ::
  "win_os \<Rightarrow> env \<Rightarrow> process_key \<Rightarrow> string \<Rightarrow> string \<Rightarrow> string \<Rightarrow> engine \<Rightarrow> engine option" where
  "suspend_process_tree_windows wo w root_key reason category rule_path e =
     (case collect_descendants (children_map e) root_key of
        None \<Rightarrow> None
      | Some below \<Rightarrow>
          let pids_to_suspend = below @ [pk_pid root_key];
              e1 = (if audit_mode e then e else fold suspend_process pids_to_suspend e);
              action = (if audit_mode e then ''LOGGED'' else ''CONTAINED'');
              e2 = write_structured_alert w (pk_pid root_key) ''ALERT'' category rule_path action
                     reason e1;
              root_path = (case dm_get (process_map e) root_key of
                None \<Rightarrow> ''unknown'' | Some s \<Rightarrow> image_path s)
          in Some (if \<not> audit_mode e \<and> has_gui wo
                   then spawn_task w (DesktopPrompt root_key root_path reason) e2
                   else e2))"

subsection \<open>Reads: ownership\<close>

definition backslashed :: "string \<Rightarrow> string \<Rightarrow> string" where
  "backslashed a b = a @ [CHR 0x5C] @ b"

definition is_authorized_owner :: "u32 \<Rightarrow> string \<Rightarrow> string \<Rightarrow> bool" where
  "is_authorized_owner category file_lower accessor_lower \<longleftrightarrow>
     (if category = 0x01 then
        (contains file_lower (backslashed ''google'' ''chrome'') \<and> ends_with accessor_lower ''chrome.exe'') \<or>
        (contains file_lower (backslashed ''microsoft'' ''edge'') \<and> ends_with accessor_lower ''msedge.exe'') \<or>
        (contains file_lower ''brave'' \<and> ends_with accessor_lower ''brave.exe'')
      else if category = 0x04 then
        (contains file_lower ''exodus'' \<and> contains accessor_lower ''exodus.exe'') \<or>
        (contains file_lower ''electrum'' \<and> contains accessor_lower ''electrum.exe'') \<or>
        (contains file_lower ''atomic'' \<and> contains accessor_lower ''atomicwallet.exe'')
      else False)"

definition ownership_reason :: string where
  "ownership_reason = ''Unauthorized credential/wallet access attempt by non-owner process''"

definition ownership_breach :: "u32 \<Rightarrow> string \<Rightarrow> process_state \<Rightarrow> bool" where
  "ownership_breach category file_path s \<longleftrightarrow>
     \<not> is_authorized_owner category (to_lowercase file_path) (to_lowercase (image_path s)) \<and>
     \<not> ends_with (to_lowercase (image_path s)) ''explorer.exe'' \<and> \<not> is_untrusted s"

definition read_verdict_windows :: "u32 \<Rightarrow> string \<Rightarrow> process_state \<Rightarrow> string option" where
  "read_verdict_windows category file_path s =
     (if ownership_breach category file_path s then Some ownership_reason
      else read_verdict file_path s)"

definition file_read_windows ::
  "win_os \<Rightarrow> env \<Rightarrow> telemetry_header \<Rightarrow> file_read_details \<Rightarrow> engine \<Rightarrow> engine option" where
  "file_read_windows wo w h d e =
     (let file_path = cstr (fr_file_path d); cfg = config_cell e in
      if is_path_excluded cfg file_path then Some e
      else
        let category = resolve_category cfg file_path in
        if category = 0 then Some e
        else (case find_live (process_map e) (hdr_pid h) of
                None \<Rightarrow> Some e
              | Some (key, state) \<Rightarrow>
                  let e1 = note_read w key state category file_path e
                  in (case read_verdict_windows category file_path (record_read category file_path state) of
                        None \<Rightarrow> Some e1
                      | Some reason \<Rightarrow>
                          suspend_process_tree_windows wo w key reason (read_category_name category)
                            file_path e1)))"

subsection \<open>Connections: the domain list\<close>

definition is_proxy_or_vpn :: "string \<Rightarrow> bool" where
  "is_proxy_or_vpn dest_ip \<longleftrightarrow>
     starts_with dest_ip ''127.'' \<or> starts_with dest_ip ''10.'' \<or>
     starts_with dest_ip ''192.168.'' \<or> starts_with dest_ip ''172.''"

definition unauthorized_domain :: "config \<Rightarrow> string \<Rightarrow> bool" where
  "unauthorized_domain cfg dest_ip \<longleftrightarrow> \<not> is_domain_allowed cfg dest_ip \<and> \<not> is_proxy_or_vpn dest_ip"

definition unauthorized_reason :: string where
  "unauthorized_reason = ''Package manager install tree connected to unauthorized domain''"

definition network_connect_windows ::
  "win_os \<Rightarrow> env \<Rightarrow> telemetry_header \<Rightarrow> network_connect_details \<Rightarrow> engine \<Rightarrow> engine option" where
  "network_connect_windows wo w h d e =
     (case find_live (process_map e) (hdr_pid h) of
        None \<Rightarrow> Some e
      | Some (key, state) \<Rightarrow>
          let e1 = e\<lparr>process_map := dm_alter key note_connect (process_map e)\<rparr>;
              dest_ip = cstr (nc_destination_ip d);
              r0 = (if category_flags state \<noteq> 0 then Some forward_path_reason else None);
              r1 = (if unauthorized_domain (config_cell e) dest_ip then Some unauthorized_reason else r0)
          in (case r1 of
                None \<Rightarrow> Some e1
              | Some reason \<Rightarrow>
                  suspend_process_tree_windows wo w key reason
                    (connect_category_name (category_flags state)) '''' e1))"

subsection \<open>Opens: the package manager's own files\<close>

definition is_own_config :: "string \<Rightarrow> string \<Rightarrow> bool" where
  "is_own_config path_lower accessor_lower \<longleftrightarrow>
     (contains path_lower ''.npmrc'' \<and> contains accessor_lower ''npm'') \<or>
     (contains path_lower (backslashed ''.cargo'' ''credentials'') \<and> contains accessor_lower ''cargo'')"

text \<open>The check of the depth and the image keeps its reference to the entry during the termination.\<close>

definition file_open_windows ::
  "env \<Rightarrow> telemetry_header \<Rightarrow> file_open_details \<Rightarrow> engine \<Rightarrow> engine option" where
  "file_open_windows w h d e =
     (let file_path = cstr (fo_file_path d) in
      case find_live (process_map e) (hdr_pid h) of
        None \<Rightarrow> Some e
      | Some (key, state) \<Rightarrow>
          if is_install_context state then
            if is_container_socket (to_lowercase file_path) then
              terminate_threat_pkm w key
                (''Package install process attempted to access container runtime socket: ''
                  @ file_path) ''docker_socket_access'' file_path e
            else if is_credential_path (config_cell e) file_path then
              if depth state \<noteq> 0 \<or>
                 \<not> is_own_config (to_lowercase file_path) (to_lowercase (image_path state)) then
                terminate_holding w key
                  (''Package manager child script or unauthorized install process attempted to read credentials: ''
                    @ file_path) ''credential_access'' file_path e
              else Some e
            else Some e
          else Some e)"

subsection \<open>Creation\<close>

definition is_profile_redirection :: "config \<Rightarrow> string \<Rightarrow> string \<Rightarrow> bool" where
  "is_profile_redirection cfg path cmd \<longleftrightarrow>
     list_ex (\<lambda>b. ends_with (to_lowercase path) (to_lowercase b)) (browser_executables cfg) \<and>
     (let cmd_lower = to_lowercase cmd in
      (contains cmd_lower ''--user-data-dir'' \<or> contains cmd_lower ''--profile-directory'') \<and>
      (contains cmd_lower (backslashed ''users'' ''public'') \<or> contains cmd_lower ''temp'' \<or>
       contains cmd_lower ''desktop'' \<or> contains cmd_lower (backslashed ''appdata'' (backslashed ''local'' ''temp''))))"

definition is_interpreter_windows :: "config \<Rightarrow> string \<Rightarrow> bool" where
  "is_interpreter_windows cfg path \<longleftrightarrow>
     list_ex (\<lambda>i. ends_with (to_lowercase path) (to_lowercase i) \<or>
        ends_with (to_lowercase path) (to_lowercase i @ ''.exe'')) (script_interpreters cfg)"

definition has_inline_flag_windows :: "string \<Rightarrow> bool" where
  "has_inline_flag_windows cmd_lower \<longleftrightarrow>
     list_ex (contains cmd_lower)
       ['' -c '', '' -command '', '' -encodedcommand '', '' /c '', '' -e '', '' -r '', '' -eval '']"

text \<open>There is no \<^verbatim>\<open>/proc\<close>, so standard input never counts as a terminal.\<close>

definition create_untrusted_windows :: "config \<Rightarrow> string \<Rightarrow> string \<Rightarrow> bool" where
  "create_untrusted_windows cfg path cmd \<longleftrightarrow>
     (let u0 = is_interpreter_windows cfg path \<and> has_inline_flag_windows (to_lowercase cmd);
          u1 = (if is_path_excluded cfg path then False else u0);
          u2 = (if is_trusted_vendor cfg assumed_signer then False else u1)
      in u2 \<or> matches_interpreter cfg path \<or> matches_shell cfg path)"

definition new_process_state_windows ::
  "env \<Rightarrow> config \<Rightarrow> process_map \<Rightarrow> telemetry_header \<Rightarrow> process_create_details \<Rightarrow> process_state" where
  "new_process_state_windows w cfg pm h d =
     (new_process_state w cfg pm h d)\<lparr>
        is_untrusted := create_untrusted_windows cfg (cstr (pc_child_image_path d))
          (cstr (pc_child_command_line d)),
        is_naked_tty := False\<rparr>"

definition sigma_check_windows ::
  "win_os \<Rightarrow> env \<Rightarrow> process_key \<Rightarrow> string \<Rightarrow> string \<Rightarrow> engine \<Rightarrow> engine option" where
  "sigma_check_windows wo w key path cmd e =
     (case evaluate (sigma_rules e) \<lparr>ev_category = ''process_creation'',
             ev_fields = [(''Image'', path), (''CommandLine'', cmd)]\<rparr> of
        None \<Rightarrow> Some e
      | Some rule \<Rightarrow>
          suspend_process_tree_windows wo w key (''Sigma correlation matched: '' @ rule_title rule)
            ''sigma_alert'' path e)"

definition redirection_reason :: string where
  "redirection_reason = ''hVNC browser profile redirection bypass detected''"

definition process_create_windows ::
  "win_os \<Rightarrow> env \<Rightarrow> telemetry_header \<Rightarrow> process_create_details \<Rightarrow> engine \<Rightarrow> engine option" where
  "process_create_windows wo w h d e =
     (let path = cstr (pc_child_image_path d);
          cmd = cstr (pc_child_command_line d);
          key = \<lparr>pk_pid = pc_child_pid d, pk_start_time = timestamp_ns h\<rparr>
      in if is_profile_redirection (config_cell e) path cmd then
           terminate_threat_pkm w key redirection_reason ''browser_db'' path e
         else
           let s = new_process_state_windows w (config_cell e) (process_map e) h d;
               e2 = e\<lparr>ffi_log := ffi_log e @ [UpdateProcessThreshold (pc_child_pid d) (timestamp_ns h) 1]\<rparr>;
               (s', e3) = check_spoof w s e2;
               e4 = register_process w (hdr_pid h) s' e3;
               e5 = (if is_untrusted s then e4\<lparr>tasks := tasks e4 @ [YaraScan key path]\<rparr> else e4)
           in sigma_check_windows wo w key path cmd e5)"

subsection \<open>The Windows operations keep the contract\<close>

text \<open>The Windows suspension is the Unix one up to the queued prompt.\<close>

lemma suspend_windows_base: "suspend_process_tree_windows wo w k reason cat r e = Some e' \<Longrightarrow> base_ok e e'"
  by (auto simp: suspend_process_tree_windows_def engine_simps contract_defs Let_def
      split: option.splits if_splits)

lemma suspend_windows_silent: "suspend_process_tree_windows wo w k reason cat r e = Some e' \<Longrightarrow> silent e e'"
  by (auto simp: suspend_process_tree_windows_def contract_defs Let_def split: option.splits if_splits)

lemma suspend_windows_timed:
  assumes "timed e" "pk_start_time k \<noteq> 0"
  obtains e' where "suspend_process_tree_windows wo w k reason cat r e = Some e'" "timed e'"
    "process_map e' = process_map e"
    "signals e' = signals e @ (if audit_mode e then [] else [(SIGSTOP, sint (pk_pid k))])"
  using assms timed_collect [OF assms]
  by (cases "\<not> audit_mode e \<and> has_gui wo"; cases "on_runtime w")
    (auto simp: suspend_process_tree_windows_def engine_simps signalled_def Let_def timed_def)

lemma lawful_suspend_windows:
  "base_ok e f \<Longrightarrow> silent e f \<Longrightarrow> lawful e (suspend_process_tree_windows wo w k reason cat r f)"
  by (rule lawful_trans [of e f])
    (auto simp: lawful_def dest: suspend_windows_base suspend_windows_silent)

lemma returns_suspend_windows:
  "timed e \<Longrightarrow> pk_start_time k \<noteq> 0 \<Longrightarrow> returns (suspend_process_tree_windows wo w k reason cat r e)"
  unfolding returns_def by (metis suspend_windows_timed)

lemma file_read_windows_lawful: "lawful e (file_read_windows wo w h d e)"
  by (auto simp: file_read_windows_def Let_def intro!: lawful_suspend_windows lawful_Some note_read_base
      note_read_silent split: option.split)

lemma file_read_windows_returns: "timed e \<Longrightarrow> returns (file_read_windows wo w h d e)"
  by (auto simp: file_read_windows_def Let_def intro!: returns_suspend_windows dest: timed_live_key
      split: option.split)

lemma network_connect_windows_lawful: "lawful e (network_connect_windows wo w h d e)"
  by (auto simp: network_connect_windows_def Let_def intro!: lawful_suspend_windows lawful_Some
      note_connect_base note_connect_silent split: option.split)

lemma network_connect_windows_returns: "timed e \<Longrightarrow> returns (network_connect_windows wo w h d e)"
  by (auto simp: network_connect_windows_def Let_def intro!: returns_suspend_windows timed_alter
      dest: timed_live_key split: option.split)

lemma file_open_windows_lawful: "lawful e (file_open_windows w h d e)"
  by (auto simp: file_open_windows_def Let_def intro!: lawful_rules split: option.split)

lemma file_open_windows_returns: "timed e \<Longrightarrow> returns (file_open_windows w h d e)"
  by (auto simp: file_open_windows_def Let_def intro!: returns_rules dest: timed_live_key
      split: option.split)

text \<open>A creation without profile redirection registers the process as on Unix, with its own verdict.\<close>

definition create_entry_windows ::
  "env \<Rightarrow> telemetry_header \<Rightarrow> process_create_details \<Rightarrow> engine \<Rightarrow> engine" where
  "create_entry_windows w h d e =
     (let s = new_process_state_windows w (config_cell e) (process_map e) h d;
          e2 = e\<lparr>ffi_log := ffi_log e @ [UpdateProcessThreshold (pc_child_pid d) (timestamp_ns h) 1]\<rparr>;
          (s', e3) = check_spoof w s e2;
          e4 = register_process w (hdr_pid h) s' e3
      in if is_untrusted s
         then e4\<lparr>tasks := tasks e4 @ [YaraScan \<lparr>pk_pid = pc_child_pid d, pk_start_time = timestamp_ns h\<rparr>
                   (cstr (pc_child_image_path d))]\<rparr>
         else e4)"

definition stored_state_windows ::
  "env \<Rightarrow> telemetry_header \<Rightarrow> process_create_details \<Rightarrow> engine \<Rightarrow> process_state" where
  "stored_state_windows w h d e =
     (let s = new_process_state_windows w (config_cell e) (process_map e) h d
      in if is_spoofed s then s\<lparr>is_untrusted := True\<rparr> else s)"

lemma new_process_windows_simps [simp]:
  "ps_key (new_process_state_windows w cfg pm h d) =
     \<lparr>pk_pid = pc_child_pid d, pk_start_time = timestamp_ns h\<rparr>"
  "\<not> terminated (new_process_state_windows w cfg pm h d)"
  by (simp_all add: new_process_state_windows_def)

lemma create_windows_simps [simp]:
  "process_map (create_entry_windows w h d e) =
     rehash w (dm_put \<lparr>pk_pid = pc_child_pid d, pk_start_time = timestamp_ns h\<rparr>
       (stored_state_windows w h d e) (process_map e))"
  "children_map (create_entry_windows w h d e) =
     add_child \<lparr>pk_pid = hdr_pid h, pk_start_time = 0\<rparr>
       \<lparr>pk_pid = pc_child_pid d, pk_start_time = timestamp_ns h\<rparr> (children_map e)"
  "config_cell (create_entry_windows w h d e) = config_cell e"
  "audit_mode (create_entry_windows w h d e) = audit_mode e"
  "sigma_rules (create_entry_windows w h d e) = sigma_rules e"
  "signals (create_entry_windows w h d e) = signals e"
  "consumer_panicked (create_entry_windows w h d e) = consumer_panicked e"
  "consumer_blocked (create_entry_windows w h d e) = consumer_blocked e"
  "ffi_log (create_entry_windows w h d e) =
     ffi_log e @ [UpdateProcessThreshold (pc_child_pid d) (timestamp_ns h) 1]"
  by (simp_all add: create_entry_windows_def stored_state_windows_def check_spoof_eq
      register_process_def Let_def)

lemma create_windows_tasks:
  "\<exists>ts. tasks (create_entry_windows w h d e) = tasks e @ ts \<and>
     (\<forall>t \<in> set ts. \<not> is_prompt t \<and>
        task_key t = \<lparr>pk_pid = pc_child_pid d, pk_start_time = timestamp_ns h\<rparr>)"
  by (simp add: create_entry_windows_def check_spoof_eq register_process_def Let_def)

lemma create_windows_alerts: "prefix (alerts e) (alerts (create_entry_windows w h d e))"
  by (simp add: create_entry_windows_def check_spoof_eq register_process_def Let_def)

lemma entry_ok_stored_windows:
  "entry_ok \<lparr>pk_pid = pc_child_pid d, pk_start_time = timestamp_ns h\<rparr> (stored_state_windows w h d e)"
  using entry_ok_new [of d h w "config_cell e" "process_map e"]
  by (simp add: stored_state_windows_def new_process_state_windows_def Let_def entry_ok_def)

lemma create_windows_base: "env_ok w \<Longrightarrow> base_ok e (create_entry_windows w h d e)"
  by (simp add: contract_defs entries_ok_rehash entries_ok_put entry_ok_stored_windows children_ok_add
      create_windows_alerts)

lemma create_windows_silent: "silent e (create_entry_windows w h d e)"
  using create_windows_tasks [of w h d e] by (auto simp: contract_defs)

lemma create_windows_timed:
  assumes "env_ok w" "timestamp_ns h \<noteq> 0" "timed e"
  shows "timed (create_entry_windows w h d e)"
  unfolding timed_def
proof (intro conjI)
  show "\<forall>(k, s) \<in> set (process_map (create_entry_windows w h d e)). pk_start_time k \<noteq> 0"
    using assms by (auto simp: set_rehash timed_def dest!: set_mp [OF set_dm_put_subset])
  show "\<forall>(k, cs) \<in> set (children_map (create_entry_windows w h d e)).
      pk_start_time k = 0 \<and> (\<forall>c \<in> set cs. pk_start_time c \<noteq> 0)"
    unfolding create_windows_simps
    by (rule timed_add_child) (use assms in \<open>simp_all add: timed_def\<close>)
  show "\<forall>t \<in> set (tasks (create_entry_windows w h d e)). pk_start_time (task_key t) \<noteq> 0"
    using assms create_windows_tasks [of w h d e] by (auto simp: timed_def)
qed

lemma process_create_windows_eq:
  "process_create_windows wo w h d e =
     (if is_profile_redirection (config_cell e) (cstr (pc_child_image_path d)) (cstr (pc_child_command_line d))
      then terminate_threat_pkm w \<lparr>pk_pid = pc_child_pid d, pk_start_time = timestamp_ns h\<rparr>
        redirection_reason ''browser_db'' (cstr (pc_child_image_path d)) e
      else sigma_check_windows wo w \<lparr>pk_pid = pc_child_pid d, pk_start_time = timestamp_ns h\<rparr>
        (cstr (pc_child_image_path d)) (cstr (pc_child_command_line d)) (create_entry_windows w h d e))"
  by (simp add: process_create_windows_def create_entry_windows_def check_spoof_eq Let_def)

lemma process_create_windows_lawful: "env_ok w \<Longrightarrow> lawful e (process_create_windows wo w h d e)"
  by (auto simp: process_create_windows_eq sigma_check_windows_def create_windows_base
      create_windows_silent intro!: lawful_suspend_windows lawful_Some lawful_terminate split: option.split)

lemma process_create_windows_returns:
  "env_ok w \<Longrightarrow> timestamp_ns h \<noteq> 0 \<Longrightarrow> timed e \<Longrightarrow> returns (process_create_windows wo w h d e)"
  by (auto simp: process_create_windows_eq sigma_check_windows_def create_windows_timed
      intro!: returns_suspend_windows returns_terminate split: option.split)

interpretation file_read_windows: telemetry_op
  "\<lambda>(wo, w, h, d). file_read_windows wo w h d" "\<lambda>(wo, w, h, d). env_ok w" "\<lambda>_. True"
  using file_read_windows_lawful file_read_windows_returns
  by unfold_locales (auto simp: lawful_def returns_def)

interpretation network_connect_windows: telemetry_op
  "\<lambda>(wo, w, h, d). network_connect_windows wo w h d" "\<lambda>(wo, w, h, d). env_ok w" "\<lambda>_. True"
  using network_connect_windows_lawful network_connect_windows_returns
  by unfold_locales (auto simp: lawful_def returns_def)

interpretation file_open_windows: telemetry_op
  "\<lambda>(w, h, d). file_open_windows w h d" "\<lambda>(w, h, d). env_ok w" "\<lambda>_. True"
  using file_open_windows_lawful file_open_windows_returns
  by unfold_locales (auto simp: lawful_def returns_def)

interpretation process_create_windows: telemetry_op
  "\<lambda>(wo, w, h, d). process_create_windows wo w h d" "\<lambda>(wo, w, h, d). env_ok w"
  "\<lambda>(wo, w, h, d). timestamp_ns h \<noteq> 0"
  using process_create_windows_lawful process_create_windows_returns
  by unfold_locales (auto simp: lawful_def returns_def)

subsection \<open>Properties\<close>

lemma ownership_record [simp]:
  "ownership_breach c p (record_read c' p' s) = ownership_breach c p s"
  by (simp add: ownership_breach_def record_read_def)

lemma suspend_windows_after:
  assumes "timed e" "timed f" "find_live (process_map e) pid = Some (k, s)"
    and "signals f = signals e" "audit_mode f = audit_mode e"
    and "find_live (process_map f) pid = Some (k, s')"
  shows "\<exists>e'. suspend_process_tree_windows wo w k reason cat r f = Some e' \<and>
    find_live (process_map e') pid = Some (k, s') \<and>
    signals e' = signals e @ (if audit_mode e then [] else [(SIGSTOP, sint pid)])"
proof -
  have k: "pk_start_time k \<noteq> 0" "pk_pid k = pid"
    using timed_live_key [OF assms(1,3)] find_live_SomeD [OF assms(3)] by simp_all
  show ?thesis
    by (rule suspend_windows_timed [OF assms(2) k(1), of wo w reason cat r]) (use assms k in auto)
qed

text \<open>On Windows a sensitive read of a tracked process is recorded, and the process is stopped (unless the
  agent only audits) exactly when one of the common rules is violated or the ownership rule is: the
  process counts as trusted, is not the Explorer, and is not one of the six owners the code
  knows, which exist for browser databases and wallets only.\<close>

theorem windows_read_exact:
  assumes "timed e" "find_live (process_map e) (hdr_pid h) = Some (k, s)"
    and "\<not> is_path_excluded (config_cell e) (cstr (fr_file_path d))"
    and "resolve_category (config_cell e) (cstr (fr_file_path d)) \<noteq> 0"
  shows "\<exists>e'. file_read_windows wo w h d e = Some e' \<and>
    find_live (process_map e') (hdr_pid h) =
      Some (k, record_read (resolve_category (config_cell e) (cstr (fr_file_path d)))
                 (cstr (fr_file_path d)) s) \<and>
    signals e' = signals e @
      (if (ownership_breach (resolve_category (config_cell e) (cstr (fr_file_path d))) (cstr (fr_file_path d)) s \<or>
           read_violation (cstr (fr_file_path d)) s) \<and> \<not> audit_mode e
       then [(SIGSTOP, sint (hdr_pid h))] else [])"
proof -
  let ?p = "cstr (fr_file_path d)"
  let ?c = "resolve_category (config_cell e) ?p"
  let ?f = "note_read w k s ?c ?p e"
  have live: "find_live (process_map ?f) (hdr_pid h) = Some (k, record_read ?c ?p s)"
    by (simp add: find_live_alter_same assms(2))
  have r: "file_read_windows wo w h d e =
      (case read_verdict_windows ?c ?p (record_read ?c ?p s) of None \<Rightarrow> Some ?f
       | Some reason \<Rightarrow> suspend_process_tree_windows wo w k reason (read_category_name ?c) ?p ?f)"
    using assms(2-4) by (simp add: file_read_windows_def Let_def)
  have none: "read_verdict_windows ?c ?p (record_read ?c ?p s) = None \<longleftrightarrow>
      \<not> (ownership_breach ?c ?p s \<or> read_violation ?p s)"
    by (simp add: read_verdict_windows_def read_verdict_None)
  show ?thesis
  proof (cases "read_verdict_windows ?c ?p (record_read ?c ?p s)")
    case None
    then have "\<not> (ownership_breach ?c ?p s \<or> read_violation ?p s)" using none by blast
    then show ?thesis using r live None by auto
  next
    case (Some reason)
    have t: "timed ?f" using assms(1) by simp
    have "ownership_breach ?c ?p s \<or> read_violation ?p s" using none Some by fastforce
    then show ?thesis
      using suspend_windows_after [OF assms(1) t assms(2) _ _ live, of wo w reason "read_category_name ?c" ?p]
        r Some by auto
  qed
qed

text \<open>The ownership rule spares exactly the suspicious: whatever sensitive file outside the two known
  categories a process reads, a process the agent trusts is stopped for it (even the owner of the
  file), while the same process, once demoted to untrusted, is not in breach.\<close>

theorem ownership_spares_untrusted:
  assumes "category \<noteq> 0x01" "category \<noteq> 0x04" "\<not> ends_with (to_lowercase (image_path s)) ''explorer.exe''"
  shows "ownership_breach category path (s\<lparr>is_untrusted := b\<rparr>) \<longleftrightarrow> \<not> b"
  using assms by (simp add: ownership_breach_def is_authorized_owner_def)

theorem ownership_spares_untrusted_witness:
  "ownership_breach 0x10 ''C:/Users/u/.ssh/id_rsa'' ((sample_process ''C:/Windows/ssh.exe'' False)\<lparr>is_untrusted := False\<rparr>) \<and>
   \<not> ownership_breach 0x10 ''C:/Users/u/.ssh/id_rsa'' ((sample_process ''C:/Windows/ssh.exe'' False)\<lparr>is_untrusted := True\<rparr>)"
proof -
  have "\<not> ends_with (to_lowercase ''C:/Windows/ssh.exe'') ''explorer.exe''" by code_simp
  then have e: "\<not> ends_with (to_lowercase (image_path (sample_process ''C:/Windows/ssh.exe'' False))) ''explorer.exe''"
    by simp
  show ?thesis using ownership_spares_untrusted [OF _ _ e, of "0x10"] by simp
qed

definition sample_win :: win_os where
  "sample_win = \<lparr>can_open = (\<lambda>_. True), ntdll_loaded = True, suspend_found = True,
     resume_found = True, console_session = 1, box_result = 1, box_response = 6,
     power_shell = (\<lambda>_. None)\<rparr>"

theorem windows_read_exact_witness:
  "\<exists>e'. file_read_windows sample_win quiet_env (sample_header FileRead) (read_details ''/home/u/.ssh/id_rsa'')
     (sample_engine read_config None (sample_process ''/bin/ssh'' False)) = Some e' \<and>
     signals e' = [(SIGSTOP, 7)]"
proof -
  have p: "cstr (fr_file_path (read_details ''/home/u/.ssh/id_rsa'')) = ''/home/u/.ssh/id_rsa''"
    by (rule read_details_path) (simp add: is_ascii_text_def)
  have c: "resolve_category read_config ''/home/u/.ssh/id_rsa'' = 0x10" by code_simp
  have "\<not> ends_with (to_lowercase ''/bin/ssh'') ''explorer.exe''" by code_simp
  then have b: "ownership_breach 0x10 ''/home/u/.ssh/id_rsa'' (sample_process ''/bin/ssh'' False)"
    by (simp add: ownership_breach_def is_authorized_owner_def)
  show ?thesis
    using windows_read_exact [of "sample_engine read_config None (sample_process ''/bin/ssh'' False)"
        "sample_header FileRead" sample_key "sample_process ''/bin/ssh'' False"
        "read_details ''/home/u/.ssh/id_rsa''" sample_win quiet_env]
    unfolding p by (auto simp: c b) (auto simp: read_config_def quiet_config_def)
qed

text \<open>On Windows a connection of any tracked process, installer or not, is recorded and stops it (unless
  the agent only audits) when it has read a sensitive file before or the destination is neither on the
  domain list nor starts like a private address.\<close>

theorem windows_connect_exact:
  assumes "timed e" "find_live (process_map e) (hdr_pid h) = Some (k, s)"
  shows "\<exists>e'. network_connect_windows wo w h d e = Some e' \<and>
    find_live (process_map e') (hdr_pid h) = Some (k, s\<lparr>pending_network_connect := True\<rparr>) \<and>
    signals e' = signals e @
      (if (category_flags s \<noteq> 0 \<or> \<not> is_domain_allowed (config_cell e) (cstr (nc_destination_ip d)) \<and>
            \<not> is_proxy_or_vpn (cstr (nc_destination_ip d))) \<and> \<not> audit_mode e
       then [(SIGSTOP, sint (hdr_pid h))] else [])"
proof -
  let ?f = "e\<lparr>process_map := dm_alter k note_connect (process_map e)\<rparr>"
  have live: "find_live (process_map ?f) (hdr_pid h) = Some (k, s\<lparr>pending_network_connect := True\<rparr>)"
    by (simp add: find_live_alter_same assms(2) note_connect_def)
  have t: "timed ?f" using assms(1) by (rule timed_alter)
  show ?thesis
    using suspend_windows_after [OF assms(1) t assms(2) _ _ live, of wo w _
        "connect_category_name (category_flags s)" "''''"]
    using live assms(2)
    by (auto simp: network_connect_windows_def unauthorized_domain_def Let_def)
qed

text \<open>The test for private addresses accepts every address that starts with 172.\<close>

lemma public_address_passes: "is_proxy_or_vpn ''172.217.16.142''"
  by code_simp

theorem windows_connect_exact_witness:
  "\<exists>e'. network_connect_windows sample_win quiet_env (sample_header NetworkConnect)
      (connect_details\<lparr>nc_destination_ip := pad_text 46 ''93.184.216.34''\<rparr>)
      (sample_engine quiet_config None (sample_process ''/bin/x'' False)) = Some e' \<and>
     signals e' = [(SIGSTOP, 7)]"
proof -
  let ?d = "connect_details\<lparr>nc_destination_ip := pad_text 46 ''93.184.216.34''\<rparr>"
  have ip: "cstr (nc_destination_ip ?d) = ''93.184.216.34''"
    by (simp add: cstr_pad_text is_ascii_text_def)
  have "\<not> is_proxy_or_vpn ''93.184.216.34''" by code_simp
  then show ?thesis
    using windows_connect_exact [of "sample_engine quiet_config None (sample_process ''/bin/x'' False)"
        "sample_header NetworkConnect" sample_key "sample_process ''/bin/x'' False" sample_win quiet_env ?d]
    unfolding ip by (auto simp: quiet_config_def)
qed

text \<open>A browser started with a redirected profile is killed before it is recorded: afterwards its key is
  not in the table unless it was before, so later events of that process find no entry, and nothing
  about it reaches the kernel map.\<close>

theorem redirected_browser_killed:
  assumes "timed e" "timestamp_ns h \<noteq> 0" "env_ok w"
    and "is_profile_redirection (config_cell e) (cstr (pc_child_image_path d)) (cstr (pc_child_command_line d))"
  shows "\<exists>e'. process_create_windows wo w h d e = Some e' \<and>
    signals e' = signals e @ (if audit_mode e then [] else [(SIGKILL, sint (pc_child_pid d))]) \<and>
    map fst (process_map e') = map fst (process_map e) \<and> children_map e' = children_map e \<and>
    ffi_log e' = ffi_log e"
proof -
  let ?k = "\<lparr>pk_pid = pc_child_pid d, pk_start_time = timestamp_ns h\<rparr>"
  have "collect_descendants (children_map e) ?k = Some []"
    using assms(1,2) by (simp add: timed_collect)
  then show ?thesis
    using assms(4)
    by (auto simp: process_create_windows_eq terminate_threat_pkm_def engine_simps signalled_def Let_def)
qed

definition browser_config :: config where
  "browser_config = quiet_config\<lparr>browser_executables := [''chrome.exe'']\<rparr>"

definition redirected_details :: process_create_details where
  "redirected_details = (create_details 8 7 ''C:/chrome.exe'')
     \<lparr>pc_child_command_line := pad_text 1024 ''chrome --user-data-dir=C:/temp/x''\<rparr>"

theorem redirected_browser_killed_witness:
  "\<exists>e'. process_create_windows sample_win quiet_env (sample_header ProcessCreate) redirected_details
     (sample_engine browser_config None (sample_process ''/bin/x'' False)) = Some e' \<and>
     signals e' = [(SIGKILL, 8)] \<and> map fst (process_map e') = [sample_key]"
proof -
  have d: "cstr (pc_child_image_path redirected_details) = ''C:/chrome.exe''"
    "cstr (pc_child_command_line redirected_details) = ''chrome --user-data-dir=C:/temp/x''"
    "pc_child_pid redirected_details = 8"
    by (simp_all add: redirected_details_def create_details_def cstr_pad_text is_ascii_text_def)
  have "is_profile_redirection browser_config ''C:/chrome.exe'' ''chrome --user-data-dir=C:/temp/x''"
    by code_simp
  then show ?thesis
    using redirected_browser_killed [of "sample_engine browser_config None (sample_process ''/bin/x'' False)"
        "sample_header ProcessCreate" quiet_env redirected_details sample_win]
    by (auto simp: d)
qed

lemma show_nat_no_zero: "CHR 0x00 \<notin> set (show_nat n)"
proof (induction n rule: less_induct)
  case (less n)
  have dig: "digit_char d \<noteq> CHR 0x00" if "d < 10" for d
  proof
    assume "digit_char d = CHR 0x00"
    then have "of_char (digit_char d) = (0 :: nat)" by simp
    then show False using that by (simp add: digit_char_def)
  qed
  show ?case
    using less [of "n div 10"] dig [of n] dig [of "n mod 10"] by (subst show_base.simps) auto
qed

text \<open>The console prompt resumes the process only when a session exists, the message box could be shown
  and was answered with yes, and neither path nor reason contains a zero character; in every other
  case, a zero character included, the suspended process is killed.\<close>

theorem windows_prompt_exact:
  assumes "timed e" "pk_start_time key \<noteq> 0"
  shows "\<exists>e'. run_desktop_prompt_windows wo w key path reason e = Some e' \<and>
    signals e' = signals e @
      [(if console_session wo \<noteq> 0xFFFFFFFF \<and> box_result wo \<noteq> 0 \<and> box_response wo = 6 \<and>
           CHR 0x00 \<notin> set path \<and> CHR 0x00 \<notin> set reason
        then SIGCONT else SIGKILL, sint (pk_pid key))]"
proof -
  have "CHR 0x00 \<notin> set (show_nat n)" for n by (rule show_nat_no_zero)
  then have z: "CHR 0x00 \<in> set (prompt_text pid path reason) \<longleftrightarrow> CHR 0x00 \<in> set path \<or> CHR 0x00 \<in> set reason" for pid
    by (auto simp: prompt_text_def)
  show ?thesis
    using assms
    by (auto simp: run_desktop_prompt_windows_def trigger_desktop_prompt_windows_def has_gui_def z
        collect_static_eq timed_collect engine_simps signalled_def Let_def)
qed

theorem windows_prompt_exact_witness:
  "\<exists>e'. run_desktop_prompt_windows sample_win quiet_env sample_key ''C:/x.exe'' ''r'' sample_family = Some e' \<and>
     signals e' = [(SIGCONT, 7)]"
  using windows_prompt_exact [OF timed_family, of sample_key sample_win quiet_env "''C:/x.exe''" "''r''"]
  by (simp add: sample_win_def sample_family_def)

text \<open>C39. What opening a file leads to on Windows. An install process that opens a credential is killed (unless the
  agent only audits), and then the consumer thread blocks for ever on the entry it holds itself, so the
  process is neither marked as terminated nor reported; spared is only the root of the
  installation, for the configuration file of its own package manager. Opening the socket of a container
  runtime kills and marks it, and the consumer goes on; otherwise nothing changes.\<close>

theorem windows_open_exact:
  assumes "timed e" "find_live (process_map e) (hdr_pid h) = Some (k, s)"
    and "path = cstr (fo_file_path d)" "socket = is_container_socket (to_lowercase path)"
  shows "\<exists>e'. file_open_windows w h d e = Some e' \<and>
    (if is_install_context s \<and> \<not> socket \<and> is_credential_path (config_cell e) path \<and>
        \<not> (depth s = 0 \<and> is_own_config (to_lowercase path) (to_lowercase (image_path s)))
     then consumer_blocked e' \<and> process_map e' = process_map e \<and> alerts e' = alerts e \<and>
       signals e' = signals e @ (if audit_mode e then [] else [(SIGKILL, sint (hdr_pid h))])
     else consumer_blocked e' = consumer_blocked e \<and>
       kill_if (is_install_context s \<and> socket) w (hdr_pid h) e e')"
  using kill_if_fires_on [OF assms(1,2), of w] kill_if_idle [of w "hdr_pid h" e]
    terminate_holding_exact [OF assms(1,2), of w] assms(2-4)
  by (auto simp: file_open_windows_def Let_def)

theorem windows_open_exact_witness:
  "\<exists>e'. file_open_windows quiet_env (sample_header FileOpen) (open_details ''/home/u/.ssh/id_rsa'')
       (sample_engine read_config None (sample_process ''C:/node.exe'' True)) = Some e' \<and>
     signals e' = [(SIGKILL, 7)] \<and> consumer_blocked e' \<and> alerts e' = []"
proof -
  have p: "cstr (fo_file_path (open_details ''/home/u/.ssh/id_rsa'')) = ''/home/u/.ssh/id_rsa''"
    unfolding open_details_def by (simp add: cstr_pad_text is_ascii_text_def)
  have "is_credential_path read_config ''/home/u/.ssh/id_rsa''"
    "\<not> is_container_socket (to_lowercase ''/home/u/.ssh/id_rsa'')"
    "\<not> is_own_config (to_lowercase ''/home/u/.ssh/id_rsa'') (to_lowercase ''C:/node.exe'')" by code_simp+
  then show ?thesis
    using windows_open_exact [of "sample_engine read_config None (sample_process ''C:/node.exe'' True)"
        "sample_header FileOpen" sample_key "sample_process ''C:/node.exe'' True" "''/home/u/.ssh/id_rsa''"
        "open_details ''/home/u/.ssh/id_rsa''" _ quiet_env]
    by (auto simp: p)
qed

text \<open>Every call of a realised request concerns the one process, and what was opened is closed.\<close>

fun call_pid :: "win_call \<Rightarrow> u32" where
  "call_pid (OpenProcess p) = p"
| "call_pid (TerminateProcess p _) = p"
| "call_pid (NtSuspendProcess p) = p"
| "call_pid (NtResumeProcess p) = p"
| "call_pid (CloseHandle p) = p"

lemma realise_one_process:
  "c \<in> set (realise wo (sig, sint pid)) \<Longrightarrow> call_pid c = pid"
  by (cases sig) (auto simp: terminate_process_windows_def suspend_process_windows_def
      release_process_windows_def split: if_splits)

lemma realise_closes:
  "CloseHandle pid \<in> set (realise wo (sig, sint pid)) \<longleftrightarrow> can_open wo pid"
  by (cases sig) (simp_all add: terminate_process_windows_def suspend_process_windows_def
      release_process_windows_def)

end
