(* ===== verification/AgentWindows.thy ===== *)
theory AgentWindows
  imports Runs WindowsRules
begin

section \<open>The agent of the Windows build\<close>

text \<open>
  The Windows handlers put together: the handlers that only suspend differently, the dispatch, the
  background tasks, the requests, start-up and the steps of the agent. There is no
  \<^verbatim>\<open>/proc\<close> on Windows (\<open>windows_env\<close>) and nothing is registered by inode; the answer to
  \<^verbatim>\<open>metadata\<close> is the file's presence in \<open>file_inode\<close>.
\<close>

subsection \<open>Handlers without a Windows branch\<close>

definition windows_env :: "env \<Rightarrow> env" where
  "windows_env w = w\<lparr>proc_exe := (\<lambda>_. None), proc_fd := (\<lambda>_ _. None), proc_environ := (\<lambda>_. None),
     proc_list := None\<rparr>"

lemma env_ok_windows [simp]: "env_ok (windows_env w) = env_ok w"
  by (simp add: env_ok_def windows_env_def)

definition ptrace_attach_windows ::
  "win_os \<Rightarrow> env \<Rightarrow> telemetry_header \<Rightarrow> bpf_ptrace_attach_details \<Rightarrow> engine \<Rightarrow> engine option" where
  "ptrace_attach_windows wo w h d e =
     (let tracer = hdr_pid h; tracee = pt_tracee_pid d;
          exe = (case proc_exe w tracee of None \<Rightarrow> '''' | Some p \<Rightarrow> to_lowercase p);
          high = list_ex (contains exe) high_value_targets;
          untrusted = (case find_live (process_map e) tracer of
            None \<Rightarrow> False | Some (_, s) \<Rightarrow> is_untrusted s)
      in if high \<or> untrusted then
           let reason = ptrace_reason high untrusted tracer exe tracee;
               e1 = write_structured_alert w tracer (if untrusted then ''ALERT'' else ''WARN'')
                      ''ptrace_injection'' exe (if audit_mode e then ''LOGGED'' else ''ALERTED'')
                      reason e
           in if untrusted \<and> \<not> audit_mode e then
                (case find_live (process_map e1) tracer of
                   None \<Rightarrow> Some e1
                 | Some (key, _) \<Rightarrow>
                     suspend_process_tree_windows wo w key reason ''ptrace_injection'' '''' e1)
              else Some e1
         else Some e)"

definition memory_protect_windows ::
  "win_os \<Rightarrow> env \<Rightarrow> telemetry_header \<Rightarrow> memory_map_bpf_details \<Rightarrow> bool \<Rightarrow> engine \<Rightarrow> engine option" where
  "memory_protect_windows wo w h d is_file_backed e =
     (if \<not> is_file_backed then Some e
      else (case find_live (process_map e) (hdr_pid h) of
              None \<Rightarrow> Some e
            | Some (key, state) \<Rightarrow>
                let reason = stomping_reason (hdr_pid h) (mm_file_inode d) (mm_addr d);
                    e1 = write_structured_alert w (hdr_pid h) ''ALERT'' ''module_stomping'' ''''
                           (if audit_mode e then ''LOGGED'' else ''ALERTED'') reason e
                in if is_untrusted state \<and> \<not> audit_mode e
                   then suspend_process_tree_windows wo w key reason ''module_stomping'' '''' e1
                   else Some e1))"

definition handle_event_windows :: "win_os \<Rightarrow> env \<Rightarrow> telemetry_event_raw \<Rightarrow> engine \<Rightarrow> engine option" where
  "handle_event_windows wo w0 raw e =
     (let h = header raw; buf = details_buffer raw; w = windows_env w0 in
      case hdr_event_type h of
        ProcessCreate \<Rightarrow> process_create_windows wo w h (dec_process_create_details buf) e
      | ProcessStop \<Rightarrow> process_stop w h e
      | FileRead \<Rightarrow> file_read_windows wo w h (dec_file_read_details buf) e
      | FileWrite \<Rightarrow> file_write w h (dec_file_write_details buf) e
      | NetworkConnect \<Rightarrow> network_connect_windows wo w h (dec_network_connect_details buf) e
      | FileOpen \<Rightarrow> file_open_windows w h (dec_file_open_details buf) e
      | Dup2 \<Rightarrow> dup2 w h (dec_dup2_details buf) e
      | RegistryWrite \<Rightarrow> registry_write w h (dec_registry_write_details buf) e
      | ClipboardWrite \<Rightarrow> clipboard_write w h (dec_clipboard_write_details buf) e
      | PtraceAttach \<Rightarrow> ptrace_attach_windows wo w h (dec_bpf_ptrace_attach_details buf) e
      | MemoryMap \<Rightarrow> memory_protect_windows wo w h (dec_memory_map_bpf_details buf) False e
      | MemoryProtect \<Rightarrow> memory_protect_windows wo w h (dec_memory_map_bpf_details buf) True e
      | ImageLoad \<Rightarrow> image_load w h (dec_bpf_image_load_details buf) e
      | _ \<Rightarrow> Some e)"

subsection \<open>Background tasks and requests\<close>

definition yara_task_windows :: "win_os \<Rightarrow> env \<Rightarrow> process_key \<Rightarrow> string \<Rightarrow> engine \<Rightarrow> engine option" where
  "yara_task_windows wo w key path e =
     (let (bad, y) = scan_file w path (yara e); e1 = e\<lparr>yara := y\<rparr>
      in if bad then
           suspend_process_tree_windows wo w key ''YARA rule matched on execution'' ''malware_pattern'' path e1
         else Some e1)"

fun run_task_windows :: "win_os \<Rightarrow> env \<Rightarrow> task \<Rightarrow> engine \<Rightarrow> engine option" where
  "run_task_windows wo w (YaraScan key path) e = yara_task_windows wo w key path e"
| "run_task_windows wo w (DesktopPrompt key path reason) e =
     run_desktop_prompt_windows wo w key path reason e"
| "run_task_windows wo w (OrphanSweep key) e = orphan_sweep w key e"

definition run_queued_windows :: "win_os \<Rightarrow> env \<Rightarrow> nat \<Rightarrow> engine \<Rightarrow> engine option" where
  "run_queued_windows wo w n e =
     (if n < length (tasks e)
      then run_task_windows wo w (tasks e ! n) (e\<lparr>tasks := take n (tasks e) @ drop (Suc n) (tasks e)\<rparr>)
      else Some e)"

text \<open>Loading new rules swaps them and registers nothing.\<close>

definition reload_rules_windows :: "env \<Rightarrow> engine \<Rightarrow> string + engine" where
  "reload_rules_windows w e =
     (case load_rules_db w of
        Inl err \<Rightarrow> Inl (''Failed to load new rules database: '' @ err)
      | Inr cfg \<Rightarrow> Inr (e\<lparr>config_cell := cfg\<rparr>))"

definition allow_image_windows :: "win_os \<Rightarrow> env \<Rightarrow> string \<Rightarrow> engine \<Rightarrow> engine" where
  "allow_image_windows wo w path e =
     (case file_inode w path of
        None \<Rightarrow> e
      | Some _ \<Rightarrow> e\<lparr>trust := add_to_user_allowlist_windows (power_shell wo) w path (trust e)\<rparr>)"

definition deny_image_windows :: "win_os \<Rightarrow> env \<Rightarrow> string \<Rightarrow> engine \<Rightarrow> engine" where
  "deny_image_windows wo w path e =
     e\<lparr>trust := add_to_user_denylist_windows (power_shell wo) w path (trust e)\<rparr>"

definition allow_process_tree_windows ::
  "(engine \<Rightarrow> engine) \<Rightarrow> win_os \<Rightarrow> env \<Rightarrow> u32 \<Rightarrow> engine \<Rightarrow> (cli_response \<times> engine) option" where
  "allow_process_tree_windows meanwhile wo w pid e =
     (case find_live (process_map e) pid of
        None \<Rightarrow> Some (Error (inactive pid), e)
      | Some (_, s) \<Rightarrow>
          let e1 = meanwhile (allow_image_windows wo w (image_path s) e)
          in map_option (reply (tree_message pid '' permanently allowed and resumed'') e1)
               (release_process_tree w pid e1))"

definition deny_process_tree_windows ::
  "(engine \<Rightarrow> engine) \<Rightarrow> win_os \<Rightarrow> env \<Rightarrow> u32 \<Rightarrow> engine \<Rightarrow> (cli_response \<times> engine) option" where
  "deny_process_tree_windows meanwhile wo w pid e =
     (case find_live (process_map e) pid of
        None \<Rightarrow> Some (Error (inactive pid), e)
      | Some (_, s) \<Rightarrow>
          let e1 = meanwhile (deny_image_windows wo w (image_path s) e)
          in map_option (reply (tree_message pid
               '' registered in persistent user denylist and terminated'') e1)
               (kill_process_tree w pid e1))"

definition serve_request_windows ::
  "(engine \<Rightarrow> engine) \<Rightarrow> win_os \<Rightarrow> env \<Rightarrow> cli_request \<Rightarrow> engine \<Rightarrow> (cli_response \<times> engine) option" where
  "serve_request_windows meanwhile wo w0 r e =
     (let w = windows_env w0 in
      case r of
        ReloadRules \<Rightarrow> Some (reply ''Rules database reloaded successfully'' e (reload_rules_windows w e))
      | AllowProcessTree pid \<Rightarrow> allow_process_tree_windows meanwhile wo w pid e
      | DenyProcessTree pid \<Rightarrow> deny_process_tree_windows meanwhile wo w pid e
      | _ \<Rightarrow> serve_request meanwhile w r e)"

abbreviation handle_request_windows ::
  "win_os \<Rightarrow> env \<Rightarrow> cli_request \<Rightarrow> engine \<Rightarrow> (cli_response \<times> engine) option" where
  "handle_request_windows \<equiv> serve_request_windows (\<lambda>e. e)"

subsection \<open>The watcher and start-up\<close>

text \<open>A path has both kinds of slashes as separators.\<close>

definition file_name_windows :: "string \<Rightarrow> string option" where
  "file_name_windows path = file_name (map (\<lambda>c. if c = CHR 0x5C then CHR ''/'' else c) path)"

definition on_fs_event_windows :: "env \<Rightarrow> string list \<Rightarrow> fs_event_kind \<Rightarrow> engine \<Rightarrow> engine" where
  "on_fs_event_windows w paths kind e =
     (if list_ex (\<lambda>p. file_name_windows p = Some ''rules.db'' \<and>
          (kind = ModifyEvent \<or> kind = CreateEvent)) paths
      then (case load_rules_db w of Inl _ \<Rightarrow> e | Inr cfg \<Rightarrow> e\<lparr>config_cell := cfg\<rparr>)
      else e)"

definition run_agent_windows :: "startup_env \<Rightarrow> string + engine" where
  "run_agent_windows s =
     (let w = st_env s;
          e0 = new_engine (startup_config w) (audit_var s) (st_rules s) (st_scanner s) (st_trust s)
      in if \<not> ffi_initialises s then Inl ''Telemetry FFI init failed''
         else
           let e1 = e0\<lparr>trust := initialize_trust_cache_windows (trust e0),
                          ffi_log := [InitializeTelemetryEngine]\<rparr>
           in if \<not> ffi_starts s then Inl ''Telemetry FFI start failed''
              else Inr (e1\<lparr>ffi_log := ffi_log e1 @ [StartTelemetryEngine]\<rparr>))"

fun agent_exec_windows :: "win_os \<Rightarrow> env \<times> input \<Rightarrow> engine \<Rightarrow> engine option" where
  "agent_exec_windows wo (w, Telemetry raw) e =
     (if consumer_ended e then Some e
      else handle_event_windows wo (w\<lparr>on_runtime := False\<rparr>) raw e)"
| "agent_exec_windows wo (w, PurgeTick) e = Some (purge_expired_states w e)"
| "agent_exec_windows wo (w, FsEvent paths kind) e = Some (on_fs_event_windows w paths kind e)"
| "agent_exec_windows wo (w, Request r) e = map_option snd (handle_request_windows wo w r e)"
| "agent_exec_windows wo (w, RunTask n) e =
     run_queued_windows wo (windows_env (w\<lparr>on_runtime := True\<rparr>)) n e"

subsection \<open>The contract\<close>

lemma lawful_suspend_windows_here: "lawful e (suspend_process_tree_windows wo w k reason cat r e)"
  by (rule lawful_suspend_windows) (simp_all add: silent_def)

lemma ptrace_attach_windows_lawful: "lawful e (ptrace_attach_windows wo w h d e)"
  by (auto simp: ptrace_attach_windows_def Let_def base_write_alert silent_write_alert
      intro!: lawful_rules lawful_suspend_windows split: option.split)

lemma ptrace_attach_windows_returns: "timed e \<Longrightarrow> returns (ptrace_attach_windows wo w h d e)"
  by (auto simp: ptrace_attach_windows_def Let_def intro!: returns_rules returns_suspend_windows
      dest: timed_live_key split: option.split)

lemma memory_protect_windows_lawful: "lawful e (memory_protect_windows wo w h d b e)"
  by (auto simp: memory_protect_windows_def Let_def base_write_alert silent_write_alert
      intro!: lawful_rules lawful_suspend_windows split: option.split)

lemma memory_protect_windows_returns: "timed e \<Longrightarrow> returns (memory_protect_windows wo w h d b e)"
  by (auto simp: memory_protect_windows_def Let_def intro!: returns_rules returns_suspend_windows
      dest: timed_live_key split: option.split)

lemmas windows_lawful = process_create_windows_lawful process_stop_lawful file_read_windows_lawful
  file_write_lawful network_connect_windows_lawful file_open_windows_lawful dup2_lawful
  registry_write_lawful ptrace_attach_windows_lawful memory_protect_windows_lawful image_load_lawful

lemmas windows_returns = process_create_windows_returns process_stop_returns file_read_windows_returns
  file_write_returns network_connect_windows_returns file_open_windows_returns dup2_returns
  registry_write_returns ptrace_attach_windows_returns memory_protect_windows_returns image_load_returns

lemma handle_event_windows_lawful: "env_ok w \<Longrightarrow> lawful e (handle_event_windows wo w raw e)"
  by (cases "hdr_event_type (header raw)")
    (simp_all add: handle_event_windows_def Let_def clipboard_write_def windows_lawful)

lemma handle_event_windows_returns:
  "env_ok w \<Longrightarrow> timestamp_ns (header raw) \<noteq> 0 \<Longrightarrow> timed e \<Longrightarrow> returns (handle_event_windows wo w raw e)"
  by (cases "hdr_event_type (header raw)")
    (simp_all add: handle_event_windows_def Let_def clipboard_write_def windows_returns)

interpretation windows_event: telemetry_op
  "\<lambda>(wo, w, raw). handle_event_windows wo w raw" "\<lambda>(wo, w, raw). env_ok w"
  "\<lambda>(wo, w, raw). timestamp_ns (header raw) \<noteq> 0"
  using handle_event_windows_lawful handle_event_windows_returns
  by unfold_locales (auto simp: lawful_def returns_def)

text \<open>Background tasks.\<close>

lemma yara_task_windows_lawful: "lawful e (yara_task_windows wo w key path e)"
  by (auto simp: yara_task_windows_def Let_def contract_defs split: prod.split
      intro!: lawful_suspend_windows lawful_Some)

lemma yara_task_windows_returns:
  "timed e \<Longrightarrow> pk_start_time key \<noteq> 0 \<Longrightarrow> returns (yara_task_windows wo w key path e)"
  by (auto simp: yara_task_windows_def Let_def timed_def split: prod.split intro!: returns_suspend_windows)

lemma run_desktop_prompt_windows_base:
  "run_desktop_prompt_windows wo w k path reason e = Some e' \<Longrightarrow> base_ok e e'"
  by (auto simp: run_desktop_prompt_windows_def engine_simps contract_defs Let_def entries_ok_alter
      split: option.splits if_splits)

lemma run_desktop_prompt_windows_returns:
  "timed e \<Longrightarrow> pk_start_time key \<noteq> 0 \<Longrightarrow> returns (run_desktop_prompt_windows wo w key path reason e)"
  by (simp add: run_desktop_prompt_windows_def collect_static_eq timed_collect engine_simps Let_def
      timed_def timed_process_keys split: option.split)

lemma run_task_windows_lawful: "\<not> is_prompt t \<Longrightarrow> lawful e (run_task_windows wo w t e)"
  by (cases t) (simp_all add: yara_task_windows_lawful orphan_sweep_lawful)

lemma run_task_windows_base: "run_task_windows wo w t e = Some e' \<Longrightarrow> base_ok e e'"
  using yara_task_windows_lawful orphan_sweep_lawful
  by (cases t) (auto simp: lawful_def dest: run_desktop_prompt_windows_base)

lemma run_task_windows_returns:
  "timed e \<Longrightarrow> pk_start_time (task_key t) \<noteq> 0 \<Longrightarrow> returns (run_task_windows wo w t e)"
  by (cases t)
    (simp_all add: yara_task_windows_returns orphan_sweep_returns run_desktop_prompt_windows_returns)

lemma run_queued_windows_base: "run_queued_windows wo w n e = Some e' \<Longrightarrow> base_ok e e'"
  by (auto simp: run_queued_windows_def split: if_splits
      dest!: run_task_windows_base intro: base_ok_trans [OF base_tasks])

lemma run_queued_windows_returns: "timed e \<Longrightarrow> returns (run_queued_windows wo w n e)"
  by (auto simp: run_queued_windows_def timed_drop_task intro!: run_task_windows_returns)
    (simp add: timed_def)

text \<open>Requests.\<close>

lemma allow_image_windows_simps [simp]:
  "process_map (allow_image_windows wo w path e) = process_map e"
  "children_map (allow_image_windows wo w path e) = children_map e"
  "tasks (allow_image_windows wo w path e) = tasks e"
  by (simp_all add: allow_image_windows_def split: option.split)

lemma base_allow_image_windows: "base_ok e (allow_image_windows wo w path e)"
  by (simp add: allow_image_windows_def contract_defs split: option.split)

lemma base_deny_image_windows: "base_ok e (deny_image_windows wo w path e)"
  by (simp add: deny_image_windows_def contract_defs)

lemma reload_windows_base: "reload_rules_windows w e = Inr e' \<Longrightarrow> base_ok e e'"
  by (auto simp: reload_rules_windows_def contract_defs split: sum.splits)

lemma allow_windows_base: "allow_process_tree_windows (\<lambda>e. e) wo w pid e = Some r \<Longrightarrow> base_ok e (snd r)"
  by (auto simp: allow_process_tree_windows_def Let_def split: option.splits
      intro!: reply_base base_allow_image_windows dest: release_base)

lemma deny_windows_base: "deny_process_tree_windows (\<lambda>e. e) wo w pid e = Some r \<Longrightarrow> base_ok e (snd r)"
  by (auto simp: deny_process_tree_windows_def Let_def split: option.splits
      intro!: reply_base base_deny_image_windows dest: kill_base)

lemma handle_request_windows_base: "handle_request_windows wo w r e = Some x \<Longrightarrow> base_ok e (snd x)"
proof (cases r)
  case ReloadRules
  then show "handle_request_windows wo w r e = Some x \<Longrightarrow> ?thesis"
    by (auto simp: serve_request_windows_def intro!: reply_base dest: reload_windows_base)
next
  case (AllowProcessTree pid)
  then show "handle_request_windows wo w r e = Some x \<Longrightarrow> ?thesis"
    using allow_windows_base by (simp add: serve_request_windows_def)
next
  case (DenyProcessTree pid)
  then show "handle_request_windows wo w r e = Some x \<Longrightarrow> ?thesis"
    using deny_windows_base by (simp add: serve_request_windows_def)
qed (simp_all only: serve_request_windows_def cli_request.case Let_def handle_request_base)

lemma timed_allow_image_windows: "timed e \<Longrightarrow> timed (allow_image_windows wo w path e)"
  by (rule timed_cong) simp_all

lemma timed_deny_image_windows: "timed e \<Longrightarrow> timed (deny_image_windows wo w path e)"
  by (rule timed_cong) (simp_all add: deny_image_windows_def)

lemma handle_request_windows_returns:
  "timed e \<Longrightarrow> returns (map_option snd (handle_request_windows wo w r e))"
proof (cases r)
  case ReloadRules
  then show "timed e \<Longrightarrow> ?thesis"
    by (auto simp: serve_request_windows_def reload_rules_windows_def Let_def intro!: reply_timed
        split: sum.split) (simp add: timed_def)
next
  case (AllowProcessTree pid)
  then show "timed e \<Longrightarrow> ?thesis"
    by (auto simp only: serve_request_windows_def cli_request.case allow_process_tree_windows_def Let_def
        option.map returns_Some snd_conv
        intro!: returns_reply release_returns timed_allow_image_windows split: option.split prod.split)
next
  case (DenyProcessTree pid)
  then show "timed e \<Longrightarrow> ?thesis"
    by (auto simp only: serve_request_windows_def cli_request.case deny_process_tree_windows_def Let_def
        option.map returns_Some snd_conv
        intro!: returns_reply kill_returns timed_deny_image_windows split: option.split prod.split)
qed (simp_all only: serve_request_windows_def cli_request.case Let_def handle_request_returns)

subsection \<open>Runs\<close>

lemma on_fs_event_windows_base: "base_ok e (on_fs_event_windows w paths kind e)"
  by (simp add: on_fs_event_windows_def contract_defs split: sum.split)

interpretation windows_agent: engine_op "agent_exec_windows wo" any_input for wo
proof
  fix i e e' assume i: "any_input i" and r: "agent_exec_windows wo i e = Some e'"
  obtain w inp where wi: "i = (w, inp)" by (cases i)
  have w: "env_ok w" using i by (simp add: any_input_def wi)
  show "base_ok e e'"
  proof (cases inp)
    case (Telemetry raw)
    then show ?thesis
      using r w handle_event_windows_lawful [of "w\<lparr>on_runtime := False\<rparr>" e wo raw]
      by (auto simp: wi lawful_def split: if_splits)
  next
    case (RunTask n)
    then show ?thesis using r by (auto simp: wi dest: run_queued_windows_base)
  qed (use r purge_base on_fs_event_windows_base in \<open>auto simp: wi dest: handle_request_windows_base\<close>)
qed

lemma agent_windows_returns: "stamped_input i \<Longrightarrow> timed e \<Longrightarrow> returns (agent_exec_windows wo i e)"
proof (cases i)
  case (Pair w inp)
  assume i: "stamped_input i" and t: "timed e"
  show ?thesis
  proof (cases inp)
    case (Telemetry raw)
    then show ?thesis using i t handle_event_windows_returns by (simp add: Pair stamped_input_def)
  next
    case (FsEvent paths kind)
    have "timed (on_fs_event_windows w paths kind e)"
      using t by (auto simp: on_fs_event_windows_def split: sum.split intro: timed_cong)
    then show ?thesis by (simp add: Pair FsEvent)
  qed (use t in \<open>simp_all add: Pair purge_timed handle_request_windows_returns run_queued_windows_returns\<close>)
qed

lemma run_agent_windows_inv:
  "run_agent_windows s = Inr e \<Longrightarrow> engine_inv e \<and> tasks e = [] \<and> signals e = [] \<and>
     process_map e = [] \<and> children_map e = [] \<and>
     ffi_log e = [InitializeTelemetryEngine, StartTelemetryEngine]"
  by (auto simp: run_agent_windows_def Let_def new_engine_def engine_inv_def entries_ok_def children_ok_def
      split: if_splits)

text \<open>Audit mode.\<close>

lemma on_fs_event_windows_silent: "silent e (on_fs_event_windows w paths kind e)"
  by (simp add: on_fs_event_windows_def contract_defs split: sum.split)

lemma run_queued_windows_silent:
  assumes "run_queued_windows wo w n e = Some e'" "audited e"
  shows "silent e e'"
proof (cases "n < length (tasks e)")
  case True
  let ?e = "e\<lparr>tasks := take n (tasks e) @ drop (Suc n) (tasks e)\<rparr>"
  have sub: "set (tasks ?e) \<subseteq> set (tasks e)"
    by (simp add: set_take_subset set_drop_subset)
  have np: "\<not> is_prompt (tasks e ! n)" using assms(2) True by (auto simp: audited_def no_prompt_def)
  have r: "silent ?e e'"
    using run_task_windows_lawful [OF np, of ?e wo w] assms(1) True
    by (simp add: lawful_def run_queued_windows_def)
  have "silent e ?e" using sub by (auto simp: silent_def no_prompt_def)
  then show ?thesis by (rule silent_trans [OF _ r]) simp
qed (use assms in \<open>simp add: run_queued_windows_def silent_def\<close>)

lemma agent_windows_silent:
  assumes "unattended_input i" "agent_exec_windows wo i e = Some e'" "audited e"
  shows "signals e' = signals e \<and> audited e'"
proof -
  obtain w inp where i: "i = (w, inp)" by (cases i)
  have "silent e e'"
  proof (cases inp)
    case (Telemetry raw)
    then show ?thesis
      using assms handle_event_windows_lawful [of "w\<lparr>on_runtime := False\<rparr>" e wo raw]
      by (auto simp: i unattended_input_def lawful_def silent_def split: if_splits)
  next
    case (RunTask n)
    then show ?thesis using assms run_queued_windows_silent by (auto simp: i)
  qed (use assms in \<open>auto simp: i unattended_input_def purge_silent on_fs_event_windows_silent\<close>)
  moreover have "audit_mode e' = audit_mode e"
    using assms windows_agent.op_base [of i wo e e']
    by (simp add: unattended_input_def any_input_def base_ok_audit)
  ultimately show ?thesis using assms(3) by (simp add: silent_def audited_def)
qed

lemma windows_audit_sends_nothing:
  "\<forall>i \<in> set is. unattended_input i \<Longrightarrow> audited e \<Longrightarrow> run_all (agent_exec_windows wo) is e = Some e' \<Longrightarrow>
     signals e' = signals e"
proof (induction "is" arbitrary: e)
  case (Cons i "is")
  then obtain f where "agent_exec_windows wo i e = Some f" "run_all (agent_exec_windows wo) is f = Some e'"
    by (auto simp: bind_eq_Some_conv)
  then show ?case using Cons agent_windows_silent [of i wo e f] by fastforce
qed simp

subsection \<open>Every run of the Windows agent\<close>

text \<open>C38. In every state the Windows build reaches, by any sequence of events, requests, tasks, purges and rules
  changes, the state invariant holds and signals, alerts and kernel updates have only been appended; once
  the consumer has panicked or blocked it never handles an event again; and in audit mode no process has
  been sent a signal, as long as no command arrived on the control pipe. This is about the states reached:
  that a step returns is not claimed.\<close>

theorem windows_agent_safe:
  assumes "run_agent_windows s = Inr e0" "\<forall>i \<in> set is. any_input i"
    and "run_all (agent_exec_windows wo) is e0 = Some e"
  shows "engine_inv e \<and> effects_grow e0 e \<and>
    (consumer_ended e \<longrightarrow> (\<forall>w raw. agent_exec_windows wo (w, Telemetry raw) e = Some e)) \<and>
    (audit_mode e0 \<and> (\<forall>i \<in> set is. \<not> is_request (snd i)) \<longrightarrow> signals e = [])"
proof -
  note start = run_agent_windows_inv [OF assms(1)]
  have "engine_inv e \<and> effects_grow e0 e"
    using windows_agent.run_base [OF assms(2,3)] start by (simp add: base_ok_def)
  moreover have "signals e = []" if "audit_mode e0" "\<forall>i \<in> set is. \<not> is_request (snd i)"
  proof -
    have "\<forall>i \<in> set is. unattended_input i"
      using that(2) assms(2) by (simp add: unattended_input_def any_input_def)
    moreover have "audited e0" using that(1) start by (simp add: audited_def no_prompt_def)
    ultimately show ?thesis using windows_audit_sends_nothing assms(3) start by metis
  qed
  ultimately show ?thesis by simp
qed

theorem windows_agent_safe_witness:
  "\<exists>e0 e. run_agent_windows (sample_startup (Some ''true'') quiet_config) = Inr e0 \<and>
     run_all (agent_exec_windows sample_win) [(quiet_env, Telemetry parent_event), (quiet_env, PurgeTick)] e0 = Some e \<and>
     engine_inv e \<and> signals e = []"
proof -
  let ?is = "[(quiet_env, Telemetry parent_event), (quiet_env, PurgeTick)]"
  obtain e0 where e0: "run_agent_windows (sample_startup (Some ''true'') quiet_config) = Inr e0" "audit_mode e0"
    by (simp add: run_agent_windows_def sample_startup_def Let_def new_engine_def)
  have t: "timed e0" using run_agent_windows_inv [OF e0(1)] by (simp add: timed_def)
  have "stamped_input (quiet_env, Telemetry parent_event)"
    by (simp add: stamped_input_def parent_event_def create_event_def)
  then obtain e1 where "agent_exec_windows sample_win (quiet_env, Telemetry parent_event) e0 = Some e1"
    using agent_windows_returns [OF _ t, of "(quiet_env, Telemetry parent_event)" sample_win]
    by (auto simp: returns_def)
  then have r: "run_all (agent_exec_windows sample_win) ?is e0 = Some (purge_expired_states quiet_env e1)"
    by simp
  have "\<forall>i \<in> set ?is. any_input i" by (simp add: any_input_def)
  from windows_agent_safe [OF e0(1) this r] show ?thesis using e0 r by auto
qed

subsection \<open>What the Windows build does not see\<close>

text \<open>On Windows attaching a debugger to a browser or a key agent goes unnoticed: the target's name is read
  from \<^verbatim>\<open>/proc\<close>, so it is always empty, and the event of a process that is not
  untrusted changes nothing at all.\<close>

theorem windows_ptrace_unseen:
  assumes "hdr_event_type (header raw) = PtraceAttach"
    and "\<forall>k s. find_live (process_map e) (hdr_pid (header raw)) = Some (k, s) \<longrightarrow> \<not> is_untrusted s"
  shows "handle_event_windows wo w raw e = Some e"
proof -
  have "\<not> list_ex (contains '''') high_value_targets" by code_simp
  then show ?thesis
    using assms
    by (auto simp: handle_event_windows_def ptrace_attach_windows_def windows_env_def Let_def
        split: option.split)
qed

definition attach_event :: telemetry_event_raw where
  "attach_event = \<lparr>header = sample_header PtraceAttach, details_buffer = replicate 2048 0\<rparr>"

theorem windows_ptrace_unseen_witness:
  "handle_event_windows sample_win (quiet_env\<lparr>proc_exe := (\<lambda>_. Some ''C:/chrome.exe'')\<rparr>) attach_event
     (sample_engine quiet_config None (sample_process ''/bin/x'' False)) =
   Some (sample_engine quiet_config None (sample_process ''/bin/x'' False))"
  by (rule windows_ptrace_unseen) (simp_all add: attach_event_def)

end
