(* ===== verification/Locks.thy ===== *)
theory Locks
  imports Prelude "HOL-Library.Product_Lexorder"
begin

section \<open>Locks\<close>

text \<open>
  Threads that take and drop locks, and when they can block each other for ever. A thread is the list of
  its lock operations; a deadlock is a state in which some thread is unfinished and none can go on. Two
  disciplines are enough for progress: one thread may nest locks in increasing order, and take the
  lock of the rules at any time; all others nest in increasing order only, and the rules alone. The
  programs of the agent's operations are in \<open>LockPrograms\<close>.
\<close>

subsection \<open>The locks and their order\<close>

text \<open>The \<^verbatim>\<open>RwLock\<close> of the rules; a \<^verbatim>\<open>DashMap\<close> has one lock per shard: the table of
  processes, the children, the velocity map, the verdicts of the scanner, the terminal activity.\<close>

datatype lock = Rules | Shard nat | Children nat | Velocity nat | Verdicts nat | Tty nat

fun rank :: "lock \<Rightarrow> nat \<times> nat" where
  "rank Rules = (0, 0)"
| "rank (Shard s) = (1, s)"
| "rank (Children s) = (2, s)"
| "rank (Velocity s) = (3, s)"
| "rank (Verdicts s) = (4, s)"
| "rank (Tty s) = (5, s)"

lemma rank_inject: "rank l = rank m \<Longrightarrow> l = m"
  by (cases l; cases m) simp_all

instantiation lock :: linorder
begin

definition less_eq_lock :: "lock \<Rightarrow> lock \<Rightarrow> bool" where
  "l \<le> m \<longleftrightarrow> rank l \<le> rank m"

definition less_lock :: "lock \<Rightarrow> lock \<Rightarrow> bool" where
  "l < m \<longleftrightarrow> rank l < rank m"

instance
  by standard (auto simp: less_eq_lock_def less_lock_def intro: rank_inject)

end

lemma lock_less [simp]:
  "\<not> l < Rules" "Rules < l \<longleftrightarrow> l \<noteq> Rules"
  "Shard s < Shard t \<longleftrightarrow> s < t" "Children s < Children t \<longleftrightarrow> s < t"
  "Shard s < Children t" "Shard s < Velocity t"
  "\<not> Children s < Shard t"
  by (cases l; simp add: less_lock_def)+

subsection \<open>Threads\<close>

text \<open>\<open>Work\<close> is anything done without taking a lock.\<close>

datatype action = Read lock | Write lock | Drop lock | Work

record thread =
  prog :: "action list"
  reads :: "lock list"
  writes :: "lock list"

definition start_thread :: "action list \<Rightarrow> thread" where
  "start_thread p = \<lparr>prog = p, reads = [], writes = []\<rparr>"

fun waits_to_write :: "lock \<Rightarrow> thread \<Rightarrow> bool" where
  "waits_to_write l t = (case prog t of Write l' # _ \<Rightarrow> l' = l | _ \<Rightarrow> False)"

text \<open>\<^verbatim>\<open>std\<close> leaves open whether a reader waits behind a waiting writer (\<open>wp\<close>, the case on
  Linux).\<close>

definition enabled :: "bool \<Rightarrow> thread list \<Rightarrow> nat \<Rightarrow> bool" where
  "enabled wp ts i \<longleftrightarrow>
     (case prog (ts ! i) of
        [] \<Rightarrow> False
      | Drop l # _ \<Rightarrow> True
      | Work # _ \<Rightarrow> True
      | Read l # _ \<Rightarrow>
          (\<forall>t \<in> set ts. l \<notin> set (writes t)) \<and>
          (wp \<longrightarrow> (\<forall>j < length ts. j \<noteq> i \<longrightarrow> \<not> waits_to_write l (ts ! j)))
      | Write l # _ \<Rightarrow> (\<forall>t \<in> set ts. l \<notin> set (reads t) \<and> l \<notin> set (writes t)))"

fun advance :: "thread \<Rightarrow> thread" where
  "advance t =
     (case prog t of
        [] \<Rightarrow> t
      | Work # p \<Rightarrow> t\<lparr>prog := p\<rparr>
      | Read l # p \<Rightarrow> t\<lparr>prog := p, reads := l # reads t\<rparr>
      | Write l # p \<Rightarrow> t\<lparr>prog := p, writes := l # writes t\<rparr>
      | Drop l # p \<Rightarrow>
          if l \<in> set (reads t) then t\<lparr>prog := p, reads := remove1 l (reads t)\<rparr>
          else t\<lparr>prog := p, writes := remove1 l (writes t)\<rparr>)"

inductive lock_step :: "bool \<Rightarrow> thread list \<Rightarrow> thread list \<Rightarrow> bool" for wp where
  go: "i < length ts \<Longrightarrow> enabled wp ts i \<Longrightarrow> lock_step wp ts (ts[i := advance (ts ! i)])"

inductive lock_reach :: "bool \<Rightarrow> thread list \<Rightarrow> thread list \<Rightarrow> bool" for wp ts0 where
  here: "lock_reach wp ts0 ts0"
| further: "lock_reach wp ts0 ts \<Longrightarrow> lock_step wp ts ts' \<Longrightarrow> lock_reach wp ts0 ts'"

definition deadlock :: "bool \<Rightarrow> thread list \<Rightarrow> bool" where
  "deadlock wp ts \<longleftrightarrow>
     (\<exists>t \<in> set ts. prog t \<noteq> []) \<and> (\<forall>i < length ts. \<not> enabled wp ts i)"

subsection \<open>Disciplines\<close>

text \<open>\<open>ordered held p\<close>: the program never takes a lock it holds, takes every lock but that of the rules in
  increasing order, and drops what it takes; \<open>apart\<close>: the rules are, besides, held alone.\<close>

fun ordered :: "lock set \<Rightarrow> action list \<Rightarrow> bool" where
  "ordered h [] = (h = {})"
| "ordered h (Work # p) = ordered h p"
| "ordered h (Read l # p) = (l \<notin> h \<and> (l = Rules \<or> (\<forall>m \<in> h. m < l)) \<and> ordered (insert l h) p)"
| "ordered h (Write l # p) = (l \<notin> h \<and> (l = Rules \<or> (\<forall>m \<in> h. m < l)) \<and> ordered (insert l h) p)"
| "ordered h (Drop l # p) = (l \<in> h \<and> ordered (h - {l}) p)"

fun apart :: "lock set \<Rightarrow> action list \<Rightarrow> bool" where
  "apart h [] = (h = {})"
| "apart h (Work # p) = apart h p"
| "apart h (Read l # p) = (Rules \<notin> h \<and> (\<forall>m \<in> h. m < l) \<and> apart (insert l h) p)"
| "apart h (Write l # p) = (Rules \<notin> h \<and> (\<forall>m \<in> h. m < l) \<and> apart (insert l h) p)"
| "apart h (Drop l # p) = (l \<in> h \<and> apart (h - {l}) p)"

lemma apart_ordered: "apart h p \<Longrightarrow> ordered h p"
  by (induction h p rule: apart.induct) auto

definition held :: "thread \<Rightarrow> lock set" where
  "held t = set (reads t) \<union> set (writes t)"

definition disciplined :: "(lock set \<Rightarrow> action list \<Rightarrow> bool) \<Rightarrow> thread \<Rightarrow> bool" where
  "disciplined d t \<longleftrightarrow> distinct (reads t @ writes t) \<and> d (held t) (prog t)"

lemma disciplined_start: "d {} p \<Longrightarrow> disciplined d (start_thread p)"
  by (simp add: disciplined_def start_thread_def held_def)

lemma set_remove1_distinct: "distinct xs \<Longrightarrow> set (remove1 x xs) = set xs - {x}"
  by (simp add: set_remove1_eq)

lemma advance_drop:
  assumes "prog t = Drop l # p" "distinct (reads t @ writes t)"
  shows "prog (advance t) = p \<and> held (advance t) = held t - {l} \<and>
    distinct (reads (advance t) @ writes (advance t))"
proof (cases "l \<in> set (reads t)")
  case True
  then have "set (writes t) - {l} = set (writes t)" using assms(2) by auto
  then show ?thesis
    using True assms by (auto simp: held_def set_remove1_distinct distinct_remove1)
next
  case False
  then show ?thesis using assms by (auto simp: held_def set_remove1_distinct distinct_remove1)
qed

lemma advance_take:
  assumes "prog t = Read l # p \<or> prog t = Write l # p" "l \<notin> held t" "distinct (reads t @ writes t)"
  shows "prog (advance t) = p \<and> held (advance t) = insert l (held t) \<and>
    distinct (reads (advance t) @ writes (advance t))"
  using assms by (auto simp: held_def)

lemma action_cases:
  obtains "p = []" | q where "p = Work # q" | l q where "p = Drop l # q" | l q where "p = Read l # q \<or> p = Write l # q"
  by (metis action.exhaust list.exhaust)

text \<open>What a discipline has to say of one action for a thread to keep it.\<close>

locale discipline =
  fixes d :: "lock set \<Rightarrow> action list \<Rightarrow> bool"
  assumes reading: "d h (Read l # p) \<Longrightarrow> l \<notin> h \<and> d (insert l h) p"
    and writing: "d h (Write l # p) \<Longrightarrow> l \<notin> h \<and> d (insert l h) p"
    and dropping: "d h (Drop l # p) \<Longrightarrow> d (h - {l}) p"
    and working: "d h (Work # p) \<Longrightarrow> d h p"
begin

lemma disciplined_advance:
  assumes "disciplined d t"
  shows "disciplined d (advance t)"
proof -
  have dis: "distinct (reads t @ writes t)" and d: "d (held t) (prog t)"
    using assms by (simp_all add: disciplined_def)
  show ?thesis
  proof (cases rule: action_cases [of "prog t"])
    case (2 q)
    then show ?thesis using dis d working by (auto simp: disciplined_def held_def)
  next
    case (3 l q)
    then show ?thesis using advance_drop [OF 3 dis] dropping d unfolding disciplined_def by metis
  next
    case (4 l q)
    then have "l \<notin> held t \<and> d (insert l (held t)) q" using d reading writing by auto
    then show ?thesis using advance_take [OF 4 _ dis] unfolding disciplined_def by metis
  qed (use assms in simp)
qed

end

interpretation ord: discipline ordered
  by unfold_locales auto

interpretation apa: discipline apart
  by unfold_locales auto

subsection \<open>Progress\<close>

definition threads_ok :: "thread list \<Rightarrow> bool" where
  "threads_ok ts \<longleftrightarrow>
     (\<forall>i < length ts. disciplined ordered (ts ! i) \<and> (0 < i \<longrightarrow> disciplined apart (ts ! i)))"

lemma threads_ok_step: "lock_step wp ts ts' \<Longrightarrow> threads_ok ts \<Longrightarrow> threads_ok ts'"
proof (induction rule: lock_step.induct)
  case (go i ts)
  then show ?case
    unfolding threads_ok_def
    by (auto simp: nth_list_update ord.disciplined_advance apa.disciplined_advance simp del: advance.simps)
qed

lemma threads_ok_reach: "lock_reach wp ts0 ts \<Longrightarrow> threads_ok ts0 \<Longrightarrow> threads_ok ts"
  by (induction rule: lock_reach.induct) (auto intro: threads_ok_step)

lemma writer_enabled:
  assumes "\<forall>t \<in> set ts. l \<notin> held t" "waits_to_write l (ts ! i)"
  shows "enabled wp ts i"
  using assms by (auto simp: enabled_def held_def split: list.splits action.splits)

text \<open>A free lock some thread asks for is given to somebody.\<close>

lemma free_is_taken:
  assumes "\<forall>t \<in> set ts. l \<notin> held t" "prog (ts ! i) = Read l # p \<or> prog (ts ! i) = Write l # p" "i < length ts"
  shows "\<exists>j < length ts. enabled wp ts j"
proof (cases "\<exists>j < length ts. waits_to_write l (ts ! j)")
  case True
  then show ?thesis using writer_enabled [OF assms(1)] by blast
next
  case False
  have "\<not> waits_to_write l (ts ! i)" using False assms(3) by blast
  then have r: "prog (ts ! i) = Read l # p" using assms(2) by auto
  have "\<forall>t \<in> set ts. l \<notin> set (writes t)" using assms(1) by (auto simp: held_def)
  then have "enabled wp ts i" using False r by (auto simp: enabled_def)
  then show ?thesis using assms(3) by blast
qed

lemma disciplined_next:
  assumes "disciplined ordered t" "prog t \<noteq> []"
  obtains p where "prog t = Work # p"
  | l p where "prog t = Drop l # p" "l \<in> held t"
  | l p where "prog t = Read l # p \<or> prog t = Write l # p" "l \<notin> held t" "l = Rules \<or> (\<forall>m \<in> held t. m < l)"
  using assms by (cases rule: action_cases [of "prog t"]) (auto simp: disciplined_def)

lemma holder_goes_on: "disciplined ordered t \<Longrightarrow> held t \<noteq> {} \<Longrightarrow> prog t \<noteq> []"
  by (auto simp: disciplined_def)

text \<open>A thread that waits, waits for a lock somebody holds.\<close>

lemma waits_for_held:
  assumes "disciplined ordered (ts ! k)" "prog (ts ! k) \<noteq> []" "k < length ts" "\<not> (\<exists>j < length ts. enabled wp ts j)"
  obtains l p where "prog (ts ! k) = Read l # p \<or> prog (ts ! k) = Write l # p" "l \<notin> held (ts ! k)"
    "l = Rules \<or> (\<forall>m \<in> held (ts ! k). m < l)" "\<exists>t \<in> set ts. l \<in> held t"
  using assms(1,2)
proof (cases rule: disciplined_next)
  case (1 p)
  then have "enabled wp ts k" by (simp add: enabled_def)
  then show ?thesis using assms(3,4) by blast
next
  case (2 l p)
  then have "enabled wp ts k" by (simp add: enabled_def)
  then show ?thesis using assms(3,4) by blast
next
  case (3 l p)
  have "\<exists>t \<in> set ts. l \<in> held t" using free_is_taken [OF _ 3(1) assms(3)] assms(4) by blast
  then show ?thesis by (rule that [OF 3])
qed

lemma threads_progress:
  assumes ok: "threads_ok ts" and t: "i < length ts" "prog (ts ! i) \<noteq> []"
  shows "\<exists>j < length ts. enabled wp ts j"
proof (rule ccontr)
  assume stuck: "\<not> ?thesis"
  have dis: "disciplined ordered (ts ! k)" if "k < length ts" for k
    using that ok by (simp add: threads_ok_def)
  have no_rules: "Rules \<notin> held (ts ! k)" if k: "k < length ts" "0 < k" for k
  proof
    assume r: "Rules \<in> held (ts ! k)"
    then have "prog (ts ! k) \<noteq> []" using dis [OF k(1)] by (intro holder_goes_on) auto
    from waits_for_held [OF dis [OF k(1)] this k(1) stuck] obtain l p where
      "prog (ts ! k) = Read l # p \<or> prog (ts ! k) = Write l # p" .
    moreover have "apart (held (ts ! k)) (prog (ts ! k))"
      using ok k by (simp add: threads_ok_def disciplined_def)
    ultimately show False using r by auto
  qed
  define H where "H = (\<Union>t \<in> set ts. held t)"
  have fin: "finite H" by (simp add: H_def held_def)
  have waits: "\<exists>l. l \<in> H \<and> l \<notin> held (ts ! k) \<and> (l = Rules \<or> (\<forall>m \<in> held (ts ! k). m < l)) \<and>
      (0 < k \<longrightarrow> (\<forall>m \<in> held (ts ! k). m < l))"
    if k: "k < length ts" "prog (ts ! k) \<noteq> []" for k
  proof -
    from waits_for_held [OF dis [OF k(1)] k(2,1) stuck] obtain l p where
      l: "prog (ts ! k) = Read l # p \<or> prog (ts ! k) = Write l # p" "l \<notin> held (ts ! k)"
        "l = Rules \<or> (\<forall>m \<in> held (ts ! k). m < l)" "\<exists>t \<in> set ts. l \<in> held t" .
    have "\<forall>m \<in> held (ts ! k). m < l" if "0 < k"
    proof -
      have "apart (held (ts ! k)) (prog (ts ! k))" using ok k that by (simp add: threads_ok_def disciplined_def)
      then show ?thesis using l(1) by auto
    qed
    then show ?thesis using l by (auto simp: H_def)
  qed
  obtain l0 where "l0 \<in> H" using waits [OF t] by blast
  then have ne: "H \<noteq> {}" by blast
  define m where "m = Max H"
  have top: "l \<le> m" if "l \<in> H" for l using fin that by (simp add: m_def)
  have "m \<in> H" using fin ne by (simp add: m_def)
  then obtain k where k: "k < length ts" "m \<in> held (ts ! k)"
    by (auto simp: H_def in_set_conv_nth)
  have "prog (ts ! k) \<noteq> []" using dis [OF k(1)] k(2) by (intro holder_goes_on) auto
  from waits [OF k(1) this] obtain l where
    l: "l \<in> H" "l \<notin> held (ts ! k)" "l = Rules \<or> (\<forall>m \<in> held (ts ! k). m < l)"
      "0 < k \<longrightarrow> (\<forall>m \<in> held (ts ! k). m < l)" by blast
  have "\<not> m < l" using top [OF l(1)] by simp
  then have "l = Rules" "k = 0" using l(3,4) k(2) by auto
  then obtain j where "j < length ts" "Rules \<in> held (ts ! j)"
    using l(1) by (auto simp: H_def in_set_conv_nth)
  then show False using no_rules [of j] l(2) \<open>l = Rules\<close> \<open>k = 0\<close> by (cases "j = 0") auto
qed

text \<open>One ordered thread beside any number of threads that also keep the rules apart never deadlocks,
  whatever the policy towards waiting writers.\<close>

lemma ordered_never_deadlocks:
  assumes "ordered {} consumer" "\<forall>p \<in> set others. apart {} p"
    and "lock_reach wp (map start_thread (consumer # others)) ts"
  shows "\<not> deadlock wp ts"
proof -
  have "threads_ok (map start_thread (consumer # others))"
    unfolding threads_ok_def
  proof (intro allI impI)
    fix i assume i: "i < length (map start_thread (consumer # others))"
    show "disciplined ordered (map start_thread (consumer # others) ! i) \<and>
        (0 < i \<longrightarrow> disciplined apart (map start_thread (consumer # others) ! i))"
      using i assms(1,2) apart_ordered
      by (cases i) (auto intro!: disciplined_start)
  qed
  then have "threads_ok ts" using assms(3) by (rule threads_ok_reach [rotated])
  then show ?thesis using threads_progress [of ts _ wp] unfolding deadlock_def by (metis in_set_conv_nth)
qed

subsection \<open>Deadlocks\<close>

text \<open>A program run alone, from and to the locks held for reading and for writing.\<close>

fun alone :: "action list \<Rightarrow> lock list \<times> lock list \<Rightarrow> (lock list \<times> lock list) option" where
  "alone [] s = Some s"
| "alone (Work # p) s = alone p s"
| "alone (Read l # p) (r, w) = (if l \<in> set w then None else alone p (l # r, w))"
| "alone (Write l # p) (r, w) = (if l \<in> set r \<or> l \<in> set w then None else alone p (r, l # w))"
| "alone (Drop l # p) (r, w) = alone p (if l \<in> set r then (remove1 l r, w) else (r, remove1 l w))"

lemma alone_append: "alone (p @ q) s = Option.bind (alone p s) (alone q)"
  by (induction p s rule: alone.induct) auto

definition idle :: "thread \<Rightarrow> bool" where
  "idle t \<longleftrightarrow> held t = {} \<and> (\<forall>l. \<not> waits_to_write l t)"

lemma alone_runs:
  assumes "alone p (r, w) = Some s" "\<forall>t \<in> set others. idle t"
    and "lock_reach wp ts0 (\<lparr>prog = p @ q, reads = r, writes = w\<rparr> # others)"
  shows "lock_reach wp ts0 (\<lparr>prog = q, reads = fst s, writes = snd s\<rparr> # others)"
  using assms(1,3)
proof (induction p arbitrary: r w)
  case (Cons a p)
  let ?t = "\<lparr>prog = (a # p) @ q, reads = r, writes = w\<rparr>"
  have free: "\<forall>t \<in> set others. l \<notin> set (reads t) \<and> l \<notin> set (writes t)" for l
    using assms(2) by (auto simp: idle_def held_def)
  have still: "\<not> waits_to_write l ((?t # others) ! j)" if "0 < j" "j < length (?t # others)" for l j
    using assms(2) that by (cases j) (auto simp: idle_def)
  have "enabled wp (?t # others) 0"
    using Cons.prems(1) free still
    by (cases a) (auto simp: enabled_def simp del: waits_to_write.simps split: if_splits)
  then have "lock_reach wp ts0 ((?t # others)[0 := advance ((?t # others) ! 0)])"
    by (intro further [OF Cons.prems(2)] lock_step.go) simp_all
  then show ?case
    using Cons.prems(1) by (cases a) (auto intro!: Cons.IH split: if_splits)
qed auto

lemma alone_starts:
  assumes "alone p ([], []) = Some (r, w)" "\<forall>t \<in> set others. idle t"
  shows "lock_reach wp (start_thread (p @ q) # others) (\<lparr>prog = q, reads = r, writes = w\<rparr> # others)"
  using alone_runs [where s = "(r, w)" and q = q and r = "[]" and w = "[]", OF assms here]
  by (simp add: start_thread_def)

text \<open>A thread that wants to write what it holds blocks itself.\<close>

lemma blocks_itself:
  assumes "alone p ([], []) = Some (r, w)" "l \<in> set r \<or> l \<in> set w"
  shows "\<exists>ts. lock_reach wp [start_thread (p @ Write l # q)] ts \<and> deadlock wp ts"
proof -
  have "lock_reach wp [start_thread (p @ Write l # q)] [\<lparr>prog = Write l # q, reads = r, writes = w\<rparr>]"
    using alone_starts [of p r w "[]"] assms(1) by simp
  moreover have "deadlock wp [\<lparr>prog = Write l # q, reads = r, writes = w\<rparr>]"
    using assms(2) by (auto simp: deadlock_def enabled_def)
  ultimately show ?thesis by blast
qed

text \<open>A thread that reads again what it holds blocks itself and a writer that came in between, where
  readers wait behind writers.\<close>

lemma blocks_with_writer:
  assumes "alone p ([], []) = Some (r, w)" "l \<in> set r"
    and "prog u = Work # Write l # q'" "held u = {}"
  shows "\<exists>ts. lock_reach True [start_thread (p @ Read l # q), u] ts \<and> deadlock True ts"
proof -
  let ?t = "\<lparr>prog = Read l # q, reads = r, writes = w\<rparr>" and ?u = "u\<lparr>prog := Write l # q'\<rparr>"
  have "idle u" using assms(3,4) by (simp add: idle_def)
  then have "lock_reach True [start_thread (p @ Read l # q), u] [?t, u]"
    using alone_starts [of p r w "[u]"] assms(1) by simp
  moreover have "lock_step True [?t, u] ([?t, u][1 := advance ([?t, u] ! 1)])"
    by (rule lock_step.go) (simp_all add: enabled_def assms(3))
  moreover have "[?t, u][1 := advance ([?t, u] ! 1)] = [?t, ?u]" by (simp add: assms(3))
  moreover have "deadlock True [?t, ?u]"
    using assms(2) by (auto simp: deadlock_def enabled_def less_Suc_eq nth_Cons split: nat.splits)
  ultimately show ?thesis by (metis further)
qed

end
