(* ===== verification/LockPrograms.thy ===== *)
theory LockPrograms
  imports Locks Containment
begin

section \<open>The locks an operation takes\<close>

text \<open>
  For every handler, request, loop and background task of the Unix build, the sequence of its lock
  operations (\<open>consumer_locks\<close>, \<open>other_locks\<close>), shard by shard, and which of them can deadlock. Not
  included are the inner locks of Tokio's channels, which their operations release before they return.
\<close>

text \<open>What \<^verbatim>\<open>DashMap\<close> leaves open: the number of shards of the process table; whether an
  iterator takes the next shard before it gives up the last (\<open>overlaps\<close>); whether it keeps its shard
  when the caller drops the entry it has got (\<open>clings\<close>). And what the agent runs with: audit mode, a
  desktop session.\<close>

record lock_setting =
  shard_count :: nat
  overlaps :: bool
  clings :: bool
  auditing :: bool
  desktop :: bool

subsection \<open>Iterating over the table\<close>

text \<open>The shards of a pass in order, with what the caller does while its iterator is at each.\<close>

fun pass :: "(lock \<Rightarrow> action) \<Rightarrow> bool \<Rightarrow> (nat \<Rightarrow> action list) \<Rightarrow> nat \<Rightarrow> nat list \<Rightarrow> action list" where
  "pass acq ov body s [] = body s @ [Drop (Shard s)]"
| "pass acq ov body s (t # ts) =
     body s @ (if ov then [acq (Shard t), Drop (Shard s)] else [Drop (Shard s), acq (Shard t)]) @
     pass acq ov body t ts"

fun iterate :: "(lock \<Rightarrow> action) \<Rightarrow> bool \<Rightarrow> (nat \<Rightarrow> action list) \<Rightarrow> nat list \<Rightarrow> action list" where
  "iterate acq ov body [] = []"
| "iterate acq ov body (s # ss) = acq (Shard s) # pass acq ov body s ss"

text \<open>A search ends at the shard of the entry it looks for, or after the last one.\<close>

definition searched :: "lock_setting \<Rightarrow> nat option \<Rightarrow> nat list" where
  "searched c found = (case found of None \<Rightarrow> [0..<shard_count c] | Some s \<Rightarrow> [0..<Suc s])"

definition search_locks :: "lock_setting \<Rightarrow> nat option \<Rightarrow> action list" where
  "search_locks c found = iterate Read (overlaps c) (\<lambda>_. []) (searched c found)"

text \<open>\<^verbatim>\<open>if let Some(mut state) = process_map.get_mut(&key)\<close> and
  \<^verbatim>\<open>process_map.insert\<close>; \<^verbatim>\<open>process_map.get(&key)\<close>, closed again at once.\<close>

definition change_locks :: "nat \<Rightarrow> action list" where
  "change_locks s = [Write (Shard s), Drop (Shard s)]"

definition peek_locks :: "nat \<Rightarrow> action list" where
  "peek_locks s = [Read (Shard s), Drop (Shard s)]"

subsection \<open>Walking over the children\<close>

text \<open>The walk keeps the reference to the children of a process while it visits them. A walk is given by the
  shards it reads.\<close>

datatype walk = Walk (origin: nat) (visits: "walk list")

fun walk_locks :: "walk \<Rightarrow> action list" where
  "walk_locks (Walk s ws) = Read (Children s) # concat (map walk_locks ws) @ [Drop (Children s)]"

fun climbs :: "walk \<Rightarrow> bool" where
  "climbs (Walk s ws) \<longleftrightarrow> (\<forall>w \<in> set ws. s < origin w \<and> climbs w)"

subsection \<open>Containment\<close>

text \<open>Where an operation finds things: the shard of its process; the shard of the entry an alert reports; the
  walk over the descendants; where each process to be marked as terminated is found.\<close>

record site =
  home :: nat
  listed :: "nat option"
  walked :: walk
  marked :: "nat option list"

definition alert_locks :: "lock_setting \<Rightarrow> site \<Rightarrow> action list" where
  "alert_locks c st = search_locks c (listed st)"

definition suspend_locks :: "lock_setting \<Rightarrow> site \<Rightarrow> action list" where
  "suspend_locks c st =
     walk_locks (walked st) @ alert_locks c st @
     (if auditing c then []
      else [Read Rules, Drop Rules] @ (if desktop c then peek_locks (home st) else []))"

definition mark_locks :: "lock_setting \<Rightarrow> nat option \<Rightarrow> action list" where
  "mark_locks c m = search_locks c m @ (case m of None \<Rightarrow> [] | Some s \<Rightarrow> change_locks s)"

definition terminate_locks :: "lock_setting \<Rightarrow> site \<Rightarrow> action list" where
  "terminate_locks c st =
     walk_locks (walked st) @ concat (map (mark_locks c) (marked st)) @ alert_locks c st"

subsection \<open>The handlers of the consumer thread\<close>

text \<open>What a handler meets: the branches that decide which locks it takes. The velocity map and the
  children are given by the shard written; \<open>prior_at\<close> is the entry reported before the new one is
  inserted, \<open>parent_at\<close> the entry of the parent; \<open>hits\<close> are the shards of the entries an exit ends.\<close>

datatype install_verdict = NotInstall | ContainerSocket | RuleBreach | NoBreach

datatype consumer_op =
    OpFileRead (sensitive: bool) (tracked: bool) (velocity: nat) (suspends: bool)
  | OpFileWrite (hijack: bool) install_verdict
  | OpFileOpen install_verdict
  | OpConnect (suspends: bool)
  | OpDup2 (asks_table: bool) (redirects: bool) (tracked: bool) (terminates: bool)
  | OpRegistryWrite (terminates: bool)
  | OpPtrace (tracked: bool) (alerts_tracer: bool) (suspends: bool)
  | OpMemoryProtect (suspends: bool)
  | OpImageLoad (alerts_module: bool)
  | OpCreate (anonymous: bool) (prior_at: "nat option") (parent_at: "nat option") (spoofed: bool)
      (children_at: nat) (sigma: bool)
  | OpStop (installer: bool) (hits: "nat list")
  | OpUntracked
  | OpQuiet

fun install_locks :: "lock_setting \<Rightarrow> site \<Rightarrow> install_verdict \<Rightarrow> action list" where
  "install_locks c st NotInstall = []"
| "install_locks c st ContainerSocket = terminate_locks c st"
| "install_locks c st RuleBreach = [Read Rules] @ terminate_locks c st @ [Drop Rules]"
| "install_locks c st NoBreach = [Read Rules, Drop Rules]"

definition own_search :: "lock_setting \<Rightarrow> site \<Rightarrow> bool \<Rightarrow> action list" where
  "own_search c st known = search_locks c (if known then Some (home st) else None)"

text \<open>Ending the entries of a shard while iterating over it.\<close>

definition stop_locks :: "lock_setting \<Rightarrow> nat list \<Rightarrow> nat \<Rightarrow> action list" where
  "stop_locks c hs s =
     concat (replicate (count_list hs s)
       (if clings c then change_locks s else [Drop (Shard s)] @ change_locks s @ [Read (Shard s)]))"

fun consumer_locks :: "lock_setting \<Rightarrow> site \<Rightarrow> consumer_op \<Rightarrow> action list" where
  "consumer_locks c st (OpFileRead se tr v su) =
     [Read Rules] @
     (if se then own_search c st tr @
        (if tr then [Write (Shard (home st)), Write (Velocity v), Drop (Velocity v), Drop (Shard (home st))] @
           (if su then suspend_locks c st else []) else []) else []) @
     [Drop Rules]"
| "consumer_locks c st (OpFileWrite hj v) =
     own_search c st True @ peek_locks (home st) @ [Read (Shard (home st)), Read Rules] @
     (if hj then terminate_locks c st else []) @ [Drop Rules, Drop (Shard (home st))] @
     (if hj then [] else install_locks c st v)"
| "consumer_locks c st (OpFileOpen v) =
     own_search c st True @ peek_locks (home st) @ install_locks c st v"
| "consumer_locks c st (OpConnect su) =
     own_search c st True @ change_locks (home st) @
     (if su then peek_locks (home st) @ suspend_locks c st else [])"
| "consumer_locks c st (OpDup2 asks re tr te) =
     (if asks then own_search c st tr else []) @
     (if re then own_search c st tr @
        (if tr then peek_locks (home st) @ (if te then terminate_locks c st else []) else []) else [])"
| "consumer_locks c st (OpRegistryWrite te) =
     own_search c st True @ peek_locks (home st) @ (if te then terminate_locks c st else [])"
| "consumer_locks c st (OpPtrace tr al su) =
     own_search c st tr @
     (if al then alert_locks c st @
        (if su \<and> \<not> auditing c then
           (if clings c then butlast (own_search c st True) @ suspend_locks c st @ [Drop (Shard (home st))]
            else own_search c st True @ suspend_locks c st) else []) else [])"
| "consumer_locks c st (OpMemoryProtect su) =
     own_search c st True @ alert_locks c st @ peek_locks (home st) @
     (if su \<and> \<not> auditing c then suspend_locks c st else [])"
| "consumer_locks c st (OpImageLoad al) = own_search c st True @ (if al then alert_locks c st else [])"
| "consumer_locks c st (OpCreate an pr pa sp ch si) =
     (if an then search_locks c pr else []) @
     [Read Rules, Drop Rules, Read Rules, Drop Rules, Read Rules, Drop Rules] @
     [Read Rules] @ search_locks c pa @ (if sp then search_locks c pr else []) @
     change_locks (home st) @ [Write (Children ch), Drop (Children ch)] @
     (if si then suspend_locks c st else []) @ [Drop Rules]"
| "consumer_locks c st (OpStop inst hs) =
     search_locks c (case hs of [] \<Rightarrow> None | s # _ \<Rightarrow> Some s) @
     (if inst then [] else iterate Read (overlaps c) (stop_locks c hs) [0..<shard_count c])"
| "consumer_locks c st OpUntracked = search_locks c None"
| "consumer_locks c st OpQuiet = []"

subsection \<open>The other threads\<close>

text \<open>A reload loads the database before it takes the lock; a scan matches the rules before it stores the
  verdict (not at all if the verdict is known or the file cannot be read). \<open>found\<close> says whether a live process with the PID exists, \<open>still\<close> whether it does when
  it is looked up again.\<close>

datatype other_op =
    Reload | StatusQuery | RulesQuery | TableQuery | Purge
  | TrustOnceCommand (found_at: "nat option")
  | ReleaseTree (found: bool) | KillTree (found: bool)
  | AllowTree (found: bool) (still: bool) | DenyTree (found: bool) (still: bool)
  | PromptAnswer (allowed: bool)
  | YaraScan (stores: bool) (verdict: nat) (matches: bool)
  | SweepTask
  | TtyInput nat

definition release_locks :: "lock_setting \<Rightarrow> site \<Rightarrow> bool \<Rightarrow> action list" where
  "release_locks c st f = own_search c st f @
     (if f then walk_locks (walked st) @ change_locks (home st) @ alert_locks c st else [])"

definition kill_locks :: "lock_setting \<Rightarrow> site \<Rightarrow> bool \<Rightarrow> action list" where
  "kill_locks c st f = own_search c st f @
     (if f then walk_locks (walked st) @ alert_locks c st else [])"

fun other_locks :: "lock_setting \<Rightarrow> site \<Rightarrow> other_op \<Rightarrow> action list" where
  "other_locks c st Reload = [Work, Write Rules, Drop Rules]"
| "other_locks c st StatusQuery = search_locks c None @ [Read Rules, Drop Rules]"
| "other_locks c st RulesQuery = [Read Rules, Drop Rules]"
| "other_locks c st TableQuery = search_locks c None"
| "other_locks c st Purge = concat (map change_locks [0..<shard_count c])"
| "other_locks c st (TrustOnceCommand m) = iterate Write (overlaps c) (\<lambda>_. []) (searched c m)"
| "other_locks c st (ReleaseTree f) = release_locks c st f"
| "other_locks c st (KillTree f) = kill_locks c st f"
| "other_locks c st (AllowTree f f') = own_search c st f @ (if f then release_locks c st f' else [])"
| "other_locks c st (DenyTree f f') = own_search c st f @ (if f then kill_locks c st f' else [])"
| "other_locks c st (PromptAnswer al) =
     walk_locks (walked st) @ (if al then change_locks (home st) else [])"
| "other_locks c st (YaraScan sto v hit) =
     [Read (Verdicts v), Drop (Verdicts v)] @
     (if sto then [Work, Write (Verdicts v), Drop (Verdicts v)] else []) @
     (if hit then suspend_locks c st else [])"
| "other_locks c st SweepTask =
     walk_locks (walked st) @ concat (map (mark_locks c) (marked st)) @ change_locks (home st)"
| "other_locks c st (TtyInput t) = [Write (Tty t), Drop (Tty t)]"

subsection \<open>Ordered programs\<close>

text \<open>Each part of a program taken up with at most the rules in hand ends with the same in hand.\<close>

definition harmless :: "(nat \<Rightarrow> action list) \<Rightarrow> bool" where
  "harmless body \<longleftrightarrow>
     (\<forall>s h q. (\<forall>m \<in> h. m < Shard s) \<longrightarrow>
        ordered (insert (Shard s) h) (body s @ q) = ordered (insert (Shard s) h) q)"

lemma harmless_Nil [simp]: "harmless (\<lambda>_. [])"
  by (simp add: harmless_def)

lemma insert_diff_single: "x \<notin> h \<Longrightarrow> insert x h - {x} = h"
  by auto

lemma pass_ordered:
  assumes "acq = Read \<or> acq = Write" "harmless body" "sorted_wrt (<) (s # ts)" "\<forall>m \<in> h. m < Shard s"
  shows "ordered (insert (Shard s) h) (pass acq ov body s ts @ q) \<longleftrightarrow> ordered h q"
  using assms(3,4)
proof (induction ts arbitrary: s)
  case Nil
  then have "insert (Shard s) h - {Shard s} = h" by auto
  then show ?case using assms(2) Nil by (simp add: harmless_def)
next
  case (Cons t ts)
  have up: "\<forall>m \<in> h. m < Shard t" using Cons.prems by (auto intro: less_trans)
  then have "Shard t \<notin> h" "insert (Shard t) (insert (Shard s) h) - {Shard s} = insert (Shard t) h"
    "insert (Shard s) h - {Shard s} = h"
    using Cons.prems by auto
  moreover have "ordered (insert (Shard t) h) (pass acq ov body t ts @ q) \<longleftrightarrow> ordered h q"
    using Cons.IH [of t] Cons.prems up by simp
  moreover have "ordered (insert (Shard s) h) (body s @ q') = ordered (insert (Shard s) h) q'" for q'
    using assms(2) Cons.prems(2) by (simp add: harmless_def)
  ultimately show ?case using assms(1) Cons.prems up by auto
qed

lemma iterate_ordered:
  assumes "acq = Read \<or> acq = Write" "harmless body" "h \<subseteq> {Rules}"
  shows "ordered h (iterate acq ov body [0..<n] @ q) \<longleftrightarrow> ordered h q"
proof (cases n)
  case (Suc k)
  have "[0..<n] = 0 # [1..<n]" by (simp add: Suc upt_conv_Cons)
  moreover have "sorted_wrt (<) (0 # [1..<n])" by simp
  moreover have "\<forall>m \<in> h. m < Shard 0" "Shard 0 \<notin> h" using assms(3) by auto
  ultimately show ?thesis using assms(1) pass_ordered [OF assms(1,2), of 0 "[1..<n]" h] by auto
qed simp

lemma searched_upt: "\<exists>n. searched c m = [0..<n]"
  by (auto simp: searched_def simp del: upt_Suc split: option.split)

lemma search_ordered [simp]: "h \<subseteq> {Rules} \<Longrightarrow> ordered h (search_locks c m @ q) \<longleftrightarrow> ordered h q"
  using searched_upt [of c m] by (auto simp: search_locks_def iterate_ordered)

lemma own_search_ordered [simp]: "h \<subseteq> {Rules} \<Longrightarrow> ordered h (own_search c st b @ q) \<longleftrightarrow> ordered h q"
  by (simp add: own_search_def)

lemma alert_ordered [simp]: "h \<subseteq> {Rules} \<Longrightarrow> ordered h (alert_locks c st @ q) \<longleftrightarrow> ordered h q"
  by (simp add: alert_locks_def)

lemma change_ordered [simp]: "h \<subseteq> {Rules} \<Longrightarrow> ordered h (change_locks s @ q) \<longleftrightarrow> ordered h q"
  by (auto simp: change_locks_def insert_diff_single subset_singleton_iff)

lemma peek_ordered [simp]: "h \<subseteq> {Rules} \<Longrightarrow> ordered h (peek_locks s @ q) \<longleftrightarrow> ordered h q"
  by (auto simp: peek_locks_def insert_diff_single subset_singleton_iff)

lemma walk_ordered:
  assumes "climbs w" "\<forall>m \<in> h. m < Children (origin w)"
  shows "ordered h (walk_locks w @ q) \<longleftrightarrow> ordered h q"
  using assms
proof (induction w arbitrary: h q)
  case (Walk s ws)
  let ?h = "insert (Children s) h"
  have "ordered ?h (concat (map walk_locks vs) @ q') \<longleftrightarrow> ordered ?h q'" if "set vs \<subseteq> set ws" for vs q'
    using that
  proof (induction vs)
    case (Cons v vs)
    have "climbs v" "s < origin v" using Cons.prems Walk.prems(1) by auto
    moreover have "\<forall>m \<in> ?h. m < Children (origin v)"
      using \<open>s < origin v\<close> Walk.prems(2) by (auto intro: less_trans)
    ultimately have "ordered ?h (walk_locks v @ q'') \<longleftrightarrow> ordered ?h q''" for q''
      using Walk.IH [of v] Cons.prems by auto
    then show ?case using Cons by simp
  qed simp
  moreover have "?h - {Children s} = h" "Children s \<notin> h" using Walk.prems(2) by auto
  ultimately show ?case using Walk.prems(2) by simp
qed

lemma walked_ordered [simp]:
  "climbs w \<Longrightarrow> h \<subseteq> {Rules} \<Longrightarrow> ordered h (walk_locks w @ q) \<longleftrightarrow> ordered h q"
  by (rule walk_ordered) auto

lemma mark_ordered [simp]: "h \<subseteq> {Rules} \<Longrightarrow> ordered h (mark_locks c m @ q) \<longleftrightarrow> ordered h q"
  by (cases m) (simp_all add: mark_locks_def)

lemma marks_ordered [simp]:
  "h \<subseteq> {Rules} \<Longrightarrow> ordered h (concat (map (mark_locks c) ms) @ q) \<longleftrightarrow> ordered h q"
  by (induction ms) simp_all

lemma terminate_ordered [simp]:
  "climbs (walked st) \<Longrightarrow> h \<subseteq> {Rules} \<Longrightarrow> ordered h (terminate_locks c st @ q) \<longleftrightarrow> ordered h q"
  by (simp add: terminate_locks_def)

text \<open>A suspension asks for the rules, except in audit mode.\<close>

lemma suspend_ordered [simp]:
  "climbs (walked st) \<Longrightarrow> h \<subseteq> (if auditing c then {Rules} else {}) \<Longrightarrow>
     ordered h (suspend_locks c st @ q) \<longleftrightarrow> ordered h q"
  by (simp add: suspend_locks_def split: if_splits)

lemma install_ordered [simp]:
  "climbs (walked st) \<Longrightarrow> ordered {} (install_locks c st v @ q) \<longleftrightarrow> ordered {} q"
  by (cases v) simp_all

text \<open>The operations of the consumer that take a lock they already hold: the rules, when a read or a
  Sigma match is contained outside audit mode; the entry, when a directory hijack is terminated; and
  the table, when an exit is recorded or a tracer suspended while iterating.\<close>

fun hazard :: "lock_setting \<Rightarrow> consumer_op \<Rightarrow> bool" where
  "hazard c (OpFileRead se tr v su) \<longleftrightarrow> se \<and> tr \<and> su \<and> \<not> auditing c"
| "hazard c (OpFileWrite hj v) \<longleftrightarrow> hj"
| "hazard c (OpCreate an pr pa sp ch si) \<longleftrightarrow> si \<and> \<not> auditing c"
| "hazard c (OpPtrace tr al su) \<longleftrightarrow> al \<and> su \<and> \<not> auditing c \<and> clings c"
| "hazard c (OpStop inst hs) \<longleftrightarrow> \<not> inst \<and> hs \<noteq> [] \<and> clings c"
| "hazard c _ \<longleftrightarrow> False"

lemma harmless_stop: "hs = [] \<or> \<not> clings c \<Longrightarrow> harmless (stop_locks c hs)"
proof -
  assume a: "hs = [] \<or> \<not> clings c"
  have "ordered (insert (Shard s) h) (concat (replicate n ([Drop (Shard s)] @ change_locks s @ [Read (Shard s)])) @ q) =
      ordered (insert (Shard s) h) q" if "\<forall>m \<in> h. m < Shard s" for s h q n
  proof -
    have "Shard s \<notin> h" using that by auto
    then show ?thesis using that by (induction n) (auto simp: change_locks_def insert_diff_single)
  qed
  then show ?thesis using a by (auto simp: harmless_def stop_locks_def)
qed

lemma consumer_ordered:
  assumes "climbs (walked st)" "\<not> hazard c op"
  shows "ordered {} (consumer_locks c st op @ q) \<longleftrightarrow> ordered {} q"
proof (cases op)
  case (OpStop inst hs)
  then show ?thesis using assms(2) by (cases inst) (simp_all add: iterate_ordered harmless_stop)
qed (use assms in \<open>auto simp: insert_diff_single insert_Diff_if split: if_splits\<close>)

text \<open>The other threads take the rules only alone.\<close>

definition calm :: "action list \<Rightarrow> bool" where
  "calm p \<longleftrightarrow> Read Rules \<notin> set p \<and> Write Rules \<notin> set p"

lemma calm_Nil [simp]: "calm []"
  by (simp add: calm_def)

lemma calm_append [simp]: "calm (p @ q) \<longleftrightarrow> calm p \<and> calm q"
  by (auto simp: calm_def)

lemma calm_Cons [simp]: "calm (a # p) \<longleftrightarrow> a \<noteq> Read Rules \<and> a \<noteq> Write Rules \<and> calm p"
  by (auto simp: calm_def)

lemma calm_concat [simp]: "calm (concat ps) \<longleftrightarrow> (\<forall>p \<in> set ps. calm p)"
  by (auto simp: calm_def)

lemma calm_apart: "ordered h p \<Longrightarrow> calm p \<Longrightarrow> Rules \<notin> h \<Longrightarrow> apart h p"
proof (induction h p rule: apart.induct)
  case (3 h l p)
  then have "l \<noteq> Rules" by (cases l) (auto simp: calm_def)
  with 3 show ?case by auto
next
  case (4 h l p)
  then have "l \<noteq> Rules" by (cases l) (auto simp: calm_def)
  with 4 show ?case by auto
qed auto

lemma apart_append: "apart h p \<Longrightarrow> apart {} q \<Longrightarrow> apart h (p @ q)"
  by (induction h p rule: apart.induct) auto

lemma pass_calm: "acq = Read \<or> acq = Write \<Longrightarrow> calm (pass acq ov (\<lambda>_. []) s ts)"
  by (induction ts arbitrary: s) auto

lemma iterate_calm: "acq = Read \<or> acq = Write \<Longrightarrow> calm (iterate acq ov (\<lambda>_. []) ss)"
  by (cases ss) (auto simp: pass_calm)

lemma walk_calm [simp]: "calm (walk_locks w)"
  by (induction w) auto

lemma calm_parts [simp]:
  "calm (search_locks c m)" "calm (own_search c st b)" "calm (alert_locks c st)" "calm (change_locks s)"
  "calm (peek_locks s)" "calm (mark_locks c m)"
  by (simp_all add: search_locks_def own_search_def alert_locks_def change_locks_def peek_locks_def
      mark_locks_def iterate_calm split: option.split)

text \<open>So what is ordered and calm is apart.\<close>

lemma apartI:
  assumes "\<And>q. ordered {} (p @ q) \<longleftrightarrow> ordered {} q" "calm p"
  shows "apart {} p"
  using assms(1) [of "[]"] assms(2) by (simp add: calm_apart)

lemma suspend_apart: "climbs (walked st) \<Longrightarrow> apart {} (suspend_locks c st)"
proof -
  assume "climbs (walked st)"
  then have "apart {} (walk_locks (walked st))" by (intro apartI) simp_all
  moreover have "apart {} (alert_locks c st)" "apart {} (peek_locks (home st))" by (auto intro!: apartI)
  ultimately show ?thesis unfolding suspend_locks_def by (intro apart_append) simp_all
qed

lemma purge_ordered: "ordered {} (concat (map change_locks ss) @ q) = ordered {} q"
  by (induction ss) simp_all

lemma iterate_written_apart: "apart {} (iterate Write ov (\<lambda>_. []) (searched c m))"
  using searched_upt [of c m] by (auto intro!: apartI simp: iterate_ordered iterate_calm)

lemma other_apart:
  assumes "climbs (walked st)"
  shows "apart {} (other_locks c st op)"
proof (cases op)
  case StatusQuery
  have "apart {} (search_locks c None @ [Read Rules, Drop Rules])"
    by (rule apart_append [OF apartI]) simp_all
  then show ?thesis by (simp add: StatusQuery)
next
  case (YaraScan sto v hit)
  have "apart {} ([Read (Verdicts v), Drop (Verdicts v)] @
     (if sto then [Work, Write (Verdicts v), Drop (Verdicts v)] else []))"
    by (intro apart_append) simp_all
  from apart_append [OF this, of "if hit then suspend_locks c st else []"] show ?thesis
    using suspend_apart [OF assms] by (simp add: YaraScan)
next
  case Purge
  then show ?thesis by (auto intro!: apartI simp: purge_ordered)
next
  case (TrustOnceCommand m)
  then show ?thesis by (simp add: iterate_written_apart)
qed (use assms in \<open>auto intro!: apartI simp: release_locks_def kill_locks_def\<close>)

subsection \<open>What does not deadlock\<close>

lemma consumer_sequence:
  "\<forall>(st, op) \<in> set ops. climbs (walked st) \<and> \<not> hazard c op \<Longrightarrow>
     ordered {} (concat (map (\<lambda>(st, op). consumer_locks c st op) ops))"
  by (induction ops) (auto simp: consumer_ordered)

text \<open>As long as the consumer meets none of the five hazardous cases and the walks over the children
  visit their shards in increasing order, the agent does not deadlock: whatever sequence of events it
  handles, beside any number of reloads, requests, purges, scans and other tasks, and whatever is left
  open of the locks (policy towards writers, shards, iterators).\<close>

theorem agent_locks_safe:
  assumes "\<forall>(st, op) \<in> set ops. climbs (walked st) \<and> \<not> hazard c op"
    and "\<forall>(st, op) \<in> set others. climbs (walked st)"
    and "lock_reach wp
      (map start_thread (concat (map (\<lambda>(st, op). consumer_locks c st op) ops) #
         map (\<lambda>(st, op). other_locks c st op) others)) ts"
  shows "\<not> deadlock wp ts"
proof (rule ordered_never_deadlocks [OF _ _ assms(3)])
  show "ordered {} (concat (map (\<lambda>(st, op). consumer_locks c st op) ops))"
    using assms(1) by (rule consumer_sequence)
  show "\<forall>p \<in> set (map (\<lambda>(st, op). other_locks c st op) others). apart {} p"
    using assms(2) by (auto simp: other_apart)
qed

text \<open>A reader, a reload and a kill, the reload waiting behind the reader.\<close>

definition sample_setting :: lock_setting where
  "sample_setting = \<lparr>shard_count = 2, overlaps = True, clings = True, auditing = False, desktop = True\<rparr>"

definition sample_site :: site where
  "sample_site = \<lparr>home = 1, listed = Some 1, walked = Walk 0 [], marked = [Some 1]\<rparr>"

theorem agent_locks_safe_witness:
  "\<exists>ts. lock_reach True (map start_thread
      (concat (map (\<lambda>(st, op). consumer_locks sample_setting st op)
         [(sample_site, OpConnect True), (sample_site, OpFileRead True True 0 False)]) #
        map (\<lambda>(st, op). other_locks sample_setting st op) [(sample_site, Reload), (sample_site, KillTree True)])) ts \<and>
     ts ! 1 = \<lparr>prog = [Write Rules, Drop Rules], reads = [], writes = []\<rparr> \<and> \<not> deadlock True ts"
proof -
  let ?ts = "map start_thread
      (concat (map (\<lambda>(st, op). consumer_locks sample_setting st op)
         [(sample_site, OpConnect True), (sample_site, OpFileRead True True 0 False)]) #
        map (\<lambda>(st, op). other_locks sample_setting st op) [(sample_site, Reload), (sample_site, KillTree True)])"
  let ?us = "?ts[1 := advance (?ts ! 1)]"
  have "enabled True ?ts 1" by (simp add: enabled_def start_thread_def)
  then have "lock_step True ?ts ?us" by (intro lock_step.go) simp_all
  then have r: "lock_reach True ?ts ?us" by (rule further [OF here])
  have "\<not> deadlock True ?us"
    by (rule agent_locks_safe [OF _ _ r]) (simp_all add: sample_site_def)
  then show ?thesis using r by (intro exI [of _ ?us]) (simp add: start_thread_def)
qed

subsection \<open>What does\<close>

text \<open>Parts that only read, run alone, leave the locks as they were.\<close>

lemma alone_pass: "alone (pass Read ov (\<lambda>_. []) s ts) (Shard s # r, []) = Some (r, [])"
  by (induction ts arbitrary: s) auto

lemma alone_search [simp]: "alone (search_locks c m @ q) (r, []) = alone q (r, [])"
proof -
  have "alone (iterate Read (overlaps c) (\<lambda>_. []) ss) (r, []) = Some (r, [])" for ss
    by (cases ss) (simp_all add: alone_pass)
  then show ?thesis by (simp add: search_locks_def alone_append)
qed

lemma alone_own_search [simp]: "alone (own_search c st b @ q) (r, []) = alone q (r, [])"
  by (simp add: own_search_def)

lemma alone_alert [simp]: "alone (alert_locks c st @ q) (r, []) = alone q (r, [])"
  by (simp add: alert_locks_def)

lemma alone_peek [simp]: "alone (peek_locks s @ q) (r, []) = alone q (r, [])"
  by (simp add: peek_locks_def)

lemma alone_walk [simp]: "alone (walk_locks w @ q) (r, []) = alone q (r, [])"
proof (induction w arbitrary: r q)
  case (Walk s ws)
  have "alone (concat (map walk_locks vs) @ q') (r', []) = alone q' (r', [])" if "set vs \<subseteq> set ws" for vs q' r'
    using that by (induction vs) (auto simp: Walk.IH)
  then show ?case by simp
qed

lemma alone_marks:
  "Some s \<notin> set ms \<Longrightarrow> \<forall>t. Shard t \<in> set r \<longrightarrow> t = s \<Longrightarrow>
     alone (concat (map (mark_locks c) ms) @ q) (r, []) = alone q (r, [])"
proof (induction ms)
  case (Cons m ms)
  then have "alone (mark_locks c m @ q') (r, []) = alone q' (r, [])" for q'
    by (cases m) (auto simp: mark_locks_def change_locks_def)
  then show ?case using Cons by simp
qed simp

text \<open>A directory hijack blocks the consumer for ever, alone and under any policy: the handler keeps a
  reference to the entry it then wants to mark as terminated.\<close>

theorem hijack_deadlocks:
  assumes "Some (home st) \<in> set (marked st)"
  shows "\<exists>ts. lock_reach wp [start_thread (consumer_locks c st (OpFileWrite True v))] ts \<and> deadlock wp ts"
proof -
  obtain ms ms' where m: "marked st = ms @ Some (home st) # ms'" "Some (home st) \<notin> set ms"
    using split_list_first [OF assms] by blast
  let ?p = "own_search c st True @ peek_locks (home st) @ [Read (Shard (home st)), Read Rules] @
    walk_locks (walked st) @ concat (map (mark_locks c) ms) @ search_locks c (Some (home st)) @ []"
  have "alone ?p ([], []) = Some ([Rules, Shard (home st)], [])"
    using alone_marks [OF m(2), of "[Rules, Shard (home st)]"] by (simp del: append_Nil2)
  moreover have "\<exists>q. consumer_locks c st (OpFileWrite True v) = ?p @ Write (Shard (home st)) # q"
    by (simp add: terminate_locks_def m(1) mark_locks_def change_locks_def)
  ultimately show ?thesis using blocks_itself [where p = ?p and l = "Shard (home st)"] by fastforce
qed

theorem hijack_deadlocks_witness:
  "\<exists>ts. lock_reach False [start_thread (consumer_locks sample_setting sample_site (OpFileWrite True NoBreach))] ts \<and>
     deadlock False ts"
  by (rule hijack_deadlocks) (simp add: sample_site_def)

text \<open>A pass comes to each of its shards holding nothing else.\<close>

lemma pass_reaches:
  assumes "t \<in> set (s # ts)" "\<forall>u \<in> set (s # ts). u < t \<longrightarrow> body u = []" "sorted_wrt (<) (s # ts)"
  shows "\<exists>p q. pass Read ov body s ts = p @ body t @ q \<and>
    alone p (Shard s # r, []) = Some (Shard t # r, [])"
  using assms
proof (induction ts arbitrary: s)
  case Nil
  have "t = s" using Nil.prems(1) by simp
  moreover have "pass Read ov body s [] = [] @ body s @ [Drop (Shard s)]" by simp
  moreover have "alone [] (Shard s # r, []) = Some (Shard s # r, [])" by simp
  ultimately show ?case by blast
next
  case (Cons u ts)
  show ?case
  proof (cases "t = s")
    case True
    obtain q where "pass Read ov body s (u # ts) = [] @ body s @ q" by simp
    moreover have "alone [] (Shard s # r, []) = Some (Shard s # r, [])" by simp
    ultimately show ?thesis unfolding True by blast
  next
    case False
    then have "t \<in> set (u # ts)" using Cons.prems(1) by simp
    moreover have "s < t" using calculation Cons.prems(3) by auto
    ultimately obtain p q where p: "pass Read ov body u ts = p @ body t @ q"
      "alone p (Shard u # r, []) = Some (Shard t # r, [])"
      using Cons.IH [of u] Cons.prems by auto
    let ?h = "if ov then [Read (Shard u), Drop (Shard s)] else [Drop (Shard s), Read (Shard u)]"
    have "body s = []" using Cons.prems(2) \<open>s < t\<close> by simp
    then have "pass Read ov body s (u # ts) = (?h @ p) @ body t @ q" by (simp add: p(1))
    moreover have "alone (?h @ p) (Shard s # r, []) = Some (Shard t # r, [])"
      using p(2) \<open>s < t\<close> by (simp add: alone_append)
    ultimately show ?thesis by blast
  qed
qed

text \<open>Where an iterator keeps its shard when the caller drops the entry, the exit of any tracked process
  that is not a top-level installer blocks the consumer for ever, alone and under any policy: the
  handler changes the entry while it iterates over the table.\<close>

theorem exit_deadlocks:
  assumes "clings c" "s \<in> set hs" "s < shard_count c"
  shows "\<exists>ts. lock_reach wp [start_thread (consumer_locks c st (OpStop False hs))] ts \<and> deadlock wp ts"
proof -
  define t where "t = (LEAST t. t \<in> set hs)"
  have tin: "t \<in> set hs" "t \<le> s"
    using assms(2) LeastI [of "\<lambda>t. t \<in> set hs" s] Least_le [of "\<lambda>t. t \<in> set hs" s] by (simp_all add: t_def)
  have least: "u \<notin> set hs" if "u < t" for u
    using that not_less_Least [of u "\<lambda>t. t \<in> set hs"] by (simp add: t_def)
  obtain n where n: "shard_count c = Suc n" using assms(3) by (cases "shard_count c") auto
  have up: "[0..<shard_count c] = 0 # [Suc 0..<shard_count c]" by (simp add: n upt_conv_Cons)
  have "t \<in> set (0 # [Suc 0..<shard_count c])" using tin(2) assms(3) by auto
  moreover have "\<forall>u \<in> set (0 # [Suc 0..<shard_count c]). u < t \<longrightarrow> stop_locks c hs u = []"
    using least by (auto simp: stop_locks_def)
  ultimately obtain p q where p: "pass Read (overlaps c) (stop_locks c hs) 0 [Suc 0..<shard_count c] =
      p @ stop_locks c hs t @ q" "alone p (Shard 0 # [], []) = Some (Shard t # [], [])"
    using pass_reaches [of t 0 "[Suc 0..<shard_count c]" "stop_locks c hs"] by fastforce
  obtain k where "count_list hs t = Suc k"
    using tin(1) count_list_0_iff [of hs t] by (cases "count_list hs t") auto
  then obtain q' where q': "stop_locks c hs t = Write (Shard t) # q'"
    using assms(1) by (simp add: stop_locks_def change_locks_def)
  let ?p = "search_locks c (case hs of [] \<Rightarrow> None | s # _ \<Rightarrow> Some s) @ Read (Shard 0) # p"
  have "alone ?p ([], []) = Some ([Shard t], [])" using p(2) by simp
  moreover have "consumer_locks c st (OpStop False hs) = ?p @ Write (Shard t) # (q' @ q)"
    by (simp add: up p(1) q')
  ultimately show ?thesis using blocks_itself [of ?p] by (metis list.set_intros(1))
qed

theorem exit_deadlocks_witness:
  "\<exists>ts. lock_reach False [start_thread (consumer_locks sample_setting sample_site (OpStop False [1]))] ts \<and>
     deadlock False ts"
  by (rule exit_deadlocks [of _ 1]) (simp_all add: sample_setting_def)

text \<open>Where readers wait behind waiting writers, a rules reload that arrives while a sensitive read is
  being contained blocks both for ever: the read handler holds the rules and asks for them again to
  look for a desktop session.\<close>

theorem reload_deadlocks:
  assumes "\<not> auditing c"
  shows "\<exists>ts. lock_reach True
      (map start_thread [consumer_locks c st (OpFileRead True True v True), other_locks c st' Reload]) ts \<and>
     deadlock True ts"
proof -
  let ?p = "[Read Rules] @ own_search c st True @
    [Write (Shard (home st)), Write (Velocity v), Drop (Velocity v), Drop (Shard (home st))] @
    walk_locks (walked st) @ alert_locks c st @ []"
  have "alone ?p ([], []) = Some ([Rules], [])" by (simp del: append_Nil2)
  moreover have "\<exists>q. consumer_locks c st (OpFileRead True True v True) = ?p @ Read Rules # q"
    using assms by (simp add: suspend_locks_def)
  ultimately show ?thesis
    using blocks_with_writer [where p = ?p and l = Rules and u = "start_thread (other_locks c st' Reload)"]
    by (fastforce simp: start_thread_def held_def)
qed

theorem reload_deadlocks_witness:
  "\<exists>ts. lock_reach True
      (map start_thread [consumer_locks sample_setting sample_site (OpFileRead True True 0 True),
         other_locks sample_setting sample_site Reload]) ts \<and> deadlock True ts"
  by (rule reload_deadlocks) (simp add: sample_setting_def)

end
