(* ===== verification/LockedEvents.thy ===== *)
theory LockedEvents
  imports Runs LockPrograms
begin

section \<open>The locks of an event\<close>

text \<open>
  Which lock operations the handler of a given event makes in a given state: \<open>event_op\<close> reads off the
  branches the handler takes, \<open>event_site\<close> where it finds its entries, \<open>event_locks\<close> puts the
  two together. Branches and places are read off in one state: what other threads change while the handler
  is running is not taken into account. The theorems on locks become theorems on events: which
  events block their own handler, what is safe from deadlocks, and which containments are not.
\<close>

subsection \<open>Where things are stored\<close>

text \<open>The shards the hash functions assign in the other two maps; the process table's are \<^const>\<open>table_shard\<close>.\<close>

record placement =
  children_shard :: "process_key \<Rightarrow> nat"
  velocity_shard :: "string \<Rightarrow> nat"

text \<open>\<^verbatim>\<open>collect_descendants\<close> again, now for the shards it reads.\<close>

partial_function (option) walk_children ::
  "(process_key \<Rightarrow> nat) \<Rightarrow> children_map \<Rightarrow> process_key list \<Rightarrow> walk list option" where
  "walk_children sh cm ks =
     (case ks of
        [] \<Rightarrow> Some []
      | c # cs \<Rightarrow>
          Option.bind (walk_children sh cm (children_of cm c)) (\<lambda>below.
          Option.bind (walk_children sh cm cs) (\<lambda>rest.
          Some (Walk (sh c) below # rest))))"

definition walk_of :: "(process_key \<Rightarrow> nat) \<Rightarrow> children_map \<Rightarrow> process_key \<Rightarrow> walk option" where
  "walk_of sh cm k = map_option (Walk (sh k)) (walk_children sh cm (children_of cm k))"

text \<open>The entries \<^verbatim>\<open>terminate_threat_pkm\<close> marks, one search after the other.\<close>

fun mark_places :: "env \<Rightarrow> u32 list \<Rightarrow> process_map \<Rightarrow> nat option list" where
  "mark_places w [] pm = []"
| "mark_places w (p # ps) pm =
     map_option (table_shard w \<circ> fst) (find_live pm p) #
     mark_places w ps (mark_terminated (clock w) p pm)"

text \<open>The site of an operation on a key. Where the walk never ends, no lock sequence is meant: the handler
  does not return.\<close>

definition site_at :: "placement \<Rightarrow> env \<Rightarrow> engine \<Rightarrow> process_key \<Rightarrow> site" where
  "site_at pl w e key =
     \<lparr>home = table_shard w key,
      listed = map_option (table_shard w \<circ> fst) (find_pid (process_map e) (pk_pid key)),
      walked = (case walk_of (children_shard pl) (children_map e) key of
          None \<Rightarrow> Walk (children_shard pl key) [] | Some wk \<Rightarrow> wk),
      marked = mark_places w
        ((case collect_descendants (children_map e) key of None \<Rightarrow> [] | Some below \<Rightarrow> below) @ [pk_pid key])
        (process_map e)\<rparr>"

text \<open>A creation works on the new entry, every other event on the live entry of its PID; a process that is
  not tracked has none, and is neither walked nor marked.\<close>

definition event_site :: "placement \<Rightarrow> env \<Rightarrow> telemetry_event_raw \<Rightarrow> engine \<Rightarrow> site" where
  "event_site pl w raw e =
     (let h = header raw in
      if hdr_event_type h = ProcessCreate then
        let d = dec_process_create_details (details_buffer raw)
        in site_at pl w (create_entry w h d e)
             \<lparr>pk_pid = pc_child_pid d, pk_start_time = timestamp_ns h\<rparr>
      else (case find_live (process_map e) (hdr_pid h) of
          Some (k, _) \<Rightarrow> site_at pl w e k
        | None \<Rightarrow>
            \<lparr>home = 0,
             listed = map_option (table_shard w \<circ> fst) (find_pid (process_map e) (hdr_pid h)),
             walked = Walk 0 [], marked = []\<rparr>))"

subsection \<open>Which branches a handler takes\<close>

definition write_branch :: "config \<Rightarrow> process_state \<Rightarrow> string \<Rightarrow> install_verdict" where
  "write_branch cfg s path =
     (if \<not> is_install_context s then NotInstall
      else if is_container_socket (to_lowercase path) then ContainerSocket
      else if is_persistence_path cfg path then RuleBreach else NoBreach)"

definition open_branch :: "config \<Rightarrow> process_state \<Rightarrow> string \<Rightarrow> install_verdict" where
  "open_branch cfg s path =
     (if \<not> is_install_context s then NotInstall
      else if is_container_socket (to_lowercase path) then ContainerSocket
      else if is_credential_path cfg path then RuleBreach else NoBreach)"

definition read_op :: "placement \<Rightarrow> telemetry_header \<Rightarrow> file_read_details \<Rightarrow> engine \<Rightarrow> consumer_op" where
  "read_op pl h d e =
     (let path = cstr (fr_file_path d); cfg = config_cell e; cat = resolve_category cfg path in
      if is_path_excluded cfg path \<or> cat = 0 then OpFileRead False False 0 False
      else (case find_live (process_map e) (hdr_pid h) of
              None \<Rightarrow> OpFileRead True False 0 False
            | Some (_, s) \<Rightarrow>
                OpFileRead True True (velocity_shard pl (to_lowercase (image_path s)))
                  (read_verdict path (record_read cat path s) \<noteq> None)))"

definition dup2_op :: "env \<Rightarrow> telemetry_header \<Rightarrow> dup2_details \<Rightarrow> engine \<Rightarrow> consumer_op" where
  "dup2_op w h d e =
     (let live = find_live (process_map e) (hdr_pid h) in
      OpDup2
        (case proc_fd w (hdr_pid h) (sint (du_old_fd d)) of None \<Rightarrow> True | Some t \<Rightarrow> \<not> starts_with t ''socket:'')
        (sint (du_new_fd d) \<in> {0, 1, 2} \<and> old_fd_is_socket w (hdr_pid h) (du_old_fd d) e)
        (live \<noteq> None)
        (case live of None \<Rightarrow> False | Some (_, s) \<Rightarrow> is_install_context s))"

definition ptrace_op :: "env \<Rightarrow> telemetry_header \<Rightarrow> bpf_ptrace_attach_details \<Rightarrow> engine \<Rightarrow> consumer_op" where
  "ptrace_op w h d e =
     (let exe = (case proc_exe w (pt_tracee_pid d) of None \<Rightarrow> '''' | Some p \<Rightarrow> to_lowercase p);
          live = find_live (process_map e) (hdr_pid h);
          untrusted = (case live of None \<Rightarrow> False | Some (_, s) \<Rightarrow> is_untrusted s)
      in OpPtrace (live \<noteq> None) (list_ex (contains exe) high_value_targets \<or> untrusted) untrusted)"

definition image_op :: "env \<Rightarrow> bpf_image_load_details \<Rightarrow> process_state \<Rightarrow> consumer_op" where
  "image_op w d s =
     (let name = to_lowercase (cstr (il_module_path d)) in
      OpImageLoad (\<not> trusted_exec_inode w (il_file_inode d) \<and>
        (is_untrusted s \<or> contains name ''/tmp/'' \<or> contains name ''/dev/shm/'')))"

definition create_op ::
  "placement \<Rightarrow> env \<Rightarrow> telemetry_header \<Rightarrow> process_create_details \<Rightarrow> engine \<Rightarrow> consumer_op" where
  "create_op pl w h d e =
     (let path = cstr (pc_child_image_path d); cmd = cstr (pc_child_command_line d) in
      OpCreate (is_anonymous_exec path)
        (map_option (table_shard w \<circ> fst) (find_pid (process_map e) (pc_child_pid d)))
        (map_option (table_shard w \<circ> fst) (find_live (process_map e) (pc_real_parent_pid d)))
        (is_spoofed (created_state w h d e))
        (children_shard pl \<lparr>pk_pid = hdr_pid h, pk_start_time = 0\<rparr>)
        (evaluate (sigma_rules e) (creation_event w (hdr_pid h) path cmd) \<noteq> None))"

definition stop_op :: "env \<Rightarrow> telemetry_header \<Rightarrow> engine \<Rightarrow> consumer_op" where
  "stop_op w h e =
     OpStop (case find_live (process_map e) (hdr_pid h) of None \<Rightarrow> False | Some (_, s) \<Rightarrow> is_top_level_install s)
       (map (table_shard w \<circ> fst)
         (filter (\<lambda>(k, s). pk_pid k = hdr_pid h \<and> \<not> terminated s) (process_map e)))"

text \<open>A handler that only looks a process up when the event has one.\<close>

definition tracked_op :: "telemetry_header \<Rightarrow> engine \<Rightarrow> (process_state \<Rightarrow> consumer_op) \<Rightarrow> consumer_op" where
  "tracked_op h e f =
     (case find_live (process_map e) (hdr_pid h) of None \<Rightarrow> OpUntracked | Some (_, s) \<Rightarrow> f s)"

definition event_op :: "placement \<Rightarrow> env \<Rightarrow> telemetry_event_raw \<Rightarrow> engine \<Rightarrow> consumer_op" where
  "event_op pl w raw e =
     (let h = header raw; buf = details_buffer raw; cfg = config_cell e in
      case hdr_event_type h of
        ProcessCreate \<Rightarrow> create_op pl w h (dec_process_create_details buf) e
      | ProcessStop \<Rightarrow> stop_op w h e
      | FileRead \<Rightarrow> read_op pl h (dec_file_read_details buf) e
      | FileWrite \<Rightarrow> tracked_op h e (\<lambda>s. let path = cstr (fw_file_path (dec_file_write_details buf)) in
          OpFileWrite (is_directory_hijack cfg (image_path s) path) (write_branch cfg s path))
      | NetworkConnect \<Rightarrow> tracked_op h e (\<lambda>s. OpConnect (category_flags s \<noteq> 0))
      | FileOpen \<Rightarrow> tracked_op h e (\<lambda>s.
          OpFileOpen (open_branch cfg s (cstr (fo_file_path (dec_file_open_details buf)))))
      | Dup2 \<Rightarrow> dup2_op w h (dec_dup2_details buf) e
      | RegistryWrite \<Rightarrow> tracked_op h e (\<lambda>s.
          OpRegistryWrite (is_install_context s \<and>
            is_persistence_key (to_lowercase (cstr (rw_key_path (dec_registry_write_details buf))))))
      | PtraceAttach \<Rightarrow> ptrace_op w h (dec_bpf_ptrace_attach_details buf) e
      | MemoryProtect \<Rightarrow> tracked_op h e (\<lambda>s. OpMemoryProtect (is_untrusted s))
      | ImageLoad \<Rightarrow> tracked_op h e (image_op w (dec_bpf_image_load_details buf))
      | _ \<Rightarrow> OpQuiet)"

text \<open>The number of shards and the hand-over between them are left open; whether an iterator clings to its shard
  is the environment's answer, audit mode and the desktop session are the state's.\<close>

definition setting_in :: "lock_setting \<Rightarrow> env \<Rightarrow> engine \<Rightarrow> lock_setting" where
  "setting_in c w e =
     c\<lparr>clings := iterator_clings w, auditing := audit_mode e, desktop := get_active_session_context w (config_cell e) \<noteq> None\<rparr>"

definition event_locks ::
  "lock_setting \<Rightarrow> placement \<Rightarrow> env \<Rightarrow> telemetry_event_raw \<Rightarrow> engine \<Rightarrow> action list" where
  "event_locks c pl w raw e = consumer_locks (setting_in c w e) (event_site pl w raw e) (event_op pl w raw e)"

subsection \<open>Which events make the handler wait for itself\<close>

text \<open>A write into the protected directory of another vendor, and, where iterators cling to their shard, the exit
  of a process that is not a top-level installer.\<close>

definition self_blocking :: "env \<Rightarrow> telemetry_event_raw \<Rightarrow> engine \<Rightarrow> bool" where
  "self_blocking w raw e \<longleftrightarrow>
     (case find_live (process_map e) (hdr_pid (header raw)) of
        None \<Rightarrow> False
      | Some (_, s) \<Rightarrow>
          hdr_event_type (header raw) = FileWrite \<and>
            is_directory_hijack (config_cell e) (image_path s)
              (cstr (fw_file_path (dec_file_write_details (details_buffer raw)))) \<or>
          hdr_event_type (header raw) = ProcessStop \<and> iterator_clings w \<and> \<not> is_top_level_install s)"









subsection \<open>Containments and branches\<close>

lemma suspend_signals:
  "suspend_process_tree w k reason cat r e = Some e' \<Longrightarrow> signals e' = signals e \<longleftrightarrow> audit_mode e"
  by (auto simp: suspend_process_tree_def engine_simps signalled_def Let_def split: option.splits if_splits)

lemma read_op_kind: "\<exists>se tr v su. read_op pl h d e = OpFileRead se tr v su"
  by (auto simp: read_op_def Let_def split: option.split)

lemma read_stops:
  assumes "file_read w h d e = Some e'" "\<not> audit_mode e"
  shows "signals e' \<noteq> signals e \<longleftrightarrow> (\<exists>v. read_op pl h d e = OpFileRead True True v True)"
  using assms
  by (auto simp: file_read_def read_op_def Let_def split: if_splits option.splits dest!: suspend_signals)

lemma create_stops:
  assumes "process_create w h d e = Some e'" "\<not> audit_mode e"
  shows "hazard c (create_op pl w h d e) \<Longrightarrow> signals e' \<noteq> signals e"
  using assms
  by (auto simp: process_create_eq sigma_check_def create_op_def Let_def split: option.splits dest!: suspend_signals)

lemma ptrace_stops:
  assumes "ptrace_attach w h d e = Some e'" "\<not> audit_mode e"
  shows "hazard c (ptrace_op w h d e) \<Longrightarrow> signals e' \<noteq> signals e"
  using assms
  by (auto simp: ptrace_attach_def ptrace_op_def Let_def split: if_splits option.splits dest!: suspend_signals)

subsection \<open>Events that contain nothing\<close>

lemma timed_walk_of: "timed e \<Longrightarrow> pk_start_time k \<noteq> 0 \<Longrightarrow> walk_of sh (children_map e) k = Some (Walk (sh k) [])"
  by (simp add: walk_of_def children_of_def timed_no_children walk_children.simps)

lemma site_climbs: "timed e \<Longrightarrow> pk_start_time k \<noteq> 0 \<Longrightarrow> climbs (walked (site_at pl w e k))"
  by (simp add: site_at_def timed_walk_of)

lemma event_site_climbs:
  assumes "timed e" "env_ok w" "timestamp_ns (header raw) \<noteq> 0"
  shows "climbs (walked (event_site pl w raw e))"
  using assms create_entry_timed [of w "header raw" e]
  by (auto simp: event_site_def Let_def intro!: site_climbs dest: timed_live_key split: option.split)

text \<open>The handler does not wait for itself, and outside audit mode it sends no signal.\<close>

definition contains_nothing :: "env \<Rightarrow> telemetry_event_raw \<Rightarrow> engine \<Rightarrow> bool" where
  "contains_nothing w raw e \<longleftrightarrow>
     \<not> self_blocking w raw e \<and>
     (audit_mode e \<or> (case handle_event w raw e of None \<Rightarrow> False | Some e' \<Rightarrow> signals e' = signals e))"

lemma setting_in_simps [simp]:
  "clings (setting_in c w e) = iterator_clings w" "auditing (setting_in c w e) = audit_mode e"
  "shard_count (setting_in c w e) = shard_count c"
  by (simp_all add: setting_in_def)

lemma stop_hits: "find_live pm pid = None \<longleftrightarrow> filter (\<lambda>(k, s). pk_pid k = pid \<and> \<not> terminated s) pm = []"
  by (auto simp: find_live_def find_None_iff filter_empty_conv)

lemma nothing_no_hazard:
  assumes "contains_nothing w raw e"
  shows "\<not> hazard (setting_in c w e) (event_op pl w raw e)"
proof (cases "hdr_event_type (header raw)")
  case ProcessCreate
  let ?d = "dec_process_create_details (details_buffer raw)"
  have op: "event_op pl w raw e = create_op pl w (header raw) ?d e"
    "handle_event w raw e = process_create w (header raw) ?d e"
    using ProcessCreate by (simp_all add: event_op_def handle_event_def Let_def)
  show ?thesis
  proof
    assume hz: "hazard (setting_in c w e) (event_op pl w raw e)"
    then have audit: "\<not> audit_mode e" by (simp add: op create_op_def Let_def)
    then obtain e' where "process_create w (header raw) ?d e = Some e'" "signals e' = signals e"
      using assms by (auto simp: contains_nothing_def op split: option.splits)
    then show False using create_stops [OF _ audit] hz by (simp add: op)
  qed
next
  case ProcessStop
  then show ?thesis
    using assms stop_hits [of "process_map e" "hdr_pid (header raw)"]
    by (auto simp: contains_nothing_def self_blocking_def event_op_def stop_op_def Let_def split: option.splits)
next
  case FileRead
  let ?d = "dec_file_read_details (details_buffer raw)"
  have op: "event_op pl w raw e = read_op pl (header raw) ?d e"
    "handle_event w raw e = file_read w (header raw) ?d e"
    using FileRead by (simp_all add: event_op_def handle_event_def Let_def)
  show ?thesis
  proof
    assume hz: "hazard (setting_in c w e) (event_op pl w raw e)"
    obtain se tr v su where r: "read_op pl (header raw) ?d e = OpFileRead se tr v su"
      using read_op_kind by blast
    then have audit: "\<not> audit_mode e" "se \<and> tr \<and> su" using hz by (simp_all add: op)
    then obtain e' where "file_read w (header raw) ?d e = Some e'" "signals e' = signals e"
      using assms by (auto simp: contains_nothing_def op split: option.splits)
    then show False using read_stops [OF _ audit(1), of w "header raw" ?d e' pl] r audit(2) by simp
  qed
next
  case FileWrite
  then show ?thesis
    using assms by (auto simp: contains_nothing_def self_blocking_def event_op_def tracked_op_def Let_def split: option.splits)
next
  case PtraceAttach
  let ?d = "dec_bpf_ptrace_attach_details (details_buffer raw)"
  have op: "event_op pl w raw e = ptrace_op w (header raw) ?d e"
    "handle_event w raw e = ptrace_attach w (header raw) ?d e"
    using PtraceAttach by (simp_all add: event_op_def handle_event_def Let_def)
  show ?thesis
  proof
    assume hz: "hazard (setting_in c w e) (event_op pl w raw e)"
    then have audit: "\<not> audit_mode e" by (simp add: op ptrace_op_def Let_def)
    then obtain e' where "ptrace_attach w (header raw) ?d e = Some e'" "signals e' = signals e"
      using assms by (auto simp: contains_nothing_def op split: option.splits)
    then show False using ptrace_stops [OF _ audit] hz by (simp add: op)
  qed
qed (simp_all add: event_op_def tracked_op_def dup2_op_def image_op_def Let_def split: option.split)

lemma events_ordered:
  assumes "\<forall>(w, raw, e) \<in> set evs. env_ok w \<and> timed e \<and> timestamp_ns (header raw) \<noteq> 0 \<and> contains_nothing w raw e"
  shows "ordered {} (concat (map (\<lambda>(w, raw, e). event_locks c pl w raw e) evs))"
  using assms
proof (induction evs)
  case (Cons x evs)
  obtain w raw e where x: "x = (w, raw, e)" by (cases x) auto
  have "climbs (walked (event_site pl w raw e))" using Cons.prems event_site_climbs by (simp add: x)
  moreover have "\<not> hazard (setting_in c w e) (event_op pl w raw e)"
    using Cons.prems nothing_no_hazard by (simp add: x)
  ultimately show ?case using Cons consumer_ordered by (simp add: x event_locks_def)
qed simp

text \<open>C14. What is safe from deadlocks. The consumer handles any events that neither make their handler wait
  for itself nor, outside audit mode, send a signal, each in a state of its own, beside any number of
  requests, reloads, purges and tasks; then no deadlock over the table, the children, the rules, the velocity
  map, the verdicts and the terminals is reached, whatever is left open of the locks (preference of
  writers, number of shards, hand-over and clinging of iterators). In scope are events with non-zero time
  stamps in states whose entries have non-zero start times; walks over the children, by the other threads,
  that visit shards in increasing order; lock operations read off the branches a handler takes in the
  state it starts in; and not the inner locks of Tokio.\<close>

theorem quiet_agent_never_deadlocks:
  assumes "\<forall>(w, raw, e) \<in> set evs. env_ok w \<and> timed e \<and> timestamp_ns (header raw) \<noteq> 0 \<and> contains_nothing w raw e"
    and "\<forall>(c, st, op) \<in> set others. climbs (walked st)"
    and "lock_reach wp
      (map start_thread (concat (map (\<lambda>(w, raw, e). event_locks c pl w raw e) evs) #
         map (\<lambda>(c, st, op). other_locks c st op) others)) ts"
  shows "\<not> deadlock wp ts"
proof (rule ordered_never_deadlocks [OF _ _ assms(3)])
  show "ordered {} (concat (map (\<lambda>(w, raw, e). event_locks c pl w raw e) evs))"
    using assms(1) by (rule events_ordered)
  show "\<forall>p \<in> set (map (\<lambda>(c, st, op). other_locks c st op) others). apart {} p"
    using assms(2) by (auto simp: other_apart)
qed

subsection \<open>Events that can deadlock\<close>

lemma find_live_mark_other:
  assumes "p \<noteq> q"
  shows "find_live (mark_terminated now q pm) p = find_live pm p"
proof (cases "find_live pm q")
  case (Some r)
  then obtain k s where r: "find_live pm q = Some (k, s)" by (cases r) auto
  then have "pk_pid k = q" using find_live_SomeD by blast
  then have "find_live (dm_alter k f pm) p = find_live pm p" for f
    using assms by (induction pm) (auto simp: find_live_def dm_alter_def split: if_splits)
  then show ?thesis by (simp add: mark_terminated_def r)
qed (simp add: mark_terminated_def)

lemma mark_places_mem:
  "p \<in> set ps \<Longrightarrow> find_live pm p = Some (k, s) \<Longrightarrow> Some (table_shard w k) \<in> set (mark_places w ps pm)"
proof (induction ps arbitrary: pm)
  case (Cons q ps)
  then show ?case by (cases "p = q") (auto simp: find_live_mark_other)
qed simp

lemma site_marks_home:
  assumes "find_live (process_map e) (pk_pid k) = Some (k, s)"
  shows "Some (home (site_at pl w e k)) \<in> set (marked (site_at pl w e k))"
  using mark_places_mem [OF _ assms] by (simp add: site_at_def)

text \<open>C11. A write by a tracked process into a directory protected for another vendor kills the process and
  then ends the agent's consumer: outside audit mode SIGKILL is sent, then the handler waits for ever, alone and
  under any policy, for the reference to the entry it still holds itself. The entry stays live in the
  table and the alert is never raised.\<close>

theorem hijack_event_deadlocks:
  assumes "hdr_event_type (header raw) = FileWrite"
    and "find_live (process_map e) (hdr_pid (header raw)) = Some (k, s)"
    and "is_directory_hijack (config_cell e) (image_path s)
      (cstr (fw_file_path (dec_file_write_details (details_buffer raw))))"
    and "handle_event w raw e = Some e'"
  shows "(\<not> audit_mode e \<longrightarrow>
      (SIGKILL, sint (hdr_pid (header raw))) \<in> set (drop (length (signals e)) (signals e'))) \<and>
    (audit_mode e \<longrightarrow> signals e' = signals e) \<and>
    find_live (process_map e') (hdr_pid (header raw)) = Some (k, s) \<and> alerts e' = alerts e \<and>
    consumer_blocked e' \<and>
    (\<exists>ts. lock_reach wp [start_thread (event_locks c pl w raw e)] ts \<and> deadlock wp ts)"
proof -
  have k: "pk_pid k = hdr_pid (header raw)" using find_live_SomeD [OF assms(2)] by simp
  then have live: "find_live (process_map e) (pk_pid k) = Some (k, s)" using assms(2) by simp
  have "Some (home (event_site pl w raw e)) \<in> set (marked (event_site pl w raw e))"
    using site_marks_home [OF live] assms(1,2) by (simp add: event_site_def)
  moreover have "\<exists>v. event_op pl w raw e = OpFileWrite True v"
    using assms(1-3) by (simp add: event_op_def tracked_op_def)
  ultimately have locks: "\<exists>ts. lock_reach wp [start_thread (event_locks c pl w raw e)] ts \<and> deadlock wp ts"
    unfolding event_locks_def using hijack_deadlocks by metis
  obtain reason r where h: "terminate_holding w k reason ''directory_hijack'' r e = Some e'"
    using assms by (auto simp: handle_event_def file_write_def Let_def)
  then obtain below where "collect_descendants (children_map e) k = Some below"
    by (cases "collect_descendants (children_map e) k") (simp_all add: terminate_holding_def)
  from terminate_holding_blocks [OF live this, of w reason "''directory_hijack''" r] h
  have "consumer_blocked e'" "alerts e' = alerts e" "find_live (process_map e') (pk_pid k) = Some (k, s)"
    "signals e' = signals e @ (if audit_mode e then [] else signalled SIGKILL (below @ [pk_pid k]))"
    by auto
  then show ?thesis using locks k by (auto simp: signalled_def)
qed

text \<open>C12. Where an iterator keeps its shard when the caller drops the entry, the exit of any tracked process
  that is not a top-level installer blocks the consumer for ever, alone and under any policy: the
  handler changes the entry while it iterates over the table. The entry stays live.\<close>

theorem exit_event_deadlocks:
  assumes "iterator_clings w" "hdr_event_type (header raw) = ProcessStop"
    and "find_live (process_map e) (hdr_pid (header raw)) = Some (k, s)" "\<not> is_top_level_install s"
    and "table_shard w k < shard_count c"
  shows "handle_event w raw e = Some (e\<lparr>consumer_blocked := True\<rparr>) \<and>
    (\<exists>ts. lock_reach wp [start_thread (event_locks c pl w raw e)] ts \<and> deadlock wp ts)"
proof -
  let ?hs = "map (table_shard w \<circ> fst)
    (filter (\<lambda>(k, s). pk_pid k = hdr_pid (header raw) \<and> \<not> terminated s) (process_map e))"
  have "event_op pl w raw e = OpStop False ?hs"
    using assms(2-4) by (simp add: event_op_def stop_op_def)
  moreover have "table_shard w k \<in> set ?hs"
    using find_live_SomeD [OF assms(3)] by force
  moreover have "handle_event w raw e = Some (e\<lparr>consumer_blocked := True\<rparr>)"
    using assms(1-4) by (simp add: handle_event_def Let_def process_stop_def)
  ultimately show ?thesis
    unfolding event_locks_def using assms(1,5) exit_deadlocks [of "setting_in c w e" "table_shard w k" ?hs] by simp
qed

text \<open>C15. Where readers wait behind waiting writers, every read whose handling stops a process can be blocked
  for ever, together with the reload, by a rules reload that arrives in the meantime: the read handler
  holds the rules and asks for them again to look for a desktop session.\<close>

theorem stopping_read_deadlocks:
  assumes "hdr_event_type (header raw) = FileRead"
    and "handle_event w raw e = Some e'" "signals e' \<noteq> signals e"
  shows "\<exists>ts. lock_reach True
      (map start_thread [event_locks c pl w raw e, other_locks c' st Reload]) ts \<and> deadlock True ts"
proof -
  have h: "file_read w (header raw) (dec_file_read_details (details_buffer raw)) e = Some e'"
    using assms(1,2) by (simp add: handle_event_def Let_def)
  then have audit: "\<not> audit_mode e"
    using assms(3) by (auto simp: file_read_def Let_def split: if_splits option.splits dest!: suspend_signals)
  have "event_op pl w raw e = read_op pl (header raw) (dec_file_read_details (details_buffer raw)) e"
    using assms(1) by (simp add: event_op_def Let_def)
  then obtain v where "event_op pl w raw e = OpFileRead True True v True"
    using read_stops [OF h audit, of pl] assms(3) by auto
  then show ?thesis
    unfolding event_locks_def using reload_deadlocks [of "setting_in c w e"] audit by simp
qed

subsection \<open>At concrete events\<close>

definition read_event :: "string \<Rightarrow> telemetry_event_raw" where
  "read_event p = \<lparr>header = sample_header FileRead, details_buffer = enc_file_read_details (read_details p)\<rparr>"

definition write_event :: "string \<Rightarrow> telemetry_event_raw" where
  "write_event p = \<lparr>header = sample_header FileWrite, details_buffer = enc_file_write_details (write_details p)\<rparr>"

definition exit_event :: telemetry_event_raw where
  "exit_event = \<lparr>header = sample_header ProcessStop, details_buffer = []\<rparr>"

lemma read_event_simps [simp]:
  "header (read_event p) = sample_header FileRead"
  "length p \<le> 512 \<Longrightarrow> dec_file_read_details (details_buffer (read_event p)) = read_details p"
  using file_read_details_codec.dec_exact [of "read_details p"]
  by (simp_all add: read_event_def wf_file_read_details_def read_details_def length_pad_text)

lemma write_event_simps [simp]:
  "header (write_event p) = sample_header FileWrite"
  "length p \<le> 512 \<Longrightarrow> dec_file_write_details (details_buffer (write_event p)) = write_details p"
  using file_write_details_codec.dec_exact [of "write_details p"]
  by (simp_all add: write_event_def wf_file_write_details_def write_details_def length_pad_text)

lemma exit_event_simps [simp]: "header exit_event = sample_header ProcessStop"
  by (simp add: exit_event_def)

definition sample_placement :: placement where
  "sample_placement = \<lparr>children_shard = (\<lambda>k. unat (pk_pid k) mod 2),
     velocity_shard = (\<lambda>p. length p mod 2)\<rparr>"

text \<open>A process reads a key that is not its own.\<close>

lemma key_read:
  "\<exists>e'. handle_event quiet_env (read_event ''/home/u/.ssh/id_rsa'')
     (sample_engine read_config None (sample_process ''/bin/cat'' False)) = Some e' \<and> signals e' = [(SIGSTOP, 7)]"
proof -
  let ?e = "sample_engine read_config None (sample_process ''/bin/cat'' False)"
  let ?d = "read_details ''/home/u/.ssh/id_rsa''"
  have p: "cstr (fr_file_path ?d) = ''/home/u/.ssh/id_rsa''"
    by (rule read_details_path) (simp add: is_ascii_text_def)
  have cat: "resolve_category read_config ''/home/u/.ssh/id_rsa'' = 0x10" by code_simp
  have "\<not> is_authorized_vendor ''/home/u/.ssh/id_rsa'' ''/bin/cat''" by code_simp
  then have v: "read_violation ''/home/u/.ssh/id_rsa'' (sample_process ''/bin/cat'' False)"
    by (simp add: read_violation_def)
  have ex: "\<not> is_path_excluded (config_cell ?e) ''/home/u/.ssh/id_rsa''"
    by (simp add: read_config_def quiet_config_def)
  obtain e' where "file_read quiet_env (sample_header FileRead) ?d ?e = Some e'"
    "signals e' = signals ?e @ (if read_violation ''/home/u/.ssh/id_rsa'' (sample_process ''/bin/cat'' False) \<and>
       \<not> audit_mode ?e then [(SIGSTOP, sint (hdr_pid (sample_header FileRead)))] else [])"
    by (rule file_read_timed [of ?e "sample_header FileRead" sample_key "sample_process ''/bin/cat'' False"
        "''/home/u/.ssh/id_rsa''" ?d "0x10" quiet_env]) (use p cat ex in simp_all)
  then show ?thesis using v by (simp add: handle_event_def Let_def)
qed


text \<open>Two processes: one makes a connection, a reload comes in between.\<close>

theorem quiet_agent_never_deadlocks_witness:
  "\<exists>ts. lock_reach True (map start_thread
      (concat (map (\<lambda>(w, raw, e). event_locks sample_setting sample_placement w raw e)
         [(quiet_env, connect_event, sample_engine quiet_config None (sample_process ''/bin/cat'' False))]) #
        map (\<lambda>(c, st, op). other_locks c st op) [(sample_setting, sample_site, Reload)])) ts \<and>
     ts ! 1 = \<lparr>prog = [Write Rules, Drop Rules], reads = [], writes = []\<rparr> \<and> \<not> deadlock True ts"
proof -
  let ?e = "sample_engine quiet_config None (sample_process ''/bin/cat'' False)"
  let ?ts = "map start_thread
      (concat (map (\<lambda>(w, raw, e). event_locks sample_setting sample_placement w raw e) [(quiet_env, connect_event, ?e)]) #
        map (\<lambda>(c, st, op). other_locks c st op) [(sample_setting, sample_site, Reload)])"
  let ?us = "?ts[1 := advance (?ts ! 1)]"
  have "enabled True ?ts 1" by (simp add: enabled_def start_thread_def)
  then have "lock_step True ?ts ?us" by (intro lock_step.go) simp_all
  then have r: "lock_reach True ?ts ?us" by (rule further [OF here])
  have "contains_nothing quiet_env connect_event ?e"
    by (simp add: contains_nothing_def self_blocking_def handle_event_def Let_def network_connect_def connect_event_def)
  then have "\<not> deadlock True ?us"
    by (intro quiet_agent_never_deadlocks [OF _ _ r]) (simp_all add: sample_site_def connect_event_def)
  then show ?thesis using r by (intro exI [of _ ?us]) (simp add: start_thread_def)
qed

theorem hijack_event_deadlocks_witness:
  "\<exists>e' ts. handle_event quiet_env (write_event ''/opt/wallet/keys'')
       (sample_engine write_config None (sample_process ''/bin/cat'' False)) = Some e' \<and>
     (SIGKILL, 7) \<in> set (signals e') \<and> alerts e' = [] \<and> consumer_blocked e' \<and>
     lock_reach False [start_thread (event_locks sample_setting sample_placement quiet_env
      (write_event ''/opt/wallet/keys'') (sample_engine write_config None (sample_process ''/bin/cat'' False)))] ts \<and>
     deadlock False ts"
proof -
  let ?e = "sample_engine write_config None (sample_process ''/bin/cat'' False)"
  let ?raw = "write_event ''/opt/wallet/keys''"
  have p: "cstr (fw_file_path (write_details ''/opt/wallet/keys'')) = ''/opt/wallet/keys''"
    unfolding write_details_def by (simp add: cstr_pad_text is_ascii_text_def)
  have hj: "is_directory_hijack write_config ''/bin/cat'' ''/opt/wallet/keys''" by code_simp
  obtain e' where e': "handle_event quiet_env ?raw ?e = Some e'"
    using hj p terminate_holding_exact [of ?e 7 sample_key "sample_process ''/bin/cat'' False" quiet_env]
    by (simp add: handle_event_def Let_def file_write_def)
  have t: "hdr_event_type (header ?raw) = FileWrite"
    "find_live (process_map ?e) (hdr_pid (header ?raw)) = Some (sample_key, sample_process ''/bin/cat'' False)"
    "is_directory_hijack (config_cell ?e) (image_path (sample_process ''/bin/cat'' False))
      (cstr (fw_file_path (dec_file_write_details (details_buffer ?raw))))"
    using hj by (simp_all add: p)
  show ?thesis
    using hijack_event_deadlocks [OF t e', of False sample_setting sample_placement] e' by auto
qed

theorem exit_event_deadlocks_witness:
  "\<exists>ts. lock_reach False [start_thread (event_locks sample_setting sample_placement quiet_env
      exit_event (sample_engine quiet_config None (sample_process ''/bin/cat'' False)))] ts \<and> deadlock False ts"
proof -
  have "handle_event quiet_env exit_event (sample_engine quiet_config None (sample_process ''/bin/cat'' False)) =
      Some (sample_engine quiet_config None (sample_process ''/bin/cat'' False)\<lparr>consumer_blocked := True\<rparr>) \<and>
    (\<exists>ts. lock_reach False [start_thread (event_locks sample_setting sample_placement quiet_env
      exit_event (sample_engine quiet_config None (sample_process ''/bin/cat'' False)))] ts \<and> deadlock False ts)"
    by (rule exit_event_deadlocks [of _ _ _ sample_key "sample_process ''/bin/cat'' False"])
      (simp_all add: sample_setting_def quiet_env_def)
  then show ?thesis by blast
qed

theorem stopping_read_deadlocks_witness:
  "\<exists>ts. lock_reach True (map start_thread
      [event_locks sample_setting sample_placement quiet_env (read_event ''/home/u/.ssh/id_rsa'')
         (sample_engine read_config None (sample_process ''/bin/cat'' False)),
       other_locks sample_setting sample_site Reload]) ts \<and> deadlock True ts"
proof -
  obtain e' where "handle_event quiet_env (read_event ''/home/u/.ssh/id_rsa'')
      (sample_engine read_config None (sample_process ''/bin/cat'' False)) = Some e'" "signals e' = [(SIGSTOP, 7)]"
    using key_read by blast
  then show ?thesis by (intro stopping_read_deadlocks [where e' = e']) simp_all
qed

end
