(* ===== verification/Spec2Isabelle.thy ===== *)
theory Spec2Isabelle
  imports Lives Interleaving Schema Subscribe Startup Ingestion Notify Clipboard AgentWindows LockedEvents
begin

text \<open>
  A model of the Kinnector EDR agent (the Rust crate under \<^verbatim>\<open>src/src\<close>), the Unix build and
  the branches of the Windows build. The agent receives telemetry events from a kernel sensor, keeps a
  table of processes, decides by heuristic rules, and contains processes with signals; administrators
  talk to it over a control socket.

  How the parts interact. \<^verbatim>\<open>ipc.rs\<close> authenticates a telemetry client and turns its bytes into
  event frames for a bounded queue; one consumer thread passes each frame to
  \<^verbatim>\<open>HeuristicsEngine::handle_event\<close>, which calls a handler per event kind. Handlers read and
  change the process table, ask the operating system, write alerts and call the containment operations;
  those spawn background tasks (YARA scan, desktop prompt, sweep after an installation). In parallel
  run a purge loop, the control socket, the watcher of the rules database and the TTY listener.

  Theories, in the order of the code's layers:
  \<^item> \<open>Prelude\<close>, \<open>DashMap\<close>, \<open>Utf8\<close>: what the code uses of Rust's strings, maps and of
    \<^verbatim>\<open>String::from_utf8_lossy\<close>. Strings are lists of bytes held as characters. A
    \<^verbatim>\<open>DashMap\<close> is an association list in its iteration order; the laws are the locale
    \<open>keyed_store\<close>, interpreted as \<open>dm\<close>.
  \<^item> \<open>Wire\<close> (\<^verbatim>\<open>types.rs\<close>): the packed structures with encoder and decoder; the locale
    \<open>packed_struct\<close> (size, round trip, prefix-freeness) is interpreted for every structure read.
  \<^item> \<open>ProcTable\<close>, \<open>World\<close>, \<open>Session\<close>: process entries and the lookups of live processes; the
    surroundings as parameters (rules database, operating system, tools: records \<open>config\<close>, \<open>env\<close>);
    desktop session and prompt.
  \<^item> \<open>Sigma\<close>, \<open>Trust\<close>, \<open>Yara\<close>: the rule engine, the inode trust cache, the scanner.
  \<^item> \<open>Engine\<close>, \<open>Containment\<close>: engine state, alerts, signals, the recursive walk over
    children; suspend, terminate, release and kill of trees; then the contract of all operations as
    locales: \<open>engine_op\<close> (invariant kept, logs only grow) and \<open>telemetry_op\<close> (also silent in
    audit mode, and returning under non-zero time stamps). \<open>Notify\<close>: the terminal notices that
    precede a suspension, as small steps between which other threads act.
  \<^item> \<open>FileRules\<close>, \<open>BehaviourRules\<close>, \<open>Lifecycle\<close>, \<open>Dispatch\<close>: one definition per handler,
    each an interpretation of \<open>telemetry_op\<close>, then its exact outcome.
  \<^item> \<open>Ipc\<close>, \<open>Control\<close>, \<open>Subscribe\<close>, \<open>Schema\<close>: the connection handlers of the telemetry and
    the control socket, the alert stream (one step per awaited call), and the types of all answers. \<open>Sockets\<close>: opening the sockets
    and named pipes, on a file system of literal paths.
  \<^item> \<open>Agent\<close>, \<open>Runs\<close>, \<open>Startup\<close> (\<^verbatim>\<open>lib.rs\<close>): start-up, the watcher, the
    servers, Ctrl-C, and the agent as a transition system (\<open>agent_exec\<close>, \<open>reachable\<close>) with concrete
    runs. \<open>Ingestion\<close>: connections, bounded queue and consumer as threads around it.
  \<^item> \<open>Lives\<close>: the abstract system, one automaton per process, that the agent refines.
  \<^item> \<open>Threads\<close>, \<open>ThreadRules\<close>, \<open>ThreadLife\<close>, \<open>Pool\<close>, \<open>Interleaving\<close>: the same handlers as
    programs of single actions (one per access to the shared state), their contract action by action, and
    the agent as a pool of threads that interleave them and wait for each other. \<open>Locks\<close>: threads that take
    locks, two disciplines (a locale and its interpretations) under which they make progress; \<open>LockPrograms\<close>:
    the lock operations of every handler, request and task, shard by shard, and which of them can deadlock;
    \<open>LockedEvents\<close>: which events make their own handler block, the lock operations of the handler of a given
    event in a given state, and the theorems on locks as theorems on events.
  \<^item> \<open>TrustWindows\<close>, \<open>WindowsRules\<close>, \<open>AgentWindows\<close>: the Windows branches of the trust cache, of
    handlers and containment, and the agent put together from them. \<open>Clipboard\<close>
    (\<^verbatim>\<open>clipboard_helper.rs\<close>): the separate process that reports clipboard changes.

  State and effects. The record \<open>engine\<close> has the fields of \<^verbatim>\<open>HeuristicsEngine\<close>, the trust
  files, the queue of background tasks, the logs of signals, alerts and kernel-map updates (oldest
  first), and whether the consumer thread has panicked or is blocked. A step takes an \<open>env\<close>, the answers of
  the surroundings during that step. In \<open>Agent\<close> each handler, command, purge, reload and background task is
  one atomic step, in any order. In \<open>Pool\<close> each is a thread and its accesses interleave with those of
  the others; a thread may wait in any way, also for ever. The theorems on single handlers are about
  threads that do not overlap. The invariant and audit silence are proved for all interleavings, and
  \<open>decided_containment_is_sent\<close>: a decision to stop or kill is never dropped, whatever the others do;
  \<open>release_overtaken\<close> and \<open>rules_mixed\<close> are two effects of overlap.

  Handlers that block. Two places of the Unix build (and one more of the Windows build) wait for a lock the
  handler itself holds: \<^verbatim>\<open>file_write\<close> terminates a directory hijacker while it holds a
  reference to its entry, \<^verbatim>\<open>process_stop\<close> changes an entry while it iterates over the
  table (it blocks where iterators keep their shard, as those of the locked \<^verbatim>\<open>DashMap\<close> 5.5.3
  do: \<open>iterator_clings\<close>), and on Windows \<^verbatim>\<open>file_open\<close> terminates while it holds a
  reference. There the step records what was done before and sets \<open>consumer_blocked\<close>; from then on the
  consumer handles nothing. Whether the lock of another entry is the same is \<open>table_shard\<close>.

  Divergence. \<^term>\<open>None\<close> as the result of a step means that the recursion over the children never ends,
  hence a \<open>partial_function\<close>; with non-zero time stamps it does end. That a step of the model gives a
  state is not a claim that the thread gets there: it may have to wait for others. The only fuel is
  the kernel's limit of 40 symbolic links in \<open>Sockets\<close>.

  What is shown: properties of all runs (invariant and silence of audit mode under every interleaving,
  containment reaching no descendant, the end of ingestion by a panic or a blocked handler), the refinement of process lives and of the
  threads of ingestion, exact outcomes of handlers and commands, sequences of events, round trips from
  the wire to the table and from the alert log to a subscriber, authentication and framing, the schema
  of the answers, start-up on an ordinary system, the equivalences for Sigma conditions, the YARA cache
  and the clipboard reports, and which events can make threads deadlock. Several theorems prove behaviour that
  contradicts the comments; they are listed as findings of the manifest.

  Assumptions and limits. \<^verbatim>\<open>tokio::spawn\<close> panics outside a runtime, as documented. The environment's
  \<open>rehash\<close> may permute a map (\<open>env_ok\<close>). A hash set of children or paths is a list in
  insertion order. Lower-casing is exact for ASCII letters and leaves other bytes alone. The clock is
  read once per handler; time stamps of alerts are numbers. One iteration over a table, one walk over the
  children and one scan are single actions of a thread. Which threads of \<open>Pool\<close> wait in which state is a
  parameter; the guards they wait for are in \<open>LockPrograms\<close> and \<open>LockedEvents\<close>, on the sequences of
  lock operations, without the inner locks of Tokio's channels; a handler's branches are there those it
  takes in the state it starts from. Elsewhere a suspension is modelled from the moment its notices
  (\<open>Notify\<close>) have ended. The file system of \<open>Sockets\<close> resolves a symbolic link only when it is
  the whole path. Not modelled: printing, the build script (linker flags), the telemetry engine behind
  \<^verbatim>\<open>ffi.rs\<close> (its calls are the log \<open>ffi_log\<close>, its queries part of the environment), and
  third-party parsers and matchers, which are parameters.
\<close>

section \<open>Properties of the running agent\<close>

subsection \<open>Every run\<close>

text \<open>The state invariant holds in every state the agent can reach by any interleaving of events,
  commands, background tasks, purges and rule changes: keys are unique and stored in their
  entries, exactly the terminated entries have a deadline, a top-level installer is its own
  root; and signals, alerts and kernel-map updates are only ever appended.\<close>

theorem agent_invariant:
  assumes "run_agent s = Inr e0" "reachable any_input e0 e"
  shows "engine_inv e \<and> effects_grow e0 e"
proof -
  have "base_ok e0 e" using assms(2) by (rule reachable_base)
  then show ?thesis using run_agent_inv [OF assms(1)] by (simp add: base_ok_def)
qed

theorem agent_invariant_witness:
  "\<exists>e0 e k s. reachable any_input e0 e \<and> find_live (process_map e) 7 = Some (k, s) \<and>
     ps_key s = k \<and> ttl_deadline s = None \<and> effects_grow e0 e"
proof -
  obtain e0 e k s where r: "run_agent (sample_startup None quiet_config) = Inr e0"
    "reachable stamped_input e0 e" "find_live (process_map e) 7 = Some (k, s)"
    using family_run by blast
  have any: "reachable any_input e0 e" using reachable_any [OF r(2) stamped_any] .
  have "engine_inv e \<and> effects_grow e0 e" using agent_invariant [OF r(1) any] .
  moreover have "entry_ok k s" if "engine_inv e"
    using that find_live_SomeD [OF r(3)] by (auto simp: engine_inv_def entries_ok_def)
  ultimately show ?thesis using any r(3) find_live_SomeD [OF r(3)] by (auto simp: entry_ok_def)
qed

text \<open>In audit mode the agent sends no signal to any process, however long it runs, as long as no
  command arrives on the control socket.\<close>

theorem audit_mode_sends_nothing:
  assumes "run_agent s = Inr e0" "audit_mode e0" "reachable unattended_input e0 e"
  shows "signals e = []"
  using reachable_silent [OF assms(3)] run_agent_inv [OF assms(1)] assms(2)
  by (simp add: audited_def no_prompt_def)

theorem audit_mode_sends_nothing_witness:
  "\<exists>e0 e. audit_mode e0 \<and> reachable unattended_input e0 e \<and> e \<noteq> e0 \<and> signals e = []"
proof -
  obtain e0 where e0: "run_agent (sample_startup (Some ''true'') quiet_config) = Inr e0" "audit_mode e0"
    "sigma_rules e0 = []" "\<not> consumer_ended e0"
    using start_sample by blast
  let ?e = "create_entry consumer_env (header parent_event) (create_details 7 1 ''/usr/bin/npm'') e0"
  have x: "agent_exec (quiet_env, Telemetry parent_event) e0 = Some ?e"
    unfolding parent_event_def by (rule create_step) (simp_all add: wf_create_details e0)
  have "unattended_input (quiet_env, Telemetry parent_event)" by (simp add: unattended_input_def)
  then have r: "reachable unattended_input e0 ?e"
    using x by (rule reachable.step [OF reachable.start])
  have "process_map ?e \<noteq> process_map e0"
    using run_agent_inv [OF e0(1)] by (simp add: quiet_env_def dm_put_def)
  then have "?e \<noteq> e0" by (metis (no_types))
  then show ?thesis
    using audit_mode_sends_nothing [OF e0(1,2) r] e0(2) r by blast
qed

subsection \<open>The consumer thread\<close>

lemma consumer_stays_ended:
  assumes "consumer_ended e1" "reachable any_input e1 e2"
  shows "consumer_ended e2"
proof -
  have "base_ok e1 e2" using assms(2) by (rule reachable_base)
  then show ?thesis using assms(1) by (auto simp: base_ok_def effects_grow_def)
qed

text \<open>C2. The exit of a top-level installer ends the ingestion of telemetry for good: its handler calls
  \<^verbatim>\<open>tokio::spawn\<close> on the consumer thread, which is outside the runtime, so the thread
  panics, no sweep is queued, and whatever happens later no event changes the state any more.\<close>

theorem installer_exit_ends_ingestion:
  assumes "hdr_event_type (header raw) = ProcessStop" "\<not> consumer_panicked e"
    and "find_live (process_map e) (hdr_pid (header raw)) = Some (k, s)" "is_top_level_install s"
    and "agent_exec (w, Telemetry raw) e = Some e1" "reachable any_input e1 e2"
  shows "tasks e1 = tasks e \<and> agent_exec (w', Telemetry raw') e2 = Some e2"
proof -
  have "tasks e1 = tasks e \<and> consumer_ended e1"
    using assms(1-5) by (cases "consumer_blocked e") (auto simp: handle_event_def Let_def process_stop_def spawn_task_def)
  then show ?thesis using consumer_stays_ended [OF _ assms(6)] by simp
qed

definition stop_event :: telemetry_event_raw where
  "stop_event = \<lparr>header = sample_header ProcessStop, details_buffer = []\<rparr>"

theorem installer_exit_ends_ingestion_witness:
  "\<exists>e1. agent_exec (quiet_env, Telemetry stop_event) (sample_engine quiet_config None
       ((sample_process ''/usr/bin/npm'' True)\<lparr>is_top_level_install := True\<rparr>)) = Some e1 \<and>
     (\<forall>raw. agent_exec (quiet_env, Telemetry raw) e1 = Some e1)"
proof -
  let ?e = "sample_engine quiet_config None ((sample_process ''/usr/bin/npm'' True)\<lparr>is_top_level_install := True\<rparr>)"
  have p: "\<not> consumer_panicked ?e" "\<not> consumer_blocked ?e" by (simp_all add: sample_engine_def new_engine_def)
  have h: "hdr_event_type (header stop_event) = ProcessStop" "hdr_pid (header stop_event) = 7"
    by (simp_all add: stop_event_def)
  have r: "agent_exec (quiet_env, Telemetry stop_event) ?e = Some (?e\<lparr>consumer_panicked := True\<rparr>)"
    using p by (simp add: handle_event_def Let_def h process_stop_def spawn_task_def)
  from installer_exit_ends_ingestion [OF h(1) p(1) _ _ r reachable.start] show ?thesis
    using r by (auto simp: h)
qed



text \<open>A handler on the consumer thread queues no prompt, and when it stops a process in a desktop session the
  consumer panics.\<close>

definition stops_some :: "engine \<Rightarrow> engine \<Rightarrow> bool" where
  "stops_some e e' \<longleftrightarrow> (\<exists>p. (SIGSTOP, p) \<in> set (drop (length (signals e)) (signals e')))"

definition unprompted :: "env \<Rightarrow> engine \<Rightarrow> engine \<Rightarrow> bool" where
  "unprompted w e e' \<longleftrightarrow>
     filter is_prompt (tasks e') = filter is_prompt (tasks e) \<and>
     (get_active_session_context w (config_cell e) \<noteq> None \<and> stops_some e e' \<longrightarrow> consumer_panicked e')"

lemma unprompted_same:
  "signals e' = signals e \<Longrightarrow> filter is_prompt (tasks e') = filter is_prompt (tasks e) \<Longrightarrow> unprompted w e e'"
  by (simp add: unprompted_def stops_some_def)

lemma unprompted_after:
  "unprompted w f e' \<Longrightarrow> signals f = signals e \<Longrightarrow> config_cell f = config_cell e \<Longrightarrow>
     filter is_prompt (tasks f) = filter is_prompt (tasks e) \<Longrightarrow> unprompted w e e'"
  by (simp add: unprompted_def stops_some_def)

lemma suspend_unprompted:
  "suspend_process_tree w k reason cat r e = Some e' \<Longrightarrow> \<not> on_runtime w \<Longrightarrow> unprompted w e e'"
  by (auto simp: suspend_process_tree_def engine_simps unprompted_def stops_some_def Let_def
      split: option.splits if_splits)

lemma terminate_unprompted: "terminate_threat_pkm w k reason cat r e = Some e' \<Longrightarrow> unprompted w e e'"
  by (auto simp: terminate_threat_pkm_def engine_simps signalled_def unprompted_def stops_some_def Let_def
      split: option.splits if_splits)

lemma holding_unprompted: "terminate_holding w k reason cat r e = Some e' \<Longrightarrow> unprompted w e e'"
  by (auto simp: terminate_holding_def engine_simps signalled_def unprompted_def stops_some_def Let_def
      case_prod_beta split: option.splits if_splits)

lemma unprompted_refl [simp]: "unprompted w e e"
  by (simp add: unprompted_same)

lemma unprompted_updates [simp]:
  "unprompted w (f\<lparr>process_map := pm\<rparr>) e = unprompted w f e"
  "unprompted w (write_structured_alert v p sev cat r act_name msg f) e = unprompted w f e"
  "unprompted w (note_read v key s c path f) e = unprompted w f e"
  "unprompted w e (f\<lparr>process_map := pm\<rparr>) = unprompted w e f"
  "unprompted w e (write_structured_alert v p sev cat r act_name msg f) = unprompted w e f"
  "unprompted w e (note_read v key s c path f) = unprompted w e f"
  by (simp_all add: unprompted_def stops_some_def note_read_def)

lemma sigma_unprompted: "\<not> on_runtime w \<Longrightarrow> sigma_check w p k path cmd e = Some e' \<Longrightarrow> unprompted w e e'"
  by (auto simp: sigma_check_def split: option.splits dest: suspend_unprompted)

lemma create_unprompted:
  assumes "\<not> on_runtime w" "process_create w h d e = Some e'"
  shows "unprompted w e e'"
proof (rule unprompted_after)
  show "unprompted w (create_entry w h d e) e'"
    using assms sigma_unprompted by (simp add: process_create_eq)
qed simp_all

lemma read_unprompted: "\<not> on_runtime w \<Longrightarrow> file_read w h d e = Some e' \<Longrightarrow> unprompted w e e'"
  by (auto simp: file_read_cases Let_def split: option.splits if_splits dest!: suspend_unprompted)

lemma stop_unprompted: "\<not> on_runtime w \<Longrightarrow> process_stop w h e = Some e' \<Longrightarrow> unprompted w e e'"
  by (auto simp: process_stop_def split: option.splits if_splits intro!: unprompted_same)

lemma write_unprompted: "file_write w h d e = Some e' \<Longrightarrow> unprompted w e e'"
  by (auto simp: file_write_def Let_def split: option.splits if_splits
      dest!: terminate_unprompted holding_unprompted)

lemma open_unprompted: "file_open w h d e = Some e' \<Longrightarrow> unprompted w e e'"
  by (auto simp: file_open_def Let_def split: option.splits if_splits dest!: terminate_unprompted)

lemma connect_unprompted: "\<not> on_runtime w \<Longrightarrow> network_connect w h d e = Some e' \<Longrightarrow> unprompted w e e'"
  by (auto simp: network_connect_def Let_def split: option.splits if_splits dest!: suspend_unprompted)

lemma dup2_unprompted: "dup2 w h d e = Some e' \<Longrightarrow> unprompted w e e'"
  by (auto simp: dup2_def Let_def split: option.splits if_splits dest!: terminate_unprompted)

lemma registry_unprompted: "registry_write w h d e = Some e' \<Longrightarrow> unprompted w e e'"
  by (auto simp: registry_write_def Let_def split: option.splits if_splits dest!: terminate_unprompted)

lemma ptrace_unprompted: "\<not> on_runtime w \<Longrightarrow> ptrace_attach w h d e = Some e' \<Longrightarrow> unprompted w e e'"
  by (auto simp: ptrace_attach_def Let_def split: option.splits if_splits dest!: suspend_unprompted)

lemma memory_unprompted: "\<not> on_runtime w \<Longrightarrow> memory_protect w h d b e = Some e' \<Longrightarrow> unprompted w e e'"
  by (auto simp: memory_protect_def Let_def split: option.splits if_splits dest!: suspend_unprompted)

lemma image_unprompted: "image_load w h d e = Some e' \<Longrightarrow> unprompted w e e'"
  by (auto simp: image_load_def Let_def split: option.splits if_splits)

lemmas handlers_unprompted = create_unprompted read_unprompted stop_unprompted write_unprompted open_unprompted
  connect_unprompted dup2_unprompted registry_unprompted ptrace_unprompted memory_unprompted image_unprompted

lemma event_unprompted:
  assumes "handle_event w raw e = Some e'" "\<not> on_runtime w"
  shows "unprompted w e e'"
  using assms
  by (cases "hdr_event_type (header raw)")
    (auto simp: handle_event_def Let_def clipboard_write_def dest: handlers_unprompted)

text \<open>C22. The user is never asked about a process an event has stopped: in a desktop session, whichever event it
  is whose handling sends a stop signal, the spawn of the prompt panics in the consumer thread as well; no prompt
  is queued, and no later event is handled.\<close>

theorem event_prompt_never_shown:
  assumes "get_active_session_context w (config_cell e) \<noteq> None"
    and "agent_exec (w, Telemetry raw) e = Some e1"
    and "(SIGSTOP, p) \<in> set (drop (length (signals e)) (signals e1))" "reachable any_input e1 e2"
  shows "consumer_panicked e1 \<and> filter is_prompt (tasks e1) = filter is_prompt (tasks e) \<and>
    agent_exec (w', Telemetry raw') e2 = Some e2"
proof -
  have "handle_event (w\<lparr>on_runtime := False\<rparr>) raw e = Some e1"
    using assms(2,3) by (auto split: if_splits)
  then have "unprompted (w\<lparr>on_runtime := False\<rparr>) e e1" by (rule event_unprompted) simp
  moreover have "get_active_session_context (w\<lparr>on_runtime := False\<rparr>) = get_active_session_context w"
    by (intro ext) simp
  moreover have "stops_some e e1" using assms(3) by (auto simp: stops_some_def)
  ultimately have "consumer_panicked e1 \<and> filter is_prompt (tasks e1) = filter is_prompt (tasks e)"
    using assms(1) by (simp add: unprompted_def)
  then show ?thesis using consumer_stays_ended [OF _ assms(4)] by simp
qed

definition session_env :: env where
  "session_env = quiet_env\<lparr>
     proc_list := Some [\<lparr>pe_name = Some ''9'', pe_comm = ''gnome-shell'', pe_uid = Some 1000\<rparr>]\<rparr>"

theorem event_prompt_never_shown_witness:
  "\<exists>e1. agent_exec (session_env, Telemetry connect_event)
       (sample_engine (quiet_config\<lparr>window_managers := [''gnome-shell'']\<rparr>) None
          ((sample_process ''/bin/x'' False)\<lparr>category_flags := 4\<rparr>)) = Some e1 \<and>
     signals e1 = [(SIGSTOP, 7)] \<and> consumer_panicked e1 \<and> filter is_prompt (tasks e1) = []"
proof -
  let ?cfg = "quiet_config\<lparr>window_managers := [''gnome-shell'']\<rparr>"
  let ?s = "(sample_process ''/bin/x'' False)\<lparr>category_flags := 4\<rparr>"
  let ?e = "sample_engine ?cfg None ?s"
  have "trim ''gnome-shell'' = ''gnome-shell''" "parse_u32 ''9'' = Some 9" "list_all is_ascii_digit ''9''"
    by (simp_all add: trim_def is_ascii_whitespace_def parse_u32_def is_ascii_digit_def)
  then have s: "get_active_session_context session_env (config_cell ?e) \<noteq> None"
    by (simp add: get_active_session_context_def session_env_def)
  obtain e1 where e1: "network_connect (session_env\<lparr>on_runtime := False\<rparr>) (sample_header NetworkConnect)
      (dec_network_connect_details (details_buffer connect_event)) ?e = Some e1"
    "signals e1 = signals ?e @ [(SIGSTOP, 7)]"
    by (rule network_connect_timed [of ?e "sample_header NetworkConnect" sample_key ?s "session_env\<lparr>on_runtime := False\<rparr>"])
      auto
  then have r: "agent_exec (session_env, Telemetry connect_event) ?e = Some e1"
    by (simp add: handle_event_def Let_def connect_event_def sample_engine_def new_engine_def)
  have "(SIGSTOP, 7) \<in> set (drop (length (signals ?e)) (signals e1))" using e1(2) by simp
  from event_prompt_never_shown [OF s r this reachable.start] show ?thesis
    using r e1(2) by auto
qed

subsection \<open>Process trees\<close>

text \<open>C1. Containment never reaches a descendant. Children are recorded under a key with start time 0
  and looked up under the key with the real one, so with non-zero time stamps every tracked process
  counts as childless: killing or suspending its tree signals the root only, and the sweep
  after an installation signals nobody.\<close>

theorem descendants_never_contained:
  assumes "run_agent s = Inr e0" "reachable stamped_input e0 e"
    and "find_live (process_map e) pid = Some (k, p)"
  shows "collect_descendants (children_map e) k = Some [] \<and>
    (\<exists>e'. kill_process_tree w pid e = Some (Inr e') \<and> signals e' = signals e @ [(SIGKILL, sint pid)]) \<and>
    (\<exists>e'. suspend_process_tree w k reason cat path e = Some e' \<and>
       signals e' = signals e @ (if audit_mode e then [] else [(SIGSTOP, sint pid)])) \<and>
    (\<exists>e'. run_task w (OrphanSweep k) e = Some e' \<and> signals e' = signals e)"
proof -
  have t: "timed e" by (rule started_timed [OF assms(1,2)])
  have k: "pk_start_time k \<noteq> 0" by (rule timed_live_key [OF t assms(3)])
  have pid: "pk_pid k = pid" using find_live_SomeD [OF assms(3)] by simp
  have 1: "\<exists>e'. kill_process_tree w pid e = Some (Inr e') \<and> signals e' = signals e @ [(SIGKILL, sint pid)]"
    by (rule kill_timed [OF t assms(3), of w]) (auto simp: pid)
  have 2: "\<exists>e'. suspend_process_tree w k reason cat path e = Some e' \<and>
      signals e' = signals e @ (if audit_mode e then [] else [(SIGSTOP, sint pid)])"
    by (rule suspend_timed [OF t k, of w reason cat path]) (auto simp: pid)
  show ?thesis
    using 1 2 timed_collect [OF t k]
    by (simp add: orphan_sweep_def collect_static_eq)
qed

theorem descendants_never_contained_witness:
  "\<exists>e e'. find_live (process_map e) 8 \<noteq> None \<and>
     children_of (children_map e) \<lparr>pk_pid = 7, pk_start_time = 0\<rparr> = [\<lparr>pk_pid = 8, pk_start_time = 6\<rparr>] \<and>
     kill_process_tree quiet_env 7 e = Some (Inr e') \<and> signals e' = signals e @ [(SIGKILL, 7)]"
proof -
  obtain e0 e k s where r: "run_agent (sample_startup None quiet_config) = Inr e0"
    "reachable stamped_input e0 e" "find_live (process_map e) 7 = Some (k, s)"
    and c: "find_live (process_map e) 8 \<noteq> None"
      "children_of (children_map e) \<lparr>pk_pid = 7, pk_start_time = 0\<rparr> = [\<lparr>pk_pid = 8, pk_start_time = 6\<rparr>]"
    using family_run by blast
  have "\<exists>e'. kill_process_tree quiet_env 7 e = Some (Inr e') \<and>
      signals e' = signals e @ [(SIGKILL, sint (7 :: u32))]"
    using descendants_never_contained [OF r, of quiet_env] by blast
  then show ?thesis using c by auto
qed

text \<open>C24. An event with time stamp 0 that names a process as its own parent closes a cycle in the
  children map. No input ever opens it again: in every state reached from then on, no containment of that
  process returns (the recursion overflows the stack), be it a suspension, a termination, the sweep
  after its exit, or a command to kill or release it; so the event is a denial of service.\<close>

theorem own_child_diverges:
  assumes "process_create w h d e = Some e'" "timestamp_ns h = 0" "pc_child_pid d = hdr_pid h"
    and "k = \<lparr>pk_pid = hdr_pid h, pk_start_time = 0\<rparr>" "reachable any_input e' e2"
  shows "suspend_process_tree w' k reason cat path e2 = None \<and>
    terminate_threat_pkm w' k reason cat path e2 = None \<and>
    terminate_holding w' k reason cat path e2 = None \<and> run_task w' (OrphanSweep k) e2 = None \<and>
    (find_live (process_map e2) (hdr_pid h) = Some (k, s) \<longrightarrow>
       kill_process_tree w' (hdr_pid h) e2 = None \<and> release_process_tree w' (hdr_pid h) e2 = None)"
proof -
  have "children_map e' = add_child k k (children_map e)"
    using assms(1-4) by (auto simp: process_create_eq dest!: sigma_check_frame)
  then have "k \<in> set (children_of (children_map e') k)"
    by (simp add: add_child_def children_of_def dm.get_put)
  moreover have "children_grow (children_map e') (children_map e2)"
    using reachable_base [OF assms(5)] by (simp add: base_ok_def effects_grow_def)
  ultimately have "k \<in> set (children_of (children_map e2) k)" by (auto simp: children_grow_def)
  then have "(k, k) \<in> (child_rel (children_map e2))\<inverse>" by (simp add: child_rel_def)
  moreover have "k \<in> bounded_below cm \<Longrightarrow> (k, k) \<notin> (child_rel cm)\<inverse>" for k cm
    by (induction rule: acc_induct_rule) blast
  ultimately have "collect_descendants (children_map e2) k = None"
    using collect_returns_iff by blast
  then show ?thesis
    by (simp add: suspend_process_tree_def terminate_threat_pkm_def terminate_holding_def orphan_sweep_def
        kill_process_tree_def release_process_tree_def collect_static_eq)
qed

theorem own_child_diverges_witness:
  "\<exists>e'. process_create quiet_env (header (create_event 0 7 (create_details 7 7 ''/bin/x'')))
        (create_details 7 7 ''/bin/x'') (sample_engine quiet_config None (sample_process ''/bin/x'' False)) =
        Some e' \<and>
      suspend_process_tree quiet_env \<lparr>pk_pid = 7, pk_start_time = 0\<rparr> '''' '''' '''' e' = None"
proof -
  let ?h = "header (create_event 0 7 (create_details 7 7 ''/bin/x''))"
  let ?e = "sample_engine quiet_config None (sample_process ''/bin/x'' False)"
  have r: "process_create quiet_env ?h (create_details 7 7 ''/bin/x'') ?e =
      Some (create_entry quiet_env ?h (create_details 7 7 ''/bin/x'') ?e)"
    by (simp add: process_create_eq sigma_check_def)
  from own_child_diverges [OF r _ _ refl reachable.start] show ?thesis using r by simp
qed

subsection \<open>Sequences of events\<close>

text \<open>C16. Reading a sensitive file and connecting to the network, in either order, stops the process:
  the later of the two events sends the stop signal, whoever owns the file.\<close>

theorem read_and_connect_stops:
  assumes "timed e" "\<not> audit_mode e" "find_live (process_map e) pid = Some (k, s)"
    and "hdr_pid h = pid" "hdr_pid h' = pid"
    and "\<not> is_path_excluded (config_cell e) (cstr (fr_file_path d))"
    and "resolve_category (config_cell e) (cstr (fr_file_path d)) \<noteq> 0"
  shows "(\<exists>e1 e2. file_read w h d e = Some e1 \<and> network_connect w' h' d' e1 = Some e2 \<and>
       signals e2 = signals e1 @ [(SIGSTOP, sint pid)]) \<and>
    (\<exists>e1 e2. network_connect w h' d' e = Some e1 \<and> file_read w' h d e1 = Some e2 \<and>
       signals e2 = signals e1 @ [(SIGSTOP, sint pid)])"
proof -
  let ?path = "cstr (fr_file_path d)"
  let ?cat = "resolve_category (config_cell e) ?path"
  note live = assms(3) [folded assms(4)]
  obtain e1 where e1: "file_read w h d e = Some e1" "timed e1" "audit_mode e1 = audit_mode e"
    "find_live (process_map e1) (hdr_pid h) = Some (k, record_read ?cat ?path s)"
    by (rule file_read_timed [OF assms(1) live refl refl assms(6,7)])
  have flags: "category_flags (record_read ?cat ?path s) \<noteq> 0"
    using assms(7) by (simp add: or_eq_0_iff)
  have live1: "find_live (process_map e1) (hdr_pid h') = Some (k, record_read ?cat ?path s)"
    using e1(4) assms(4,5) by simp
  obtain e2 where e2: "network_connect w' h' d' e1 = Some e2" "signals e2 = signals e1 @
      (if category_flags (record_read ?cat ?path s) \<noteq> 0 \<and> \<not> audit_mode e1
       then [(SIGSTOP, sint (hdr_pid h'))] else [])"
    by (rule network_connect_timed [OF e1(2) live1])
  have live': "find_live (process_map e) (hdr_pid h') = Some (k, s)" using assms(3,5) by simp
  obtain f1 where f1: "network_connect w h' d' e = Some f1" "timed f1" "audit_mode f1 = audit_mode e"
    "find_live (process_map f1) (hdr_pid h') = Some (k, note_connect s)" "config_cell f1 = config_cell e"
    by (rule network_connect_timed [OF assms(1) live'])
  have live2: "find_live (process_map f1) (hdr_pid h) = Some (k, note_connect s)"
    and sens: "\<not> is_path_excluded (config_cell f1) ?path" "resolve_category (config_cell f1) ?path \<noteq> 0"
    using f1(4,5) assms(4-7) by simp_all
  obtain f2 where f2: "file_read w' h d f1 = Some f2" "signals f2 = signals f1 @
      (if read_violation ?path (note_connect s) \<and> \<not> audit_mode f1
       then [(SIGSTOP, sint (hdr_pid h))] else [])"
    by (rule file_read_timed [OF f1(2) live2 refl refl sens])
  have "read_violation ?path (note_connect s)" by (simp add: read_violation_def)
  then show ?thesis
    using e1 e2 f1 f2 flags assms(2,4,5) by simp
qed

lemma sample_read: 
  "cstr (fr_file_path (read_details ''/home/u/.ssh/id_rsa'')) = ''/home/u/.ssh/id_rsa''"
  "resolve_category read_config ''/home/u/.ssh/id_rsa'' = 0x10"
  "\<not> is_path_excluded read_config ''/home/u/.ssh/id_rsa''"
  by (rule read_details_path, simp add: is_ascii_text_def, code_simp, code_simp)

theorem read_and_connect_stops_witness:
  "\<exists>e1 e2. file_read quiet_env (sample_header FileRead) (read_details ''/home/u/.ssh/id_rsa'')
       (sample_engine read_config None (sample_process ''/usr/bin/ssh'' False)) = Some e1 \<and>
     network_connect quiet_env (sample_header NetworkConnect) connect_details e1 = Some e2 \<and>
     signals e2 = signals e1 @ [(SIGSTOP, 7)]"
  using read_and_connect_stops [where e = "sample_engine read_config None (sample_process ''/usr/bin/ssh'' False)"
      and pid = 7 and k = sample_key and s = "sample_process ''/usr/bin/ssh'' False"
      and h = "sample_header FileRead" and h' = "sample_header NetworkConnect"
      and d = "read_details ''/home/u/.ssh/id_rsa''" and w = quiet_env and w' = quiet_env
      and d' = connect_details]
  by (simp add: sample_read)

text \<open>C25. A release does not last. It clears the flags of the root but not the paths it has read, so a
  process that had read three sensitive paths is stopped again by its next sensitive read, even
  of a file it owns.\<close>

theorem released_process_stopped_again:
  assumes "timed e" "\<not> audit_mode e" "find_live (process_map e) pid = Some (k, s)"
    and "2 < length (unique_files_read s)" "hdr_pid h = pid"
    and "\<not> is_path_excluded (config_cell e) (cstr (fr_file_path d))"
    and "resolve_category (config_cell e) (cstr (fr_file_path d)) \<noteq> 0"
  shows "\<exists>e1 e2. release_process_tree w pid e = Some (Inr e1) \<and> file_read w' h d e1 = Some e2 \<and>
    signals e1 = signals e @ [(SIGCONT, sint pid)] \<and>
    signals e2 = signals e1 @ [(SIGSTOP, sint pid)]"
proof -
  let ?path = "cstr (fr_file_path d)"
  have pid: "pk_pid k = pid" using find_live_SomeD [OF assms(3)] by simp
  obtain e1 where e1: "release_process_tree w pid e = Some (Inr e1)" "timed e1"
    "signals e1 = signals e @ [(SIGCONT, sint (pk_pid k))]" "audit_mode e1 = audit_mode e"
    "config_cell e1 = config_cell e" "process_map e1 = dm_alter k clear_threat (process_map e)"
    by (rule release_timed [OF assms(1,3)])
  have live: "find_live (process_map e1) (hdr_pid h) = Some (k, clear_threat s)"
    unfolding e1(6) assms(5) by (rule find_live_alter_same [OF _ assms(3)]) simp
  have sens: "\<not> is_path_excluded (config_cell e1) ?path" "resolve_category (config_cell e1) ?path \<noteq> 0"
    using e1(5) assms(6,7) by simp_all
  obtain e2 where e2: "file_read w' h d e1 = Some e2" "signals e2 = signals e1 @
      (if read_violation ?path (clear_threat s) \<and> \<not> audit_mode e1
       then [(SIGSTOP, sint (hdr_pid h))] else [])"
    by (rule file_read_timed [OF e1(2) live refl refl sens])
  have "2 < length (hs_insert ?path (unique_files_read s))"
    using assms(4) length_hs_insert [of "unique_files_read s" ?path] by linarith
  then have "read_violation ?path (clear_threat s)" by (simp add: read_violation_def)
  then show ?thesis using e1 e2 assms(2,5) by (simp add: pid)
qed

theorem released_process_stopped_again_witness:
  "\<exists>e1 e2. release_process_tree quiet_env 7 (sample_engine read_config None
       ((sample_process ''/usr/bin/ssh'' False)\<lparr>unique_files_read := [''a'', ''b'', ''c'']\<rparr>)) = Some (Inr e1) \<and>
     file_read quiet_env (sample_header FileRead) (read_details ''/home/u/.ssh/id_rsa'') e1 = Some e2 \<and>
     signals e2 = signals e1 @ [(SIGSTOP, 7)]"
  using released_process_stopped_again [where e = "sample_engine read_config None
        ((sample_process ''/usr/bin/ssh'' False)\<lparr>unique_files_read := [''a'', ''b'', ''c'']\<rparr>)"
      and pid = 7 and k = sample_key
      and s = "(sample_process ''/usr/bin/ssh'' False)\<lparr>unique_files_read := [''a'', ''b'', ''c'']\<rparr>"
      and h = "sample_header FileRead" and d = "read_details ''/home/u/.ssh/id_rsa''"
      and w = quiet_env and w' = quiet_env]
  by (auto simp: sample_read)

text \<open>The process list and the containment disagree: after a mere connection a process is listed
  as contained although it has received no signal.\<close>

theorem connected_process_listed_contained:
  assumes "timed e" "find_live (process_map e) (hdr_pid h) = Some (k, s)" "category_flags s = 0"
  shows "\<exists>e' s'. network_connect w h d e = Some e' \<and> signals e' = signals e \<and>
    find_live (process_map e') (hdr_pid h) = Some (k, s') \<and> is_contained s'"
  by (rule network_connect_timed [OF assms(1,2), of w d])
    (use assms(3) in \<open>auto simp: is_contained_def\<close>)

theorem connected_process_listed_contained_witness:
  "\<exists>e' s'. network_connect quiet_env (sample_header NetworkConnect) connect_details
       (sample_engine quiet_config None (sample_process ''/usr/bin/curl'' False)) = Some e' \<and>
     signals e' = [] \<and> is_contained s'"
  using connected_process_listed_contained [where
      e = "sample_engine quiet_config None (sample_process ''/usr/bin/curl'' False)"
      and h = "sample_header NetworkConnect" and k = sample_key
      and s = "sample_process ''/usr/bin/curl'' False" and w = quiet_env and d = connect_details]
  by auto

text \<open>In audit mode an install process that touches a credential is not killed but is recorded and
  reported as terminated: it disappears from the agent's view while it keeps running.\<close>

theorem audit_kill_is_recorded:
  assumes "engine_inv e" "timed e" "audit_mode e" "find_live (process_map e) (hdr_pid h) = Some (k, s)"
    and "is_install_context s" "is_credential_path (config_cell e) (cstr (fo_file_path d))"
  shows "\<exists>e' a. file_open w h d e = Some e' \<and> signals e' = signals e \<and>
    alerts e' = alerts e @ [a] \<and> al_action a = ''TERMINATED'' \<and>
    dm_get (process_map e') k = Some (stop_entry (clock w) s)"
proof -
  have k: "pk_start_time k \<noteq> 0" "pk_pid k = hdr_pid h"
    using timed_live_key [OF assms(2,4)] find_live_SomeD [OF assms(4)] by simp_all
  have g: "dm_get (process_map e) k = Some s"
    using find_live_get [OF _ assms(4)] assms(1) by (simp add: engine_inv_def entries_ok_def)
  have t: "\<exists>e' a. terminate_threat_pkm w k reason cat path e = Some e' \<and> signals e' = signals e \<and>
      alerts e' = alerts e @ [a] \<and> al_action a = ''TERMINATED'' \<and>
      dm_get (process_map e') k = Some (stop_entry (clock w) s)" for reason cat path
    using assms(3,4) g k timed_collect [OF assms(2) k(1)]
    by (simp add: terminate_threat_pkm_def alerts_write_alert mark_terminated_def dm.get_alter)
  show ?thesis using assms(4-6) t by (simp add: file_open_def Let_def)
qed

theorem audit_kill_is_recorded_witness:
  "\<exists>e'. file_open quiet_env (sample_header FileOpen) (open_details ''/home/u/.ssh/id_rsa'')
       (sample_engine read_config (Some ''1'') (sample_process ''/usr/bin/node'' True)) = Some e' \<and>
     signals e' = [] \<and> dm_get (process_map e') sample_key =
       Some (stop_entry 0 (sample_process ''/usr/bin/node'' True))"
proof -
  have p: "cstr (fo_file_path (open_details ''/home/u/.ssh/id_rsa'')) = ''/home/u/.ssh/id_rsa''"
    unfolding open_details_def by (simp add: cstr_pad_text is_ascii_text_def)
  have "is_credential_path read_config ''/home/u/.ssh/id_rsa''" by code_simp
  moreover have "clock quiet_env = 0" by (simp add: quiet_env_def)
  ultimately show ?thesis
    using audit_kill_is_recorded [where
        e = "sample_engine read_config (Some ''1'') (sample_process ''/usr/bin/node'' True)"
        and h = "sample_header FileOpen" and k = sample_key
        and s = "sample_process ''/usr/bin/node'' True" and w = quiet_env
        and d = "open_details ''/home/u/.ssh/id_rsa''"]
    unfolding p by (auto simp: engine_inv_sample)
qed

subsection \<open>From the socket to the table\<close>

text \<open>C21. A creation event on the wire reaches the table as it was sent: for ASCII texts that fit their
  fields, the new process is found under its PID and time stamp with the path and the
  command line of the event.\<close>

theorem creation_reaches_table:
  assumes "env_ok w" "engine_inv e" "is_ascii_text path" "length path \<le> 512"
    and "is_ascii_text cmd" "length cmd \<le> 1024"
    and "handle_event w (create_event ts parent \<lparr>pc_child_pid = pid, pc_real_parent_pid = creator,
           pc_child_image_path = pad_text 512 path, pc_child_command_line = pad_text 1024 cmd\<rparr>) e = Some e'"
  shows "\<exists>s. dm_get (process_map e') \<lparr>pk_pid = pid, pk_start_time = ts\<rparr> = Some s \<and>
    image_path s = path \<and> command_line s = cmd \<and> ppid s = parent \<and> real_parent_pid s = creator \<and>
    \<not> terminated s"
proof -
  let ?d = "\<lparr>pc_child_pid = pid, pc_real_parent_pid = creator, pc_child_image_path = pad_text 512 path,
    pc_child_command_line = pad_text 1024 cmd\<rparr>"
  have "wf_process_create_details ?d"
    using assms(4,6) by (simp add: wf_process_create_details_def length_pad_text)
  then have "process_create w (header (create_event ts parent ?d)) ?d e = Some e'"
    using assms(7) by (simp add: handle_create_event)
  from process_create_stores(1) [OF assms(1,2) this] show ?thesis
    using cstr_pad_text [OF assms(3)] cstr_pad_text [OF assms(5)]
    by (simp add: stored_state_def created_state_def Let_def)
qed

theorem creation_reaches_table_witness:
  "\<exists>e' s. handle_event quiet_env (create_event 9 7 (create_details 8 7 ''/bin/sh''))
       (sample_engine quiet_config None (sample_process ''/bin/bash'' False)) = Some e' \<and>
     dm_get (process_map e') \<lparr>pk_pid = 8, pk_start_time = 9\<rparr> = Some s \<and> image_path s = ''/bin/sh''"
proof -
  let ?e = "sample_engine quiet_config None (sample_process ''/bin/bash'' False)"
  obtain e' where r: "handle_event quiet_env (create_event 9 7 (create_details 8 7 ''/bin/sh'')) ?e = Some e'"
    using handle_event_returns [of quiet_env "create_event 9 7 (create_details 8 7 ''/bin/sh'')" ?e]
    by (auto simp: returns_def)
  have "is_ascii_text ''/bin/sh''" by (simp add: is_ascii_text_def)
  then show ?thesis
    using creation_reaches_table [OF env_ok_quiet engine_inv_sample [OF entry_ok_sample], of "''/bin/sh''"
        "''/bin/sh''"] r unfolding create_details_def by fastforce
qed

subsection \<open>Rules and start-up\<close>

text \<open>Start-up initialises the telemetry engine, registers the trusted executables, enables blocking (exactly
  once), starts the engine, and only then registers the sensitive files.\<close>

theorem startup_order:
  assumes "run_agent s = Inr e"
  shows "\<exists>trusted sensitive.
    ffi_log e = [InitializeTelemetryEngine] @ trusted @ [SetConfigValue 0 1, StartTelemetryEngine] @ sensitive \<and>
    (\<forall>c \<in> set trusted. \<exists>ino. c = AddTrustedExecInode ino 2) \<and>
    (\<forall>c \<in> set sensitive. \<exists>ino cat. c = AddSensitiveInode ino cat)"
proof -
  obtain cfg where "ffi_log e = InitializeTelemetryEngine # initialize_trust_cache (st_env s) cfg (st_trust s) @
      StartTelemetryEngine # register_sensitive (st_env s) cfg @ register_protected (st_env s) cfg"
    using assms by (auto simp: run_agent_def Let_def split: if_splits)
  moreover obtain inos where "initialize_trust_cache (st_env s) cfg (st_trust s) =
      map (\<lambda>i. AddTrustedExecInode i 2) inos @ [SetConfigValue 0 1]"
    using startup_registers by blast
  moreover have "\<exists>ino cat. c = AddSensitiveInode ino cat"
    if "c \<in> set (register_sensitive (st_env s) cfg @ register_protected (st_env s) cfg)" for c
    using that by (auto simp: register_sensitive_def register_protected_def split: option.splits)
  ultimately show ?thesis
    by (intro exI [of _ "map (\<lambda>i. AddTrustedExecInode i 2) inos"]
        exI [of _ "register_sensitive (st_env s) cfg @ register_protected (st_env s) cfg"]) auto
qed

theorem startup_order_witness:
  "\<exists>e trusted sensitive. run_agent (sample_startup None quiet_config) = Inr e \<and>
     ffi_log e = [InitializeTelemetryEngine] @ trusted @ [SetConfigValue 0 1, StartTelemetryEngine] @ sensitive"
  using start_sample [of None quiet_config] startup_order by blast

text \<open>The two ways to reload the rules differ: the file watcher swaps in the same rules as the
  control command but does not register their protected directories.\<close>

theorem hot_reload_skips_protected:
  assumes "load_rules_db w = Inr cfg"
  shows "\<exists>e1. handle_request w ReloadRules e =
      Some (Success (message ''Rules database reloaded successfully''), e1) \<and>
    config_cell (hot_reload w e) = cfg \<and> config_cell e1 = cfg \<and>
    ffi_log e1 = ffi_log (hot_reload w e) @ register_protected w cfg"
  using assms by (simp add: reload_rules_def reply_def hot_reload_def)

theorem hot_reload_skips_protected_witness:
  "\<exists>w e1. load_rules_db w = Inr write_config \<and>
     handle_request w ReloadRules (sample_engine quiet_config None (sample_process ''/bin/sh'' False)) =
       Some (Success (message ''Rules database reloaded successfully''), e1) \<and>
     ffi_log e1 \<noteq> ffi_log (hot_reload w (sample_engine quiet_config None (sample_process ''/bin/sh'' False)))"
proof -
  let ?w = "quiet_env\<lparr>load_rules_db := Inr write_config, file_inode := (\<lambda>_. Some 5)\<rparr>"
  have l: "load_rules_db ?w = Inr write_config" by simp
  have "register_protected ?w write_config \<noteq> []"
    by (simp add: register_protected_def write_config_def)
  then show ?thesis
    using hot_reload_skips_protected [OF l] l by (metis append_self_conv)
qed

text \<open>The lossy decoding of texts always yields valid UTF-8, and changes exactly the inputs that are
  not: decoding twice is decoding once.\<close>

theorem utf8_lossy_exact:
  "utf8_valid (utf8_lossy bs) \<and> (utf8_lossy bs = bs \<longleftrightarrow> utf8_valid bs) \<and>
   utf8_lossy (utf8_lossy bs) = utf8_lossy bs"
  using utf8_valid_lossy [of bs] utf8_lossy_of_valid by metis

end
